(* ===== verification/GH_Prelude.thy ===== *)
theory GH_Prelude
  imports Main "HOL-Library.Word"
begin

text \<open>
  Shared vocabulary of the development: C++ exceptions and aborts as values, the result type of
  every fallible operation with its sequencing operator, the cost-free reading of \<open>assert\<close> under
  the two build modes, and the generic facts on lists and results the components use.
\<close>

section \<open>Exceptions, aborts and results\<close>

text \<open>
  The exception classes the sources throw or catch. \<open>Json_error\<close> is \<open>nlohmann::json::exception\<close>
  (with its \<open>what()\<close> text), \<open>Toml_error\<close> is whatever the TOML library throws; all of them derive
  from \<open>std::exception\<close>.
\<close>

datatype exn =
    Runtime_error string
  | System_error string
  | Invalid_argument string
  | Out_of_range string
  | Json_error string
  | Toml_error string

text \<open>
  Ways to leave the program that no \<open>catch\<close> sees: a failed \<open>assert\<close>, an exception that leaves a
  \<open>noexcept\<close> function, \<open>std::exit\<close>, an access that is undefined behaviour in C++, and a loop that
  never ends.
\<close>

datatype fault =
    Assertion
  | Std_terminate
  | Exit_process int
  | Undefined_behaviour
  | Diverges

datatype 'a res = Val 'a | Throw exn | Abort fault

fun bnd :: "'a res \<Rightarrow> ('a \<Rightarrow> 'b res) \<Rightarrow> 'b res" where
  "bnd (Val x) f = f x"
| "bnd (Throw e) f = Throw e"
| "bnd (Abort a) f = Abort a"

text \<open>
  An \<open>assert(c)\<close>: without \<open>NDEBUG\<close> a false condition aborts the program, with \<open>NDEBUG\<close> the
  statement is not there. \<open>ndebug\<close> is the build mode.
\<close>

definition cassert :: "bool \<Rightarrow> bool \<Rightarrow> unit res" where
  "cassert ndebug c = (if ndebug \<or> c then Val () else Abort Assertion)"

text \<open>What leaves a \<open>noexcept\<close> function: an exception that would escape terminates the program.\<close>

fun noexcept :: "'a res \<Rightarrow> 'a res" where
  "noexcept (Val x) = Val x"
| "noexcept (Throw e) = Abort Std_terminate"
| "noexcept (Abort a) = Abort a"

text \<open>
  A loop over a linked list is a \<^theory_text>\<open>partial_function (option)\<close>, where \<open>None\<close> is the run that never returns.
\<close>

definition returned :: "'a res option \<Rightarrow> 'a res" where
  "returned r = (case r of None \<Rightarrow> Abort Diverges | Some x \<Rightarrow> x)"

lemma returned_Some [simp]: "returned (Some x) = x"
  by (simp add: returned_def)

text \<open>Sequencing of operations that change a state and return a result.\<close>

fun then_do :: "'a res \<times> 's \<Rightarrow> ('a \<Rightarrow> 's \<Rightarrow> 'b res \<times> 's) \<Rightarrow> 'b res \<times> 's" where
  "then_do (Val x, s) f = f x s"
| "then_do (Throw e, s) f = (Throw e, s)"
| "then_do (Abort a, s) f = (Abort a, s)"

lemma then_do_cong [fundef_cong]:
  "p = p' \<Longrightarrow> (\<And>x s. p' = (Val x, s) \<Longrightarrow> f x s = f' x s) \<Longrightarrow> then_do p f = then_do p' f'"
  by (cases "(p', f')" rule: then_do.cases) auto

lemma then_do_Val_iff:
  "then_do p f = (Val y, t) \<longleftrightarrow> (\<exists>x s. p = (Val x, s) \<and> f x s = (Val y, t))"
  by (cases "(p, f)" rule: then_do.cases) auto

text \<open>Results of the JSON and the TOML library: a value, or the text of the exception thrown.\<close>

fun json_res :: "string + 'a \<Rightarrow> 'a res" where
  "json_res (Inl m) = Throw (Json_error m)"
| "json_res (Inr x) = Val x"

fun toml_res :: "string + 'a \<Rightarrow> 'a res" where
  "toml_res (Inl m) = Throw (Toml_error m)"
| "toml_res (Inr x) = Val x"

type_synonym size_t = "64 word"

named_theorems res_simps "evaluation of sequenced results"

lemma bnd_Val_iff [res_simps]: "bnd r f = Val y \<longleftrightarrow> (\<exists>x. r = Val x \<and> f x = Val y)"
  by (cases r) auto

lemma bnd_ValE: "bnd r f = Val y \<Longrightarrow> (\<And>x. r = Val x \<Longrightarrow> f x = Val y \<Longrightarrow> P) \<Longrightarrow> P"
  by (cases r) auto

lemma bnd_Throw_iff [res_simps]:
  "bnd r f = Throw e \<longleftrightarrow> r = Throw e \<or> (\<exists>x. r = Val x \<and> f x = Throw e)"
  by (cases r) auto

lemma bnd_Abort_iff [res_simps]:
  "bnd r f = Abort a \<longleftrightarrow> r = Abort a \<or> (\<exists>x. r = Val x \<and> f x = Abort a)"
  by (cases r) auto

lemma bnd_Val_right [simp]: "bnd r Val = r"
  by (cases r) auto

lemma bnd_assoc: "bnd (bnd r f) g = bnd r (\<lambda>x. bnd (f x) g)"
  by (cases r) auto

lemma bnd_cong [fundef_cong]:
  "r = r' \<Longrightarrow> (\<And>x. r' = Val x \<Longrightarrow> f x = f' x) \<Longrightarrow> bnd r f = bnd r' f'"
  by (cases r') auto

lemma cassert_Val [simp]: "c \<Longrightarrow> cassert nd c = Val ()"
  by (simp add: cassert_def)

lemma cassert_release [simp]: "cassert True c = Val ()"
  by (simp add: cassert_def)

lemma cassert_fails [simp]: "cassert False False = Abort Assertion"
  by (simp add: cassert_def)

lemma cassert_Val_iff [res_simps]: "cassert nd c = Val u \<longleftrightarrow> nd \<or> c"
  by (simp add: cassert_def)

lemma cassert_not_Throw [res_simps]: "cassert nd c \<noteq> Throw e"
  by (simp add: cassert_def)

lemma cassert_Abort_iff [res_simps]: "cassert nd c = Abort a \<longleftrightarrow> \<not> nd \<and> \<not> c \<and> a = Assertion"
  by (auto simp add: cassert_def)

lemma noexcept_never_throws [simp]: "noexcept r \<noteq> Throw e"
  by (cases r) auto

lemma noexcept_Val_iff [res_simps]: "noexcept r = Val x \<longleftrightarrow> r = Val x"
  by (cases r) auto

lemma json_res_Val [res_simps]: "json_res r = Val x \<longleftrightarrow> r = Inr x"
  by (cases r) auto

lemma json_res_Throw [res_simps]: "json_res r = Throw e \<longleftrightarrow> (\<exists>m. r = Inl m \<and> e = Json_error m)"
  by (cases r) auto

lemma json_res_no_Abort [res_simps]: "json_res r \<noteq> Abort a"
  by (cases r) auto

lemma toml_res_Val [res_simps]: "toml_res r = Val x \<longleftrightarrow> r = Inr x"
  by (cases r) auto

lemma toml_res_Throw [res_simps]: "toml_res r = Throw e \<longleftrightarrow> (\<exists>m. r = Inl m \<and> e = Toml_error m)"
  by (cases r) auto

lemma toml_res_no_Abort [res_simps]: "toml_res r \<noteq> Abort a"
  by (cases r) auto

text \<open>A loop that collects the values of a fallible step and stops at the first failure.\<close>

fun map_res :: "('a \<Rightarrow> 'b res) \<Rightarrow> 'a list \<Rightarrow> 'b list res" where
  "map_res f [] = Val []"
| "map_res f (x # xs) = bnd (f x) (\<lambda>y. bnd (map_res f xs) (\<lambda>ys. Val (y # ys)))"

lemma map_res_Val_iff [res_simps]:
  "map_res f xs = Val ys \<longleftrightarrow> list_all2 (\<lambda>x y. f x = Val y) xs ys"
proof (induction xs arbitrary: ys)
  case Nil
  then show ?case by auto
next
  case (Cons x xs)
  then show ?case by (auto simp add: bnd_Val_iff list_all2_Cons1)
qed

lemma map_res_cong [fundef_cong]:
  "xs = ys \<Longrightarrow> (\<And>x. x \<in> set ys \<Longrightarrow> f x = g x) \<Longrightarrow> map_res f xs = map_res g ys"
proof (induction ys arbitrary: xs)
  case Nil
  then show ?case by simp
next
  case (Cons y ys)
  then show ?case by simp
qed

text \<open>A 64-bit word below the sign bit has the same value signed and unsigned.\<close>

lemma small_sint: "uint (w :: 64 word) < 2 ^ 63 \<Longrightarrow> sint w = uint w"
proof -
  assume "uint w < 2 ^ 63"
  moreover have "- (2 ^ 63) \<le> uint w" by (rule order_trans [OF _ uint_ge_0]) simp
  ultimately have "signed_take_bit 63 (uint w) = uint w" by (intro signed_take_bit_int_eq_self)
  then show ?thesis by (simp add: sint_uint)
qed

section \<open>Generic facts on lists\<close>

lemma dropWhile_eq_Cons_hd: "dropWhile P xs = y # ys \<Longrightarrow> \<not> P y"
  by (metis hd_dropWhile list.distinct(1) list.sel(1))

lemma takeWhile_all: "x \<in> set (takeWhile P xs) \<Longrightarrow> P x"
  by (rule set_takeWhileD [THEN conjunct2])

lemma takeWhile_append_stop: "\<forall>x\<in>set xs. P x \<Longrightarrow> \<not> P y \<Longrightarrow> takeWhile P (xs @ y # ys) = xs"
  by (induction xs) auto

lemma dropWhile_append_stop: "\<forall>x\<in>set xs. P x \<Longrightarrow> \<not> P y \<Longrightarrow> dropWhile P (xs @ y # ys) = y # ys"
  by (induction xs) auto

lemma length_dropWhile_less: "xs \<noteq> [] \<Longrightarrow> P (hd xs) \<Longrightarrow> length (dropWhile P xs) < length xs"
  by (cases xs) (auto simp add: le_imp_less_Suc length_dropWhile_le)

end
