(* ===== verification/Text_Scan.thy ===== *)
theory Text_Scan
  imports GH_Prelude
begin

text \<open>
  The byte-string routines of \<open>src/hook.cpp\<close>: \<open>trimmed\<close>, \<open>split_command\<close> and the scan of a URL
  that \<open>hook::gitlabServerFrom\<close> makes, over the \<open>std::string_view\<close> searches they call. The
  lemmas relate each loop to a declarative reading: what is removed, which words a command has,
  where a server address ends.
\<close>

section \<open>Searches of std::string_view\<close>

text \<open>\<open>None\<close> is \<open>npos\<close>. A position past the end finds nothing.\<close>

fun find_idx :: "(char \<Rightarrow> bool) \<Rightarrow> string \<Rightarrow> nat option" where
  "find_idx P [] = None"
| "find_idx P (c # cs) = (if P c then Some 0 else map_option Suc (find_idx P cs))"

definition find_first_of :: "char list \<Rightarrow> string \<Rightarrow> nat \<Rightarrow> nat option" where
  "find_first_of cs s pos = map_option (\<lambda>i. pos + i) (find_idx (\<lambda>c. c \<in> set cs) (drop pos s))"

definition find_first_not_of :: "char list \<Rightarrow> string \<Rightarrow> nat \<Rightarrow> nat option" where
  "find_first_not_of cs s pos = map_option (\<lambda>i. pos + i) (find_idx (\<lambda>c. c \<notin> set cs) (drop pos s))"

text \<open>\<open>substr(pos, n)\<close>; \<open>None\<close> for \<open>n\<close> is \<open>npos\<close>, the rest of the string.\<close>

fun substr :: "string \<Rightarrow> nat \<Rightarrow> nat option \<Rightarrow> string" where
  "substr s pos None = drop pos s"
| "substr s pos (Some n) = take n (drop pos s)"

text \<open>\<open>find(pattern)\<close> for a non-empty pattern, and \<open>rfind(c)\<close>.\<close>

fun prefix_of :: "string \<Rightarrow> string \<Rightarrow> bool" where
  "prefix_of [] s = True"
| "prefix_of (p # ps) [] = False"
| "prefix_of (p # ps) (c # cs) = (p = c \<and> prefix_of ps cs)"

fun find_str :: "string \<Rightarrow> string \<Rightarrow> nat option" where
  "find_str p [] = (if p = [] then Some 0 else None)"
| "find_str p (c # cs) = (if prefix_of p (c # cs) then Some 0 else map_option Suc (find_str p cs))"

fun rfind_char :: "char \<Rightarrow> string \<Rightarrow> nat option" where
  "rfind_char x [] = None"
| "rfind_char x (c # cs) =
     (case rfind_char x cs of
        Some i \<Rightarrow> Some (Suc i)
      | None \<Rightarrow> if c = x then Some 0 else None)"

lemma find_idx_None_iff: "find_idx P s = None \<longleftrightarrow> (\<forall>c\<in>set s. \<not> P c)"
  by (induction s) auto

lemma find_idx_SomeD:
  "find_idx P s = Some i \<Longrightarrow> i < length s \<and> P (s ! i) \<and> (\<forall>c\<in>set (take i s). \<not> P c)"
  by (induction s arbitrary: i) (auto split: if_splits)

lemma find_idx_split:
  "find_idx P s = Some i \<longleftrightarrow> (\<exists>xs c ys. s = xs @ c # ys \<and> P c \<and> (\<forall>x\<in>set xs. \<not> P x) \<and> i = length xs)"
proof
  assume "find_idx P s = Some i"
  then have "i < length s" "P (s ! i)" "\<forall>c\<in>set (take i s). \<not> P c"
    by (auto dest: find_idx_SomeD)
  moreover have "s = take i s @ s ! i # drop (Suc i) s"
    using \<open>i < length s\<close> by (rule id_take_nth_drop)
  ultimately show "\<exists>xs c ys. s = xs @ c # ys \<and> P c \<and> (\<forall>x\<in>set xs. \<not> P x) \<and> i = length xs"
    by (metis length_take less_or_eq_imp_le min.absorb2)
next
  assume "\<exists>xs c ys. s = xs @ c # ys \<and> P c \<and> (\<forall>x\<in>set xs. \<not> P x) \<and> i = length xs"
  then obtain xs c ys where "s = xs @ c # ys" "P c" "\<forall>x\<in>set xs. \<not> P x" "i = length xs"
    by blast
  then show "find_idx P s = Some i"
    by (induction xs arbitrary: s i) auto
qed

lemma find_idx_take: "find_idx P s = Some i \<Longrightarrow> take i s = takeWhile (\<lambda>c. \<not> P c) s"
  by (auto simp add: find_idx_split takeWhile_append_stop)

lemma find_idx_drop: "find_idx P s = Some i \<Longrightarrow> drop i s = dropWhile (\<lambda>c. \<not> P c) s"
  by (auto simp add: find_idx_split dropWhile_append_stop)

lemma find_first_of_SomeD:
  assumes "find_first_of cs s pos = Some i"
  shows "pos \<le> i \<and> i < length s \<and> s ! i \<in> set cs"
proof -
  from assms obtain j where j: "find_idx (\<lambda>c. c \<in> set cs) (drop pos s) = Some j" "i = pos + j"
    by (auto simp add: find_first_of_def)
  then show ?thesis using find_idx_SomeD [OF j(1)] by (auto simp add: nth_drop)
qed

lemma find_first_not_of_SomeD:
  assumes "find_first_not_of cs s pos = Some i"
  shows "pos \<le> i \<and> i < length s \<and> s ! i \<notin> set cs"
proof -
  from assms obtain j where j: "find_idx (\<lambda>c. c \<notin> set cs) (drop pos s) = Some j" "i = pos + j"
    by (auto simp add: find_first_not_of_def)
  then show ?thesis using find_idx_SomeD [OF j(1)] by (auto simp add: nth_drop)
qed

lemma find_first_not_of_drop:
  assumes "find_first_not_of cs s pos = Some i"
  shows "drop i s = dropWhile (\<lambda>c. c \<in> set cs) (drop pos s)"
proof -
  from assms obtain j where j: "find_idx (\<lambda>c. c \<notin> set cs) (drop pos s) = Some j" "i = pos + j"
    by (auto simp add: find_first_not_of_def)
  then show ?thesis using find_idx_drop [OF j(1)] by (simp add: add.commute)
qed

lemma find_first_not_of_None_iff:
  "find_first_not_of cs s pos = None \<longleftrightarrow> (\<forall>c\<in>set (drop pos s). c \<in> set cs)"
  by (simp add: find_first_not_of_def find_idx_None_iff)

lemma find_first_of_0: "find_first_of cs s 0 = find_idx (\<lambda>c. c \<in> set cs) s"
  by (cases "find_idx (\<lambda>c. c \<in> set cs) s") (simp_all add: find_first_of_def)

lemma rfind_char_None_iff: "rfind_char x s = None \<longleftrightarrow> x \<notin> set s"
  by (induction s) (auto split: option.splits)

lemma rfind_char_SomeD:
  "rfind_char x s = Some i \<Longrightarrow> i < length s \<and> s ! i = x \<and> x \<notin> set (drop (Suc i) s)"
  by (induction s arbitrary: i) (auto simp add: rfind_char_None_iff split: option.splits if_splits)

lemma rfind_char_append: "x \<notin> set ys \<Longrightarrow> rfind_char x (xs @ x # ys) = Some (length xs)"
proof (induction xs)
  case Nil
  then have "rfind_char x ys = None" by (simp add: rfind_char_None_iff)
  then show ?case by simp
next
  case (Cons c xs)
  then show ?case by simp
qed

lemma rfind_char_split:
  "rfind_char x s = Some i \<longleftrightarrow> (\<exists>xs ys. s = xs @ x # ys \<and> x \<notin> set ys \<and> i = length xs)"
proof
  assume "rfind_char x s = Some i"
  then have *: "i < length s" "s ! i = x" "x \<notin> set (drop (Suc i) s)"
    by (auto dest: rfind_char_SomeD)
  moreover have "s = take i s @ x # drop (Suc i) s"
    using id_take_nth_drop [OF *(1)] *(2) by simp
  moreover have "i = length (take i s)"
    using *(1) by simp
  ultimately show "\<exists>xs ys. s = xs @ x # ys \<and> x \<notin> set ys \<and> i = length xs" by blast
qed (auto simp add: rfind_char_append)

lemma rfind_char_less: "rfind_char x s = Some i \<Longrightarrow> i < length s"
  by (auto simp add: rfind_char_split)

lemma prefix_of_iff: "prefix_of p s \<longleftrightarrow> (\<exists>ys. s = p @ ys)"
  by (induction p s rule: prefix_of.induct) auto

lemma prefix_of_append [simp]: "prefix_of p (p @ s)"
  by (auto simp add: prefix_of_iff)

lemma find_str_SomeD: "find_str p s = Some i \<Longrightarrow> i \<le> length s \<and> prefix_of p (drop i s)"
  by (induction s arbitrary: i) (auto split: if_splits)

lemma find_str_first: "find_str p s = Some i \<Longrightarrow> j < i \<Longrightarrow> \<not> prefix_of p (drop j s)"
proof (induction s arbitrary: i j)
  case Nil
  then show ?case by (auto split: if_splits)
next
  case (Cons c s)
  then show ?case by (cases j) (auto split: if_splits)
qed

lemma find_str_NoneD: "find_str p s = None \<Longrightarrow> \<not> prefix_of p (drop j s)"
proof (induction s arbitrary: j)
  case Nil
  then show ?case by (cases p) (auto split: if_splits)
next
  case (Cons c s)
  then show ?case by (cases j) (auto split: if_splits)
qed

section \<open>trimmed\<close>

text \<open>\<open>std::isspace\<close> in the "C" locale: blank, and the bytes 9 to 13.\<close>

definition isspace :: "char \<Rightarrow> bool" where
  "isspace c \<longleftrightarrow> (let n = (of_char c :: nat) in n = 32 \<or> 9 \<le> n \<and> n \<le> 13)"

text \<open>The two loops: \<open>remove_prefix(1)\<close> while the front is a space, \<open>remove_suffix(1)\<close> at the back.\<close>

fun trim_front :: "string \<Rightarrow> string" where
  "trim_front [] = []"
| "trim_front (c # cs) = (if isspace c then trim_front cs else c # cs)"

function trim_back :: "string \<Rightarrow> string" where
  "trim_back s = (if s \<noteq> [] \<and> isspace (last s) then trim_back (butlast s) else s)"
  by pat_completeness auto
termination
  by (relation "measure length") auto

declare trim_back.simps [simp del]

definition trimmed :: "string \<Rightarrow> string" where
  "trimmed s = trim_back (trim_front s)"

lemma trim_front_dropWhile: "trim_front s = dropWhile isspace s"
  by (induction s) auto

lemma trim_back_Nil [simp]: "trim_back [] = []"
  by (simp add: trim_back.simps [of "[]"])

lemma trim_back_snoc [simp]:
  "trim_back (s @ [c]) = (if isspace c then trim_back s else s @ [c])"
  by (simp add: trim_back.simps [of "s @ [c]"])

lemma trim_back_rev: "trim_back s = rev (dropWhile isspace (rev s))"
  by (induction s rule: rev_induct) auto

lemma trim_back_parts: "\<exists>post. s = trim_back s @ post \<and> (\<forall>c\<in>set post. isspace c)"
proof (induction s rule: rev_induct)
  case Nil
  then show ?case by simp
next
  case (snoc c s)
  then obtain post where post: "s = trim_back s @ post" "\<forall>c\<in>set post. isspace c" by blast
  show ?case
  proof (cases "isspace c")
    case True
    have "s @ [c] = trim_back s @ (post @ [c])"
      using post(1) by (metis append_assoc)
    with True post(2) show ?thesis
      by (intro exI [of _ "post @ [c]"]) auto
  qed simp
qed

lemma trim_back_last: "trim_back s \<noteq> [] \<Longrightarrow> \<not> isspace (last (trim_back s))"
  by (induction s rule: rev_induct) (auto split: if_splits)

lemma trim_back_hd: "trim_back s \<noteq> [] \<Longrightarrow> hd (trim_back s) = hd s"
  by (metis append_is_Nil_conv hd_append2 trim_back_parts)

lemma trimmed_outside:
  "\<exists>pre post. s = pre @ trimmed s @ post \<and> (\<forall>c\<in>set (pre @ post). isspace c)"
proof -
  obtain post where "trim_front s = trim_back (trim_front s) @ post" "\<forall>c\<in>set post. isspace c"
    using trim_back_parts by blast
  moreover have "s = takeWhile isspace s @ trim_front s"
    by (simp add: trim_front_dropWhile)
  moreover have "\<forall>c\<in>set (takeWhile isspace s). isspace c"
    by (auto dest: set_takeWhileD)
  ultimately show ?thesis
    unfolding trimmed_def by (metis Un_iff set_append)
qed

lemma trimmed_ends:
  assumes "trimmed s \<noteq> []"
  shows "\<not> isspace (hd (trimmed s))" and "\<not> isspace (last (trimmed s))"
proof -
  show "\<not> isspace (last (trimmed s))"
    using assms trim_back_last by (simp add: trimmed_def)
  have "trim_front s \<noteq> []"
    using assms by (auto simp add: trimmed_def)
  then have "\<not> isspace (hd (trim_front s))"
    by (simp add: trim_front_dropWhile hd_dropWhile)
  then show "\<not> isspace (hd (trimmed s))"
    using assms by (simp add: trimmed_def trim_back_hd)
qed

lemma trimmed_Nil_iff: "trimmed s = [] \<longleftrightarrow> (\<forall>c\<in>set s. isspace c)"
proof -
  have "(\<forall>x\<in>set (dropWhile isspace s). isspace x) \<longleftrightarrow> dropWhile isspace s = []"
    by (metis hd_dropWhile hd_in_set empty_iff list.set(1))
  then show ?thesis
    by (simp add: trimmed_def trim_front_dropWhile trim_back_rev)
qed

lemma trimmed_fixed:
  assumes "s \<noteq> []" and "\<not> isspace (hd s)" and "\<not> isspace (last s)"
  shows "trimmed s = s"
proof -
  have "trim_front s = s"
    using assms by (cases s) auto
  then show ?thesis
    using assms by (simp add: trimmed_def trim_back.simps [of s])
qed

lemma trimmed_idem: "trimmed (trimmed s) = trimmed s"
proof (cases "trimmed s = []")
  case True
  then show ?thesis by (simp add: trimmed_def)
next
  case False
  then show ?thesis by (simp add: trimmed_ends trimmed_fixed)
qed

lemma trimmed_unique:
  assumes "s = pre @ core @ post" and "\<forall>c\<in>set (pre @ post). isspace c"
    and "core \<noteq> []" and "\<not> isspace (hd core)" and "\<not> isspace (last core)"
  shows "trimmed s = core"
proof -
  from assms(3) obtain a as where core: "core = a # as" by (cases core) auto
  with assms have "trim_front s = core @ post"
    by (simp add: trim_front_dropWhile dropWhile_append_stop)
  moreover have "trim_back (core @ post) = core"
  proof -
    from assms(3) obtain bs b where "core = bs @ [b]" by (cases core rule: rev_cases) auto
    moreover from this assms have "dropWhile isspace (rev post @ b # rev bs) = b # rev bs"
      by (intro dropWhile_append_stop) auto
    ultimately show ?thesis by (simp add: trim_back_rev)
  qed
  ultimately show ?thesis by (simp add: trimmed_def)
qed

section \<open>split_command\<close>

text \<open>The two separators of the function, \<open>" \\t"\<close>.\<close>

definition blanks :: string where
  "blanks = [CHR '' '', CHR 0x09]"

text \<open>
  The \<open>for (;;)\<close> loop: \<open>space\<close> is where the last search stopped in \<open>command\<close>, \<open>args\<close> what has
  been pushed so far.
\<close>

function split_loop :: "string \<Rightarrow> nat \<Rightarrow> string list \<Rightarrow> string list" where
  "split_loop command space args =
     (case find_first_not_of blanks command space of
        None \<Rightarrow> args
      | Some next_pos \<Rightarrow>
          let command' = substr command next_pos None;
              space' = find_first_of blanks command' 0;
              args' = args @ [substr command' 0 space']
          in (case space' of None \<Rightarrow> args' | Some sp \<Rightarrow> split_loop command' sp args'))"
  by pat_completeness auto
termination
proof (relation "measure (\<lambda>(command, space, args). 2 * length command + (if space = 0 then 1 else 0))")
  fix command :: string and space :: nat and args :: "string list" and n :: nat
    and command' space' args' sp
  assume n: "find_first_not_of blanks command space = Some n"
    and c': "command' = substr command n None"
    and sp: "space' = find_first_of blanks command' 0" "space' = Some sp"
  from n have "space \<le> n" "n < length command" "command ! n \<notin> set blanks"
    by (auto dest!: find_first_not_of_SomeD)
  moreover from sp have "sp < length command'" "command' ! sp \<in> set blanks"
    using find_first_of_SomeD [of blanks command' 0 sp] by auto
  moreover from this calculation c' have "sp \<noteq> 0" by (cases sp) auto
  ultimately show "((command', sp, args'), command, space, args)
      \<in> measure (\<lambda>(command, space, args). 2 * length command + (if space = 0 then 1 else 0))"
    using c' by auto
qed simp

declare split_loop.simps [simp del]

definition split_command :: "string \<Rightarrow> string \<times> string list" where
  "split_command command =
     (case find_first_of blanks command 0 of
        None \<Rightarrow> (command, [])
      | Some space \<Rightarrow> (substr command 0 (Some space), split_loop command space []))"

text \<open>The declarative reading: the maximal runs of non-blank bytes, in order.\<close>

function tokens :: "string \<Rightarrow> string list" where
  "tokens s =
     (case dropWhile (\<lambda>c. c \<in> set blanks) s of
        [] \<Rightarrow> []
      | c # cs \<Rightarrow> (c # takeWhile (\<lambda>c. c \<notin> set blanks) cs)
                    # tokens (dropWhile (\<lambda>c. c \<notin> set blanks) cs))"
  by pat_completeness auto
termination
proof (relation "measure length")
  fix s c cs
  assume "dropWhile (\<lambda>c. c \<in> set blanks) s = c # cs"
  then have "length (c # cs) \<le> length s"
    by (metis length_dropWhile_le)
  then show "(dropWhile (\<lambda>c. c \<notin> set blanks) cs, s) \<in> measure length"
    using length_dropWhile_le [of "\<lambda>c. c \<notin> set blanks" cs] by simp
qed simp

declare tokens.simps [simp del]

lemma tokens_blank_front: "c \<in> set blanks \<Longrightarrow> tokens (c # s) = tokens s"
  by (simp add: tokens.simps [of "c # s"] tokens.simps [of s])

lemma tokens_word_front:
  "c \<notin> set blanks \<Longrightarrow> tokens (c # s) =
     (c # takeWhile (\<lambda>c. c \<notin> set blanks) s) # tokens (dropWhile (\<lambda>c. c \<notin> set blanks) s)"
  by (simp add: tokens.simps [of "c # s"])

lemma tokens_Nil [simp]: "tokens [] = []"
  by (simp add: tokens.simps [of "[]"])

lemma tokens_one_word:
  assumes "c \<notin> set blanks" and "\<forall>x\<in>set cs. x \<notin> set blanks"
  shows "tokens (c # cs) = [c # cs]"
proof -
  have "takeWhile (\<lambda>c. c \<notin> set blanks) cs = cs" "tokens (dropWhile (\<lambda>c. c \<notin> set blanks) cs) = []"
    using assms(2) by (auto simp only: takeWhile_eq_all_conv) (metis dropWhile_eq_Nil_conv tokens_Nil)
  with assms(1) show ?thesis by (simp add: tokens_word_front)
qed

lemma tokens_skip_blanks: "tokens (dropWhile (\<lambda>c. c \<in> set blanks) s) = tokens s"
  by (induction s) (auto simp add: tokens_blank_front)

lemma tokens_all_blank: "\<forall>c\<in>set s. c \<in> set blanks \<Longrightarrow> tokens s = []"
  by (induction s) (auto simp add: tokens_blank_front)

lemma split_loop_tokens: "split_loop command space args = args @ tokens (drop space command)"
proof (induction command space args rule: split_loop.induct)
  case (1 command space args)
  show ?case
  proof (cases "find_first_not_of blanks command space")
    case None
    then have "tokens (drop space command) = []"
      by (simp add: find_first_not_of_None_iff tokens_all_blank)
    with None show ?thesis
      by (simp add: split_loop.simps [of command space args])
  next
    case (Some n)
    let ?d = "drop n command"
    have d: "tokens (drop space command) = tokens ?d"
      using find_first_not_of_drop [OF Some] by (simp add: tokens_skip_blanks)
    have "n < length command" "command ! n \<notin> set blanks"
      using find_first_not_of_SomeD [OF Some] by auto
    then obtain c cs where ccs: "?d = c # cs" "c \<notin> set blanks"
      by (metis Cons_nth_drop_Suc)
    show ?thesis
    proof (cases "find_first_of blanks ?d 0")
      case None
      then have "\<forall>x\<in>set cs. x \<notin> set blanks"
        by (simp add: find_first_of_0 find_idx_None_iff ccs)
      then have "tokens ?d = [?d]"
        using ccs by (simp add: tokens_one_word)
      with None Some d show ?thesis
        by (simp add: split_loop.simps [of command space args])
    next
      case (Some sp)
      note word = \<open>find_first_of blanks ?d 0 = Some sp\<close> [unfolded find_first_of_0]
      have "tokens ?d = take sp ?d # tokens (drop sp ?d)"
        using ccs find_idx_take [OF word] find_idx_drop [OF word] by (simp add: tokens_word_front)
      moreover have "split_loop ?d sp (args @ [take sp ?d]) = (args @ [take sp ?d]) @ tokens (drop sp ?d)"
        using "1" [OF \<open>find_first_not_of blanks command space = Some n\<close>, of ?d "Some sp"] Some by simp
      ultimately show ?thesis
        using Some \<open>find_first_not_of blanks command space = Some n\<close> d
        by (simp add: split_loop.simps [of command space args])
    qed
  qed
qed

text \<open>
  A command that does not start with a blank is cut into its words: the first is the program, the
  others are the arguments.
\<close>

lemma split_command_tokens:
  assumes "command \<noteq> []" and "hd command \<notin> set blanks"
  shows "tokens command = fst (split_command command) # snd (split_command command)"
proof -
  from assms obtain c cs where c: "command = c # cs" "c \<notin> set blanks" by (cases command) auto
  show ?thesis
  proof (cases "find_first_of blanks command 0")
    case None
    then have "\<forall>x\<in>set cs. x \<notin> set blanks"
      by (simp add: find_first_of_0 find_idx_None_iff c)
    with None c show ?thesis
      by (simp add: split_command_def tokens_one_word)
  next
    case (Some sp)
    note word = this [unfolded find_first_of_0]
    have "tokens command = take sp command # tokens (drop sp command)"
      using c find_idx_take [OF word] find_idx_drop [OF word] by (simp add: tokens_word_front)
    with Some show ?thesis
      by (simp add: split_command_def split_loop_tokens)
  qed
qed

lemma tokens_step:
  assumes "dropWhile (\<lambda>c. c \<in> set blanks) s = c # cs"
  shows "c \<notin> set blanks" and "tokens s = (c # takeWhile (\<lambda>c. c \<notin> set blanks) cs)
    # tokens (dropWhile (\<lambda>c. c \<notin> set blanks) cs)"
  using dropWhile_eq_Cons_hd [OF assms] assms by (simp, subst tokens.simps) simp

lemma tokens_words: "w \<in> set (tokens s) \<Longrightarrow> w \<noteq> [] \<and> (\<forall>c\<in>set w. c \<notin> set blanks)"
proof (induction s rule: tokens.induct)
  case (1 s)
  show ?case
  proof (cases "dropWhile (\<lambda>c. c \<in> set blanks) s")
    case Nil
    then have "tokens s = []"
      by (intro tokens_all_blank) (simp only: dropWhile_eq_Nil_conv)
    with "1.prems" show ?thesis by simp
  next
    case (Cons c cs)
    note step = tokens_step [OF Cons]
    from "1.prems" consider "w = c # takeWhile (\<lambda>c. c \<notin> set blanks) cs"
      | "w \<in> set (tokens (dropWhile (\<lambda>c. c \<notin> set blanks) cs))"
      by (auto simp only: step set_simps insert_iff)
    then show ?thesis
    proof cases
      case 1
      with step(1) show ?thesis by (auto dest: set_takeWhileD)
    next
      case 2
      then show ?thesis by (rule "1.IH" [OF Cons])
    qed
  qed
qed

lemma tokens_concat: "concat (tokens s) = filter (\<lambda>c. c \<notin> set blanks) s"
proof (induction s rule: tokens.induct)
  case (1 s)
  have s: "filter (\<lambda>c. c \<notin> set blanks) s = filter (\<lambda>c. c \<notin> set blanks) (dropWhile (\<lambda>c. c \<in> set blanks) s)"
    by (induction s) auto
  show ?case
  proof (cases "dropWhile (\<lambda>c. c \<in> set blanks) s")
    case Nil
    then have "tokens s = []"
      by (intro tokens_all_blank) (simp only: dropWhile_eq_Nil_conv)
    moreover have "filter (\<lambda>c. c \<notin> set blanks) s = []"
      using s by (simp only: Nil filter.simps)
    ultimately show ?thesis by simp
  next
    case (Cons c cs)
    have "filter (\<lambda>c. c \<notin> set blanks) cs
        = takeWhile (\<lambda>c. c \<notin> set blanks) cs @ filter (\<lambda>c. c \<notin> set blanks) (dropWhile (\<lambda>c. c \<notin> set blanks) cs)"
      by (induction cs) auto
    with tokens_step [OF Cons] "1.IH" [OF Cons] s Cons show ?thesis by simp
  qed
qed

text \<open>A configured command after \<open>trimmed\<close> never starts with one of the two separators.\<close>

lemma blanks_isspace: "c \<in> set blanks \<Longrightarrow> isspace c"
  by (auto simp add: blanks_def isspace_def)

lemma trimmed_no_blank_front: "trimmed s \<noteq> [] \<Longrightarrow> hd (trimmed s) \<notin> set blanks"
  using trimmed_ends(1) blanks_isspace by blast

text \<open>Joining words with single blanks, the inverse of \<open>tokens\<close> on blank-free words.\<close>

fun join_words :: "string list \<Rightarrow> string" where
  "join_words [] = []"
| "join_words [w] = w"
| "join_words (w # ws) = w @ CHR '' '' # join_words ws"

lemma tokens_word_append:
  assumes "w \<noteq> []" and "\<forall>c\<in>set w. c \<notin> set blanks"
  shows "tokens (w @ CHR '' '' # s) = w # tokens s" and "tokens w = [w]"
proof -
  from assms obtain c cs where c: "w = c # cs" "c \<notin> set blanks" "\<forall>c\<in>set cs. c \<notin> set blanks"
    by (cases w) auto
  have b: "CHR '' '' \<in> set blanks" by (simp add: blanks_def)
  with c show "tokens (w @ CHR '' '' # s) = w # tokens s"
    by (simp add: tokens_word_front takeWhile_append_stop dropWhile_append_stop tokens_blank_front)
  from c show "tokens w = [w]"
    by (simp add: tokens_one_word)
qed

lemma tokens_join_words:
  "\<forall>w\<in>set ws. w \<noteq> [] \<and> (\<forall>c\<in>set w. c \<notin> set blanks) \<Longrightarrow> tokens (join_words ws) = ws"
  by (induction ws rule: join_words.induct) (simp_all add: tokens_word_append)

section \<open>The server part of a URL\<close>

text \<open>
  The scan of \<open>hook::gitlabServerFrom\<close> on the text of \<open>project.web_url\<close>: the first \<open>"://"\<close>, then
  the first slash behind it; everything before that slash is the server.
\<close>

definition find_char_from :: "char \<Rightarrow> string \<Rightarrow> nat \<Rightarrow> nat option" where
  "find_char_from c s pos = find_first_of [c] s pos"

definition server_of_url :: "string \<Rightarrow> string res" where
  "server_of_url url =
     (let failed = Throw (Runtime_error ''invalid project.web_url in Gitlab JSON payload'')
      in case find_str ''://'' url of
           None \<Rightarrow> failed
         | Some protoPos \<Rightarrow>
             (case find_char_from (CHR ''/'') url (protoPos + 3) of
                None \<Rightarrow> failed
              | Some serverPos \<Rightarrow> Val (substr url 0 (Some serverPos))))"

lemma server_of_url_Val:
  assumes "server_of_url url = Val server"
  shows "\<exists>proto host rest. url = proto @ ''://'' @ host @ CHR ''/'' # rest
           \<and> server = proto @ ''://'' @ host \<and> CHR ''/'' \<notin> set host
           \<and> (\<forall>j < length proto. \<not> prefix_of ''://'' (drop j url))"
proof -
  from assms obtain p q where p: "find_str ''://'' url = Some p"
    and q: "find_char_from (CHR ''/'') url (p + 3) = Some q" and server: "server = take q url"
    by (auto simp add: server_of_url_def Let_def split: option.splits)
  from q obtain h where h: "find_idx (\<lambda>c. c \<in> set [CHR ''/'']) (drop (p + 3) url) = Some h" "q = p + 3 + h"
    by (auto simp add: find_char_from_def find_first_of_def)
  from h(1) obtain host rest where hr: "drop (p + 3) url = host @ CHR ''/'' # rest"
    "CHR ''/'' \<notin> set host" "h = length host"
    by (auto simp add: find_idx_split)
  from find_str_SomeD [OF p] obtain ys where ys: "drop p url = ''://'' @ ys"
    by (auto simp add: prefix_of_iff)
  then have "ys = drop (p + 3) url"
    by (metis add.commute append_eq_conv_conj drop_drop length_Cons list.size(3) numeral_3_eq_3)
  then have url: "url = take p url @ ''://'' @ host @ CHR ''/'' # rest"
    using ys hr(1) by (metis append_take_drop_id)
  have len: "length (take p url) = p"
    using find_str_SomeD [OF p] by simp
  have "take q url = take p url @ ''://'' @ host"
  proof -
    have "q = length (take p url @ ''://'' @ host)"
      using len h(2) hr(3) by simp
    then show ?thesis
      using url by (metis append.assoc append_eq_conv_conj)
  qed
  moreover have "\<forall>j < length (take p url). \<not> prefix_of ''://'' (drop j url)"
    using find_str_first [OF p] len by simp
  ultimately show ?thesis
    using url server hr(2) by blast
qed

lemma server_of_url_cases:
  "server_of_url url = Throw (Runtime_error ''invalid project.web_url in Gitlab JSON payload'')
   \<or> (\<exists>server. server_of_url url = Val server)"
  by (auto simp add: server_of_url_def Let_def split: option.splits)

end
