(* ===== verification/Environment_Block.thy ===== *)
theory Environment_Block
  imports Text_Scan
begin

text \<open>
  \<open>process::environment\<close> of \<open>src/process.h\<close> and \<open>src/process.cpp\<close>: the list of \<open>NAME=value\<close> entries a
  child process is started with, its three setters and the vector of C strings handed to
  \<open>execve\<close>. Also \<open>std::to_string\<close> on integers, which the hooks use for the values. The lemmas state
  what \<open>getenv\<close> in the child finds after the setters, and that numbers and lists can be read back.
\<close>

section \<open>std::to_string\<close>

definition digit_char :: "nat \<Rightarrow> char" where
  "digit_char d = char_of (48 + d)"

fun nat_to_string :: "nat \<Rightarrow> string" where
  "nat_to_string n =
     (if n < 10 then [digit_char n] else nat_to_string (n div 10) @ [digit_char (n mod 10)])"

declare nat_to_string.simps [simp del]

definition int_to_string :: "int \<Rightarrow> string" where
  "int_to_string i = (if i < 0 then CHR ''-'' # nat_to_string (nat (- i)) else nat_to_string (nat i))"

text \<open>The decimal value of a digit string, as a reader of the variable computes it.\<close>

definition digit_value :: "char \<Rightarrow> nat" where
  "digit_value c = of_char c - 48"

definition decimal_value :: "string \<Rightarrow> nat" where
  "decimal_value s = foldl (\<lambda>n c. 10 * n + digit_value c) 0 s"

lemma of_digit_char: "d < 10 \<Longrightarrow> (of_char (digit_char d) :: nat) = 48 + d"
  by (simp add: digit_char_def of_char_of)

lemma digit_value_digit [simp]: "d < 10 \<Longrightarrow> digit_value (digit_char d) = d"
  by (simp add: digit_value_def of_digit_char)

lemma decimal_value_snoc [simp]: "decimal_value (s @ [c]) = 10 * decimal_value s + digit_value c"
  by (simp add: decimal_value_def)

lemma decimal_value_nat_to_string: "decimal_value (nat_to_string n) = n"
proof (induction n rule: nat_to_string.induct)
  case (1 n)
  show ?case
  proof (cases "n < 10")
    case True
    then show ?thesis by (simp add: nat_to_string.simps [of n] decimal_value_def)
  next
    case False
    with "1.IH" show ?thesis by (simp add: nat_to_string.simps [of n])
  qed
qed

lemma nat_to_string_digits:
  "c \<in> set (nat_to_string n) \<Longrightarrow> 48 \<le> (of_char c :: nat) \<and> (of_char c :: nat) \<le> 57"
proof (induction n rule: nat_to_string.induct)
  case (1 n)
  show ?case
  proof (cases "n < 10")
    case True
    with "1.prems" show ?thesis by (simp add: nat_to_string.simps [of n] of_digit_char)
  next
    case False
    then have "c \<in> set (nat_to_string (n div 10)) \<or> c = digit_char (n mod 10)"
      using "1.prems" by (auto simp add: nat_to_string.simps [of n])
    with False "1.IH" show ?thesis
      by (auto simp add: of_digit_char)
  qed
qed

lemma nat_to_string_nonempty: "nat_to_string n \<noteq> []"
  by (simp add: nat_to_string.simps [of n])

section \<open>The entries\<close>

type_synonym environment = "string list"

definition env_set_entry :: "environment \<Rightarrow> string \<Rightarrow> environment" where
  "env_set_entry mEntries entry = mEntries @ [entry]"

definition env_set :: "environment \<Rightarrow> string \<Rightarrow> string \<Rightarrow> environment" where
  "env_set mEntries var val = mEntries @ [var @ [CHR ''=''] @ val]"

text \<open>
  The loop of \<open>set_list\<close>: the separator is \<open>=\<close> in front of the first value and a blank in front of
  every other one.
\<close>

fun set_list_loop :: "char \<Rightarrow> string \<Rightarrow> string list \<Rightarrow> string" where
  "set_list_loop sep entry [] = entry"
| "set_list_loop sep entry (v # vs) = set_list_loop (CHR '' '') (entry @ [sep] @ v) vs"

definition env_set_list :: "environment \<Rightarrow> string \<Rightarrow> string list \<Rightarrow> environment" where
  "env_set_list mEntries var vals = mEntries @ [set_list_loop (CHR ''='') var vals]"

text \<open>
  \<open>get\<close>: a vector of \<open>c_str\<close> pointers and a final null pointer. What a C function reads through
  such a pointer ends before the first NUL byte.
\<close>

definition c_str :: "string \<Rightarrow> string" where
  "c_str s = takeWhile (\<lambda>c. c \<noteq> CHR 0x00) s"

definition env_get :: "environment \<Rightarrow> string option list" where
  "env_get mEntries = map (\<lambda>entry. Some (c_str entry)) mEntries @ [None]"

text \<open>
  How the started program reads the block (\<open>getenv\<close>): the entries up to the null pointer, the first
  one that is the name followed by \<open>=\<close>.
\<close>

fun strip_prefix :: "string \<Rightarrow> string \<Rightarrow> string option" where
  "strip_prefix [] s = Some s"
| "strip_prefix (p # ps) [] = None"
| "strip_prefix (p # ps) (c # cs) = (if p = c then strip_prefix ps cs else None)"

fun getenv :: "string option list \<Rightarrow> string \<Rightarrow> string option" where
  "getenv [] var = None"
| "getenv (None # es) var = None"
| "getenv (Some e # es) var =
     (case strip_prefix (var @ [CHR ''='']) e of Some v \<Rightarrow> Some v | None \<Rightarrow> getenv es var)"

section \<open>Reading back what was set\<close>

lemma strip_prefix_iff: "strip_prefix p s = Some r \<longleftrightarrow> s = p @ r"
  by (induction p s rule: strip_prefix.induct) auto

lemma c_str_clean: "CHR 0x00 \<notin> set s \<Longrightarrow> c_str s = s"
  by (auto simp add: c_str_def takeWhile_eq_all_conv)

lemma c_str_append: "CHR 0x00 \<notin> set s \<Longrightarrow> c_str (s @ t) = s @ c_str t"
  by (induction s) (auto simp add: c_str_def)

lemma c_str_no_nul: "CHR 0x00 \<notin> set (c_str s)"
  by (auto simp add: c_str_def dest: set_takeWhileD)

lemma set_list_loop_shift: "set_list_loop sep (a @ b) vs = a @ set_list_loop sep b vs"
proof (induction vs arbitrary: sep b)
  case Nil
  then show ?case by simp
next
  case (Cons v vs)
  from Cons [of "CHR '' ''" "b @ [sep] @ v"] show ?case by simp
qed

lemma set_list_loop_blank: "vs \<noteq> [] \<Longrightarrow> set_list_loop (CHR '' '') v vs = v @ CHR '' '' # join_words vs"
proof (induction vs arbitrary: v)
  case Nil
  then show ?case by simp
next
  case (Cons w ws)
  show ?case
  proof (cases ws)
    case Nil
    then show ?thesis by simp
  next
    case (Cons w' ws')
    then have "set_list_loop (CHR '' '') w ws = w @ CHR '' '' # join_words ws"
      using Cons.IH by simp
    moreover have "set_list_loop (CHR '' '') ((v @ [CHR '' '']) @ w) ws
        = (v @ [CHR '' '']) @ set_list_loop (CHR '' '') w ws"
      by (rule set_list_loop_shift)
    ultimately show ?thesis using Cons by simp
  qed
qed

lemma set_list_loop_join:
  assumes "vs \<noteq> []"
  shows "set_list_loop sep var vs = var @ [sep] @ join_words vs"
proof (cases vs)
  case Nil
  with assms show ?thesis by simp
next
  case (Cons v ws)
  have *: "set_list_loop (CHR '' '') (var @ [sep] @ v) ws
      = (var @ [sep]) @ set_list_loop (CHR '' '') v ws"
    using set_list_loop_shift [of "CHR '' ''" "var @ [sep]" v ws] by simp
  with Cons show ?thesis
    by (cases "ws = []") (auto simp add: set_list_loop_blank neq_Nil_conv)
qed

text \<open>\<open>set_list\<close> with at least one value is \<open>set\<close> with the values joined by blanks.\<close>

lemma env_set_list_join: "vs \<noteq> [] \<Longrightarrow> env_set_list es var vs = env_set es var (join_words vs)"
  by (simp add: env_set_list_def env_set_def set_list_loop_join)

lemma getenv_append:
  "getenv (env_get (es @ fs)) var =
     (case getenv (env_get es) var of Some v \<Rightarrow> Some v | None \<Rightarrow> getenv (env_get fs) var)"
  by (induction es) (auto simp add: env_get_def split: option.splits)

lemma getenv_one:
  assumes "CHR ''='' \<notin> set var" and "CHR 0x00 \<notin> set var" and "CHR ''='' \<notin> set n"
    and "CHR 0x00 \<notin> set n"
  shows "getenv (env_get (env_set [] n v)) var = (if n = var then Some (c_str v) else None)"
proof -
  have c: "c_str (n @ CHR ''='' # v) = n @ CHR ''='' # c_str v"
    using c_str_append [of "n @ [CHR ''='']" v] assms by simp
  show ?thesis
  proof (cases "n = var")
    case True
    with c show ?thesis
      using strip_prefix_iff [of "var @ [CHR ''='']" "n @ CHR ''='' # c_str v" "c_str v"]
      by (simp add: env_get_def env_set_def)
  next
    case False
    have "strip_prefix (var @ [CHR ''='']) (n @ CHR ''='' # c_str v) = None"
    proof (rule ccontr)
      assume "\<not> ?thesis"
      then obtain r where "n @ CHR ''='' # c_str v = (var @ [CHR ''='']) @ r"
        by (auto simp add: strip_prefix_iff)
      then have "takeWhile (\<lambda>c. c \<noteq> CHR ''='') (n @ CHR ''='' # c_str v)
          = takeWhile (\<lambda>c. c \<noteq> CHR ''='') (var @ CHR ''='' # r)"
        by simp
      moreover have "\<forall>x\<in>set n. x \<noteq> CHR ''=''" and "\<forall>x\<in>set var. x \<noteq> CHR ''=''"
        using assms by auto
      ultimately have "n = var"
        by (simp add: takeWhile_append_stop)
      with False show False by simp
    qed
    with False c show ?thesis by (simp add: env_get_def env_set_def)
  qed
qed

text \<open>
  Setting a variable that is not in the block yet makes it readable, and leaves every other
  variable as it was; the first setting of a variable wins.
\<close>

lemma getenv_env_set:
  assumes "CHR ''='' \<notin> set var" and "CHR 0x00 \<notin> set var" and "CHR ''='' \<notin> set n"
    and "CHR 0x00 \<notin> set n"
  shows "getenv (env_get (env_set es n v)) var =
    (case getenv (env_get es) var of
       Some w \<Rightarrow> Some w
     | None \<Rightarrow> if n = var then Some (c_str v) else None)"
proof -
  have "env_set es n v = es @ env_set [] n v" by (simp add: env_set_def)
  then show ?thesis
    using getenv_one [OF assms, of v] by (cases "n = var") (simp_all add: getenv_append split: option.split)
qed

end
