(* ===== verification/User_Group.thy ===== *)
theory User_Group
  imports GH_Prelude
begin

text \<open>
  \<open>user_group\<close> of \<open>src/user_group.h\<close> and \<open>src/user_group.cpp\<close>: the identity a command runs as. The
  user and group databases and the system calls that change the credentials of a process are
  parameters; the lemmas state which identity the constructors give and what a process that
  returns from \<open>impersonate\<close> has become, under the documented effect of the three calls.
\<close>

section \<open>The identity\<close>

type_synonym uid_t = "32 word"

text \<open>\<open>Invalid\<close> is \<open>UINT_MAX\<close>.\<close>

definition invalid_id :: uid_t where
  "invalid_id = - 1"

record user_group =
  mUid :: uid_t
  mGid :: uid_t

definition null_user_group :: user_group where
  "null_user_group = \<lparr>mUid = invalid_id, mGid = invalid_id\<rparr>"

definition user_group_bool :: "user_group \<Rightarrow> bool" where
  "user_group_bool g \<longleftrightarrow> mUid g \<noteq> invalid_id \<and> mGid g \<noteq> invalid_id"

text \<open>Entries of the user database, and the lookups of \<open>pwd.h\<close> and \<open>grp.h\<close>.\<close>

record passwd =
  pw_name :: string
  pw_uid :: uid_t
  pw_gid :: uid_t

record user_db =
  getpwnam :: "string \<Rightarrow> passwd option"
  getpwuid :: "uid_t \<Rightarrow> passwd option"
  getgrnam :: "string \<Rightarrow> uid_t option"

definition user_group_of_user :: "user_db \<Rightarrow> string \<Rightarrow> user_group res" where
  "user_group_of_user db userName =
     (case getpwnam db userName of
        Some info \<Rightarrow> Val \<lparr>mUid = pw_uid info, mGid = pw_gid info\<rparr>
      | None \<Rightarrow> Throw (System_error (''failed to find user '' @ userName)))"

definition user_group_of_names :: "user_db \<Rightarrow> string \<Rightarrow> string \<Rightarrow> user_group res" where
  "user_group_of_names db userName groupName =
     (case getpwnam db userName of
        None \<Rightarrow> Throw (System_error (''failed to read information for user '' @ userName))
      | Some info \<Rightarrow>
          (case getgrnam db groupName of
             None \<Rightarrow> Throw (System_error (''failed to read information for group '' @ groupName))
           | Some gid \<Rightarrow> Val \<lparr>mUid = pw_uid info, mGid = gid\<rparr>))"

section \<open>impersonate\<close>

text \<open>
  The credentials \<open>'c\<close> of a process and the calls that change them; \<open>None\<close> is the return value -1.
\<close>

record 'c cred_calls =
  initgroups :: "string \<Rightarrow> uid_t \<Rightarrow> 'c \<Rightarrow> 'c option"
  setgid :: "uid_t \<Rightarrow> 'c \<Rightarrow> 'c option"
  setuid :: "uid_t \<Rightarrow> 'c \<Rightarrow> 'c option"

definition sys_call :: "string \<Rightarrow> 'c option \<Rightarrow> 'c res" where
  "sys_call what r = (case r of None \<Rightarrow> Throw (System_error what) | Some c \<Rightarrow> Val c)"

text \<open>
  The credentials reached by a run that fails half-way are dropped with the exception: the one
  caller, the child branch of \<open>process::start\<close>, then ends the process.
\<close>

definition impersonate :: "bool \<Rightarrow> user_db \<Rightarrow> 'c cred_calls \<Rightarrow> user_group \<Rightarrow> 'c \<Rightarrow> 'c res" where
  "impersonate ndebug db sys g c =
     bnd (cassert ndebug (user_group_bool g)) (\<lambda>_.
     case getpwuid db (mUid g) of
       None \<Rightarrow> Throw (System_error ''failed to read user information'')
     | Some info \<Rightarrow>
         bnd (sys_call ''failed to set additional process groups''
                (initgroups sys (pw_name info) (pw_gid info) c)) (\<lambda>c.
         bnd (sys_call ''failed to set process group id'' (setgid sys (mGid g) c)) (\<lambda>c.
         sys_call ''failed to set process user id'' (setuid sys (mUid g) c))))"

lemma sys_call_Val_iff [res_simps]: "sys_call what r = Val c \<longleftrightarrow> r = Some c"
  by (simp add: sys_call_def split: option.splits)

lemma null_user_group_bool [simp]: "\<not> user_group_bool null_user_group"
  by (simp add: user_group_bool_def null_user_group_def)

lemma impersonate_Val:
  assumes "impersonate nd db sys g c = Val c'"
  shows "\<exists>info c1 c2. getpwuid db (mUid g) = Some info
           \<and> initgroups sys (pw_name info) (pw_gid info) c = Some c1
           \<and> setgid sys (mGid g) c1 = Some c2 \<and> setuid sys (mUid g) c2 = Some c'"
  using assms by (auto simp add: impersonate_def res_simps split: option.splits)

section \<open>What the three calls promise\<close>

text \<open>
  The documented effect of the credential calls on the user id and the group id of the calling
  process: a successful \<open>setuid\<close> sets the user id and leaves the group id, a successful \<open>setgid\<close>
  sets the group id and leaves the user id, \<open>initgroups\<close> changes neither.
\<close>

definition credential_contract ::
  "'c cred_calls \<Rightarrow> ('c \<Rightarrow> uid_t) \<Rightarrow> ('c \<Rightarrow> uid_t) \<Rightarrow> bool" where
  "credential_contract sys uid_of gid_of \<longleftrightarrow>
     (\<forall>u c c'. setuid sys u c = Some c' \<longrightarrow> uid_of c' = u \<and> gid_of c' = gid_of c)
   \<and> (\<forall>g c c'. setgid sys g c = Some c' \<longrightarrow> gid_of c' = g \<and> uid_of c' = uid_of c)
   \<and> (\<forall>n g c c'. initgroups sys n g c = Some c' \<longrightarrow> uid_of c' = uid_of c \<and> gid_of c' = gid_of c)"

lemma impersonate_sets_identity:
  assumes "credential_contract sys uid_of gid_of" and "impersonate nd db sys g c = Val c'"
  shows "uid_of c' = mUid g \<and> gid_of c' = mGid g"
proof -
  from impersonate_Val [OF assms(2)] obtain info c1 c2
    where "getpwuid db (mUid g) = Some info" "initgroups sys (pw_name info) (pw_gid info) c = Some c1"
      "setgid sys (mGid g) c1 = Some c2" "setuid sys (mUid g) c2 = Some c'" by blast
  with assms(1) show ?thesis
    unfolding credential_contract_def by metis
qed

text \<open>
  A simple instance of the calls: a process may set any identity when its user id is 0, and only the
  identity it has otherwise.
\<close>

record creds =
  c_uid :: uid_t
  c_gid :: uid_t
  c_groups :: "uid_t list"

definition simple_calls :: "creds cred_calls" where
  "simple_calls =
     \<lparr>initgroups = (\<lambda>n g c. if c_uid c = 0 then Some (c\<lparr>c_groups := [g]\<rparr>) else None),
      setgid = (\<lambda>g c. if c_uid c = 0 \<or> g = c_gid c then Some (c\<lparr>c_gid := g\<rparr>) else None),
      setuid = (\<lambda>u c. if c_uid c = 0 \<or> u = c_uid c then Some (c\<lparr>c_uid := u\<rparr>) else None)\<rparr>"

lemma simple_calls_contract: "credential_contract simple_calls c_uid c_gid"
  by (auto simp: credential_contract_def simple_calls_def split: if_splits)

end
