(* ===== verification/Child_Process.thy ===== *)
theory Child_Process
  imports Environment_Block User_Group
begin

text \<open>
  \<open>class process\<close> and the intrusive list \<open>process::list\<close> of \<open>src/process.cpp\<close>: child processes as
  objects on a heap, linked through their \<open>next\<close> field from the static list's head. Every loop over
  the list is a loop over pointers, with a null or freed pointer reported as undefined behaviour.
  The lemmas relate the pointer structure to the list of addresses it holds.
\<close>

section \<open>The heap of process::impl objects\<close>

type_synonym addr = nat

datatype signal = SIGTERM | SIGKILL

text \<open>
  \<open>process::impl\<close>; \<open>'h\<close> is the type of handlers, \<open>None\<close> the empty \<open>std::function\<close>. \<open>p_pid\<close> is -1 while
  no child is running.
\<close>

record 'h impl =
  p_program :: string
  p_args :: "string list"
  p_env :: environment
  p_user :: user_group
  p_handler :: "'h option"
  p_next :: "addr option"
  p_pid :: int

text \<open>
  The heap, the next unused address, the head \<open>mProcesses\<close> of the process list, and the calls
  \<open>::kill(pid, sig)\<close> the program has made, oldest first.
\<close>

record 'h procs =
  mem :: "addr \<rightharpoonup> 'h impl"
  brk :: addr
  mProcesses :: "addr option"
  kills :: "(int \<times> signal) list"

definition deref :: "'h procs \<Rightarrow> addr \<Rightarrow> 'h impl res" where
  "deref s a = (case mem s a of None \<Rightarrow> Abort Undefined_behaviour | Some p \<Rightarrow> Val p)"

definition store :: "'h procs \<Rightarrow> addr \<Rightarrow> 'h impl \<Rightarrow> 'h procs" where
  "store s a p = s\<lparr>mem := (mem s)(a \<mapsto> p)\<rparr>"

text \<open>\<open>new impl{context}\<close>, and the four setters on the object.\<close>

definition fresh_impl :: "'h impl" where
  "fresh_impl = \<lparr>p_program = [], p_args = [], p_env = [], p_user = null_user_group,
                 p_handler = None, p_next = None, p_pid = - 1\<rparr>"

definition new_process :: "'h procs \<Rightarrow> addr \<times> 'h procs" where
  "new_process s = (brk s, s\<lparr>mem := (mem s)(brk s \<mapsto> fresh_impl), brk := Suc (brk s)\<rparr>)"

definition set_program :: "'h procs \<Rightarrow> addr \<Rightarrow> string \<Rightarrow> 'h procs res" where
  "set_program s a program = bnd (deref s a) (\<lambda>p. Val (store s a (p\<lparr>p_program := program\<rparr>)))"

definition set_arguments :: "'h procs \<Rightarrow> addr \<Rightarrow> string list \<Rightarrow> 'h procs res" where
  "set_arguments s a arguments = bnd (deref s a) (\<lambda>p. Val (store s a (p\<lparr>p_args := arguments\<rparr>)))"

definition set_environment :: "'h procs \<Rightarrow> addr \<Rightarrow> environment \<Rightarrow> 'h procs res" where
  "set_environment s a env = bnd (deref s a) (\<lambda>p. Val (store s a (p\<lparr>p_env := env\<rparr>)))"

definition set_user_group :: "'h procs \<Rightarrow> addr \<Rightarrow> user_group \<Rightarrow> 'h procs res" where
  "set_user_group s a g = bnd (deref s a) (\<lambda>p. Val (store s a (p\<lparr>p_user := g\<rparr>)))"

section \<open>process::list\<close>

text \<open>
  The loops keep a pointer \<open>iter\<close> to the pointer under inspection: the list head, or the \<open>next\<close> field
  of an object.
\<close>

datatype link = Head | Next_of addr

definition read_link :: "'h procs \<Rightarrow> link \<Rightarrow> addr option res" where
  "read_link s l = (case l of Head \<Rightarrow> Val (mProcesses s) | Next_of a \<Rightarrow> bnd (deref s a) (\<lambda>p. Val (p_next p)))"

definition write_link :: "'h procs \<Rightarrow> link \<Rightarrow> addr option \<Rightarrow> 'h procs res" where
  "write_link s l v =
     (case l of
        Head \<Rightarrow> Val (s\<lparr>mProcesses := v\<rparr>)
      | Next_of a \<Rightarrow> bnd (deref s a) (\<lambda>p. Val (store s a (p\<lparr>p_next := v\<rparr>))))"

definition list_add :: "'h procs \<Rightarrow> addr \<Rightarrow> 'h procs res" where
  "list_add s a =
     bnd (deref s a) (\<lambda>p.
     Val ((store s a (p\<lparr>p_next := mProcesses s\<rparr>))\<lparr>mProcesses := Some a\<rparr>))"

partial_function (option) remove_loop :: "bool \<Rightarrow> 'h procs \<Rightarrow> addr \<Rightarrow> link \<Rightarrow> 'h procs res option" where
  "remove_loop ndebug s a iter =
     (case read_link s iter of
        Throw e \<Rightarrow> Some (Throw e)
      | Abort f \<Rightarrow> Some (Abort f)
      | Val cur \<Rightarrow>
          if \<not> ndebug \<and> cur = None then Some (Abort Assertion)
          else if cur = Some a
          then Some (bnd (deref s a) (\<lambda>p. write_link s iter (p_next p)))
          else (case cur of
                  None \<Rightarrow> Some (Abort Undefined_behaviour)
                | Some c \<Rightarrow> remove_loop ndebug s a (Next_of c)))"

declare remove_loop.simps [code]

definition list_remove :: "bool \<Rightarrow> 'h procs \<Rightarrow> addr \<Rightarrow> 'h procs res" where
  "list_remove ndebug s a = returned (remove_loop ndebug s a Head)"

text \<open>
  The inner loop of \<open>onSigchld\<close>: the link that points to the process with the child's pid, and that
  process; \<open>None\<close> when the end of the list is reached.
\<close>

partial_function (option) find_loop :: "'h procs \<Rightarrow> int \<Rightarrow> link \<Rightarrow> (link \<times> addr) option res option" where
  "find_loop s si_pid iter =
     (case read_link s iter of
        Throw e \<Rightarrow> Some (Throw e)
      | Abort f \<Rightarrow> Some (Abort f)
      | Val None \<Rightarrow> Some (Val None)
      | Val (Some proc) \<Rightarrow>
          (case mem s proc of
             None \<Rightarrow> Some (Abort Undefined_behaviour)
           | Some p \<Rightarrow>
               if p_pid p \<noteq> si_pid then find_loop s si_pid (Next_of proc)
               else Some (Val (Some (iter, proc)))))"

declare find_loop.simps [code]

definition find_process :: "'h procs \<Rightarrow> int \<Rightarrow> (link \<times> addr) option res" where
  "find_process s si_pid = returned (find_loop s si_pid Head)"

section \<open>start, terminate, kill and the destructor\<close>

text \<open>
  \<open>start\<close> in the parent, with the result of \<open>fork\<close> (not 0): the handler and the pid are stored, the
  object is put at the front of the list.
\<close>

definition start_parent :: "'h procs \<Rightarrow> addr \<Rightarrow> 'h \<Rightarrow> int \<Rightarrow> 'h procs res" where
  "start_parent s a handler fork_result =
     (if fork_result = - 1 then Throw (System_error ''failed to fork child process'')
      else bnd (deref s a) (\<lambda>p.
           list_add (store s a (p\<lparr>p_handler := Some handler, p_pid := fork_result\<rparr>)) a))"

text \<open>
  \<open>start\<close> in the child (\<open>fork\<close> returned 0): the program is executed, or the process exits with -1
  because an exception was caught. \<open>exec_ok\<close> says whether \<open>execve\<close> succeeds, that is, does not return.
\<close>

datatype 'c child_end =
    Execve string "string option list" "string option list" 'c
  | Exits int
  | Dies fault

definition argv_of :: "'h impl \<Rightarrow> string option list" where
  "argv_of p = map (\<lambda>w. Some (c_str w)) (p_program p # p_args p) @ [None]"

definition start_child ::
  "bool \<Rightarrow> user_db \<Rightarrow> 'c cred_calls \<Rightarrow> (string \<Rightarrow> bool) \<Rightarrow> 'h impl \<Rightarrow> 'c \<Rightarrow> 'c child_end" where
  "start_child ndebug db sys exec_ok p c =
     (case (if user_group_bool (p_user p) then impersonate ndebug db sys (p_user p) c else Val c) of
        Throw e \<Rightarrow> Exits (- 1)
      | Abort f \<Rightarrow> Dies f
      | Val c' \<Rightarrow>
          if exec_ok (c_str (p_program p))
          then Execve (c_str (p_program p)) (argv_of p) (env_get (p_env p)) c'
          else Exits (- 1))"

definition send_signal :: "'h procs \<Rightarrow> int \<Rightarrow> signal \<Rightarrow> 'h procs" where
  "send_signal s pid sig = s\<lparr>kills := kills s @ [(pid, sig)]\<rparr>"

text \<open>A failing \<open>::kill\<close> is only logged, so its result is not an input.\<close>

definition terminate :: "bool \<Rightarrow> 'h procs \<Rightarrow> addr \<Rightarrow> 'h procs res" where
  "terminate ndebug s a =
     bnd (deref s a) (\<lambda>p.
     bnd (cassert ndebug (p_pid p \<noteq> - 1)) (\<lambda>_.
     Val (send_signal s (p_pid p) SIGTERM)))"

definition kill_process :: "bool \<Rightarrow> 'h procs \<Rightarrow> addr \<Rightarrow> 'h procs res" where
  "kill_process ndebug s a =
     bnd (deref s a) (\<lambda>p.
     bnd (cassert ndebug (p_pid p \<noteq> - 1)) (\<lambda>_.
     list_remove ndebug
       (store (send_signal s (p_pid p) SIGKILL) a (p\<lparr>p_pid := - 1, p_handler := None\<rparr>)) a))"

text \<open>
  The wait loop of \<open>~impl\<close> for \<open>i = 0..5\<close>: \<open>reaped i\<close> says that the \<open>i\<close>-th \<open>waitid\<close> call returned the
  child. The result is the list of signals sent inside the loop.
\<close>

fun dtor_loop :: "(nat \<Rightarrow> bool) \<Rightarrow> int \<Rightarrow> nat list \<Rightarrow> (int \<times> signal) list" where
  "dtor_loop reaped pid [] = []"
| "dtor_loop reaped pid (i # is) =
     (if reaped i then []
      else (if i = 4 then [(pid, SIGKILL)] else []) @ dtor_loop reaped pid is)"

text \<open>
  Destruction of the owned object: \<open>~impl\<close>, then the memory is freed. The process list is not touched.
\<close>

definition delete_process :: "(nat \<Rightarrow> bool) \<Rightarrow> 'h procs \<Rightarrow> addr \<Rightarrow> 'h procs res" where
  "delete_process reaped s a =
     bnd (deref s a) (\<lambda>p.
     let s' = (if p_pid p = - 1 then s
               else s\<lparr>kills := kills s @ (p_pid p, SIGTERM) # dtor_loop reaped (p_pid p) [0..<6]\<rparr>)
     in Val (s'\<lparr>mem := (mem s')(a := None)\<rparr>))"

section \<open>onSigchld\<close>

text \<open>
  One answer of \<open>waitid(P_ALL, 0, &sigInfo, WEXITED|WNOHANG)\<close>: whether it returned -1 with an
  \<open>errno\<close> other than \<open>ECHILD\<close>, and what \<open>sigInfo\<close> then holds (\<open>si_pid\<close> 0: no child to reap).
\<close>

datatype child_code = CLD_EXITED | CLD_KILLED | CLD_DUMPED | CLD_other

record wait_answer =
  wait_failed :: bool
  si_pid :: int
  si_code :: child_code
  si_status :: int

text \<open>
  \<open>std::error_code\<close>: no error, or \<open>make_process_killed_error(signo)\<close>; as a condition it is true when its
  value is not 0.
\<close>

datatype error_code = No_error | Killed_by int

fun error_bool :: "error_code \<Rightarrow> bool" where
  "error_bool No_error = False"
| "error_bool (Killed_by signo) = (signo \<noteq> 0)"

text \<open>The \<open>switch\<close> on \<open>si_code\<close>.\<close>

definition exit_result :: "bool \<Rightarrow> wait_answer \<Rightarrow> (error_code \<times> int) res" where
  "exit_result ndebug w =
     (case si_code w of
        CLD_EXITED \<Rightarrow> Val (No_error, si_status w)
      | CLD_KILLED \<Rightarrow> Val (Killed_by (si_status w), 0)
      | CLD_DUMPED \<Rightarrow> Val (Killed_by (si_status w), 0)
      | CLD_other \<Rightarrow> bnd (cassert ndebug False) (\<lambda>_. Abort (Exit_process (- 3))))"

text \<open>
  One round for a child that was found: the object leaves the list, its pid is cleared, its handler
  is moved out. The result is the handler to call (\<open>None\<close> when it was empty).
\<close>

definition unlink_process :: "'h procs \<Rightarrow> link \<Rightarrow> addr \<Rightarrow> ('h option \<times> 'h procs) res" where
  "unlink_process s iter a =
     bnd (deref s a) (\<lambda>p.
     bnd (write_link s iter (p_next p)) (\<lambda>s'.
     bnd (deref s' a) (\<lambda>p'.
     Val (p_handler p', store s' a (p'\<lparr>p_pid := - 1, p_handler := None\<rparr>)))))"

text \<open>
  The loop of \<open>onSigchld\<close> over the answers of \<open>waitid\<close>, in the state \<open>'s\<close> of the whole program:
  \<open>get\<close> and \<open>put\<close> select the process part and \<open>call\<close> runs a handler. An empty handler throws
  \<open>std::bad_function_call\<close> inside a \<open>noexcept\<close> function. The result holds the answers that were not
  asked for: the loop ends with \<open>si_pid\<close> = 0, which is also what \<open>waitid\<close> answers when the given answers
  are used up.
\<close>

fun sigchld_loop ::
  "bool \<Rightarrow> ('s \<Rightarrow> 'h procs) \<Rightarrow> ('h procs \<Rightarrow> 's \<Rightarrow> 's) \<Rightarrow> ('h \<Rightarrow> error_code \<Rightarrow> int \<Rightarrow> 's \<Rightarrow> 's res)
     \<Rightarrow> wait_answer list \<Rightarrow> 's \<Rightarrow> ('s \<times> wait_answer list) res" where
  "sigchld_loop ndebug get put call [] s = Val (s, [])"
| "sigchld_loop ndebug get put call (w # ws) s =
     (if wait_failed w then Abort (Exit_process (- 1))
      else if si_pid w = 0 then Val (s, ws)
      else bnd (find_process (get s) (si_pid w)) (\<lambda>found.
           case found of
             None \<Rightarrow> sigchld_loop ndebug get put call ws s
           | Some (iter, a) \<Rightarrow>
               bnd (exit_result ndebug w) (\<lambda>(error, exitCode).
               bnd (unlink_process (get s) iter a) (\<lambda>(handler, ps).
               bnd (case handler of
                      None \<Rightarrow> Abort Std_terminate
                    | Some h \<Rightarrow> noexcept (call h error exitCode (put ps s))) (\<lambda>s'.
               sigchld_loop ndebug get put call ws s')))))"

definition on_sigchld ::
  "bool \<Rightarrow> ('s \<Rightarrow> 'h procs) \<Rightarrow> ('h procs \<Rightarrow> 's \<Rightarrow> 's) \<Rightarrow> ('h \<Rightarrow> error_code \<Rightarrow> int \<Rightarrow> 's \<Rightarrow> 's res)
     \<Rightarrow> wait_answer list \<Rightarrow> 's \<Rightarrow> 's res" where
  "on_sigchld ndebug get put call ws s = bnd (sigchld_loop ndebug get put call ws s) (\<lambda>(t, rest). Val t)"

lemma on_sigchld_simps [simp]:
  "on_sigchld ndebug get put call [] s = Val s"
  "on_sigchld ndebug get put call (w # ws) s =
     (if wait_failed w then Abort (Exit_process (- 1))
      else if si_pid w = 0 then Val s
      else bnd (find_process (get s) (si_pid w)) (\<lambda>found.
           case found of
             None \<Rightarrow> on_sigchld ndebug get put call ws s
           | Some (iter, a) \<Rightarrow>
               bnd (exit_result ndebug w) (\<lambda>(error, exitCode).
               bnd (unlink_process (get s) iter a) (\<lambda>(handler, ps).
               bnd (case handler of
                      None \<Rightarrow> Abort Std_terminate
                    | Some h \<Rightarrow> noexcept (call h error exitCode (put ps s))) (\<lambda>s'.
               on_sigchld ndebug get put call ws s')))))"
  by (simp_all add: on_sigchld_def)
    (cases "find_process (get s) (si_pid w)"; auto simp add: on_sigchld_def [abs_def] bnd_assoc case_prod_unfold split: option.split)

text \<open>When every answer is about a child, the loop asks for all of them.\<close>

lemma sigchld_loop_rest:
  assumes "sigchld_loop ndebug get put call ws s = Val (t, rest)" and "\<forall>x\<in>set ws. si_pid x \<noteq> 0"
  shows "rest = []"
  using assms
proof (induction ws arbitrary: s)
  case (Cons x ws)
  from Cons.prems obtain found where f: "find_process (get s) (si_pid x) = Val found" "si_pid x \<noteq> 0" "\<not> wait_failed x"
    by (auto simp add: bnd_Val_iff split: if_splits)
  show ?case
  proof (cases found)
    case None
    with f Cons show ?thesis by simp
  next
    case (Some la)
    with f Cons.prems obtain s' where "sigchld_loop ndebug get put call ws s' = Val (t, rest)"
      by (cases la) (auto simp add: bnd_Val_iff)
    with Cons show ?thesis by simp
  qed
qed simp

end
