(* ===== verification/Process_List.thy ===== *)
theory Process_List
  imports Child_Process
begin

text \<open>
  The pointer structure of \<open>process::list\<close> and the list of addresses it stands for: \<open>plist\<close> reads the
  chain from the head, and each operation on pointers is shown to be the matching operation on the
  list. The contract is the locale \<open>child_registry\<close>, whose lemmas hold for any registry with these
  laws; the last section proves the laws for the pointer code.
\<close>

section \<open>Chains of next pointers\<close>

fun seg :: "(addr \<rightharpoonup> 'h impl) \<Rightarrow> addr option \<Rightarrow> addr list \<Rightarrow> addr option \<Rightarrow> bool" where
  "seg m p [] q \<longleftrightarrow> p = q"
| "seg m p (a # as) q \<longleftrightarrow> p = Some a \<and> (\<exists>x. m a = Some x \<and> seg m (p_next x) as q)"

definition plist :: "'h procs \<Rightarrow> addr list \<Rightarrow> bool" where
  "plist s xs \<longleftrightarrow> seg (mem s) (mProcesses s) xs None"

lemma seg_append: "seg m p (xs @ ys) q \<longleftrightarrow> (\<exists>r. seg m p xs r \<and> seg m r ys q)"
  by (induction xs arbitrary: p) auto

lemma seg_functional: "seg m p xs None \<Longrightarrow> seg m p ys None \<Longrightarrow> xs = ys"
proof (induction xs arbitrary: p ys)
  case Nil
  then show ?case by (cases ys) auto
next
  case (Cons a xs)
  then show ?case by (cases ys) auto
qed

lemma seg_distinct: "seg m p xs None \<Longrightarrow> distinct xs"
proof (induction xs arbitrary: p)
  case Nil
  then show ?case by simp
next
  case (Cons a xs)
  then obtain x where x: "m a = Some x" "seg m (p_next x) xs None" by auto
  have "a \<notin> set xs"
  proof
    assume "a \<in> set xs"
    then obtain ys zs where xs: "xs = ys @ a # zs" by (meson split_list)
    with x have "seg m (p_next x) zs None" by (auto simp add: seg_append)
    with x(2) have "xs = zs" by (rule seg_functional)
    with xs show False by simp
  qed
  with Cons.IH x(2) show ?case by simp
qed

lemma seg_live: "seg m p xs q \<Longrightarrow> a \<in> set xs \<Longrightarrow> \<exists>x. m a = Some x"
  by (induction xs arbitrary: p) auto

lemma seg_update_other: "a \<notin> set xs \<Longrightarrow> seg (m(a := v)) p xs q = seg m p xs q"
  by (induction xs arbitrary: p) auto

text \<open>Only the \<open>next\<close> fields matter to a chain.\<close>

lemma seg_same_next:
  "m a = Some x \<Longrightarrow> p_next y = p_next x \<Longrightarrow> seg (m(a \<mapsto> y)) p xs q = seg m p xs q"
  by (induction xs arbitrary: p) auto

definition same_but_next :: "'h procs \<Rightarrow> 'h procs \<Rightarrow> bool" where
  "same_but_next s s' \<longleftrightarrow> brk s' = brk s \<and> kills s' = kills s \<and>
     (\<forall>a. map_option (\<lambda>p. p\<lparr>p_next := None\<rparr>) (mem s' a) = map_option (\<lambda>p. p\<lparr>p_next := None\<rparr>) (mem s a))"

definition live :: "'h procs \<Rightarrow> addr \<Rightarrow> bool" where
  "live s a \<longleftrightarrow> mem s a \<noteq> None"

definition pid_at :: "'h procs \<Rightarrow> addr \<Rightarrow> int" where
  "pid_at s a = (case mem s a of None \<Rightarrow> - 1 | Some p \<Rightarrow> p_pid p)"

lemma same_but_next_refl [simp]: "same_but_next s s"
  by (simp add: same_but_next_def)

lemma same_but_next_pid: "same_but_next s s' \<Longrightarrow> pid_at s' a = pid_at s a"
proof -
  assume "same_but_next s s'"
  then have "map_option (\<lambda>p. p\<lparr>p_next := None\<rparr>) (mem s' a) = map_option (\<lambda>p. p\<lparr>p_next := None\<rparr>) (mem s a)"
    by (simp add: same_but_next_def)
  then have "map_option p_pid (map_option (\<lambda>p. p\<lparr>p_next := None\<rparr>) (mem s' a))
      = map_option p_pid (map_option (\<lambda>p. p\<lparr>p_next := None\<rparr>) (mem s a))" by simp
  then have "map_option p_pid (mem s' a) = map_option p_pid (mem s a)"
    by (simp add: option.map_comp comp_def)
  then show ?thesis
    by (cases "mem s' a"; cases "mem s a") (auto simp add: pid_at_def)
qed

lemma same_but_next_live: "same_but_next s s' \<Longrightarrow> live s' a \<longleftrightarrow> live s a"
proof -
  assume "same_but_next s s'"
  then have "map_option (\<lambda>p. p\<lparr>p_next := None\<rparr>) (mem s' a) = map_option (\<lambda>p. p\<lparr>p_next := None\<rparr>) (mem s a)"
    by (simp add: same_but_next_def)
  then show ?thesis
    by (metis live_def option.map_disc_iff)
qed

lemma write_next_same:
  "mem s a = Some p \<Longrightarrow> same_but_next s (store s a (p\<lparr>p_next := v\<rparr>))"
  by (auto simp add: same_but_next_def store_def)

section \<open>The operations on chains\<close>

lemma list_add_plist:
  assumes "plist s xs" and "mem s a = Some p" and "a \<notin> set xs"
  shows "\<exists>s'. list_add s a = Val s' \<and> plist s' (a # xs) \<and> same_but_next s s'"
  using assms
  by (auto simp add: list_add_def deref_def plist_def store_def seg_update_other same_but_next_def)

definition link_after :: "addr list \<Rightarrow> link" where
  "link_after ys = (if ys = [] then Head else Next_of (last ys))"

lemma link_after_snoc [simp]: "link_after (ys @ [a]) = Next_of a"
  by (simp add: link_after_def)

lemma read_link_after:
  assumes "seg (mem s) (mProcesses s) ys r"
  shows "read_link s (link_after ys) = Val r"
proof (cases ys rule: rev_cases)
  case Nil
  with assms show ?thesis by (simp add: link_after_def read_link_def)
next
  case (snoc zs b)
  with assms show ?thesis by (auto simp add: read_link_def deref_def seg_append)
qed

lemma write_link_after:
  assumes "seg (mem s) (mProcesses s) (ys @ zs) q" and "distinct (ys @ zs)"
    and "seg (mem s) v zs' None" and "set zs' \<inter> set ys = {}"
  shows "\<exists>s'. write_link s (link_after ys) v = Val s' \<and> plist s' (ys @ zs') \<and> same_but_next s s'"
proof (cases ys rule: rev_cases)
  case Nil
  with assms show ?thesis
    by (auto simp add: link_after_def write_link_def plist_def same_but_next_def)
next
  case (snoc ws b)
  with assms(1) obtain x where x: "mem s b = Some x" "seg (mem s) (mProcesses s) ws (Some b)"
    by (auto simp add: seg_append)
  let ?s = "store s b (x\<lparr>p_next := v\<rparr>)"
  from snoc assms(2,4) have "b \<notin> set ws" "b \<notin> set zs'" by auto
  then have "plist ?s (ys @ zs')"
    using snoc x assms(3)
    by (auto simp add: plist_def store_def seg_append seg_update_other)
  with snoc x show ?thesis
    using write_next_same [OF x(1), of v] by (auto simp add: write_link_def deref_def)
qed

lemma remove_loop_plist:
  assumes "plist s (ys @ xs)" and "a \<in> set xs"
  shows "\<exists>s'. remove_loop nd s a (link_after ys) = Some (Val s')
           \<and> plist s' (ys @ remove1 a xs) \<and> same_but_next s s'"
  using assms
proof (induction xs arbitrary: ys)
  case Nil
  then show ?case by simp
next
  case (Cons b xs)
  from Cons.prems(1) obtain x where seg: "seg (mem s) (mProcesses s) ys (Some b)"
    and x: "mem s b = Some x" "seg (mem s) (p_next x) xs None"
    by (auto simp add: plist_def seg_append)
  have d: "distinct (ys @ b # xs)"
    using Cons.prems(1) by (intro seg_distinct) (simp add: plist_def)
  note rl = read_link_after [OF seg]
  show ?case
  proof (cases "b = a")
    case True
    obtain s' where "write_link s (link_after ys) (p_next x) = Val s'" "plist s' (ys @ xs)"
      "same_but_next s s'"
      using write_link_after [of s ys "b # xs" None "p_next x" xs] Cons.prems(1) d x(2)
      by (auto simp add: plist_def)
    with True rl x(1) show ?thesis
      by (simp add: remove_loop.simps [of nd s a] deref_def)
  next
    case False
    with Cons.prems(2) have "a \<in> set xs" by simp
    with Cons.IH [of "ys @ [b]"] Cons.prems(1) False rl show ?thesis
      by (simp add: remove_loop.simps [of nd s a "link_after ys"])
  qed
qed

lemma list_remove_plist:
  assumes "plist s xs" and "a \<in> set xs"
  shows "\<exists>s'. list_remove nd s a = Val s' \<and> plist s' (remove1 a xs) \<and> same_but_next s s'"
  using remove_loop_plist [of s "[]" xs a nd] assms
  by (auto simp add: list_remove_def link_after_def)

text \<open>Removing an address that is not in the list runs into the end: the assertion, or a null pointer.\<close>

lemma remove_loop_absent:
  assumes "plist s (ys @ xs)" and "a \<notin> set xs"
  shows "remove_loop nd s a (link_after ys) = Some (Abort (if nd then Undefined_behaviour else Assertion))"
  using assms
proof (induction xs arbitrary: ys)
  case Nil
  then have "read_link s (link_after ys) = Val None"
    by (intro read_link_after) (simp add: plist_def)
  then show ?case by (simp add: remove_loop.simps [of nd s a])
next
  case (Cons b xs)
  from Cons.prems(1) have "seg (mem s) (mProcesses s) ys (Some b)"
    by (auto simp add: plist_def seg_append)
  then have "read_link s (link_after ys) = Val (Some b)" by (rule read_link_after)
  with Cons.IH [of "ys @ [b]"] Cons.prems show ?case
    by (simp add: remove_loop.simps [of nd s a "link_after ys"])
qed

lemma find_loop_plist:
  assumes "plist s (ys @ xs)"
  shows "find_loop s pid (link_after ys) = Some (Val
     (case find (\<lambda>a. pid_at s a = pid) xs of
        None \<Rightarrow> None
      | Some a \<Rightarrow> Some (link_after (ys @ takeWhile (\<lambda>b. b \<noteq> a) xs), a)))"
  using assms
proof (induction xs arbitrary: ys)
  case Nil
  then have "read_link s (link_after ys) = Val None"
    by (intro read_link_after) (simp add: plist_def)
  then show ?case by (simp add: find_loop.simps [of s pid])
next
  case (Cons b xs)
  from Cons.prems obtain x where "seg (mem s) (mProcesses s) ys (Some b)" and x: "mem s b = Some x"
    by (auto simp add: plist_def seg_append)
  then have rl: "read_link s (link_after ys) = Val (Some b)" by (intro read_link_after)
  show ?case
  proof (cases "pid_at s b = pid")
    case True
    with rl x show ?thesis by (simp add: find_loop.simps [of s pid] pid_at_def)
  next
    case False
    have "b \<noteq> a" if "find (\<lambda>a. pid_at s a = pid) xs = Some a" for a
      using that False by (auto simp add: find_Some_iff)
    with False rl x Cons.IH [of "ys @ [b]"] Cons.prems show ?thesis
      by (auto simp add: find_loop.simps [of s pid "link_after ys"] pid_at_def split: option.splits)
  qed
qed

lemma find_process_plist:
  assumes "plist s xs"
  shows "find_process s pid = Val
     (case find (\<lambda>a. pid_at s a = pid) xs of
        None \<Rightarrow> None
      | Some a \<Rightarrow> Some (link_after (takeWhile (\<lambda>b. b \<noteq> a) xs), a))"
  using find_loop_plist [of s "[]" xs pid] assms by (simp add: find_process_def link_after_def split: option.split)

definition find_addr :: "'h procs \<Rightarrow> int \<Rightarrow> addr option res" where
  "find_addr s pid = bnd (find_process s pid) (\<lambda>f. Val (map_option snd f))"

lemma find_addr_plist: "plist s xs \<Longrightarrow> find_addr s pid = Val (find (\<lambda>a. pid_at s a = pid) xs)"
  by (simp add: find_addr_def find_process_plist split: option.split)

section \<open>The contract of a registry of children\<close>

text \<open>
  What \<open>start\<close>, \<open>kill\<close> and \<open>onSigchld\<close> rely on: adding puts a live object in front, removing takes it
  out wherever it is, the search finds the first entry with the pid; none of them fails on a
  well-formed registry and none changes a pid.
\<close>

locale child_registry =
  fixes repr :: "'s \<Rightarrow> addr list \<Rightarrow> bool"
    and alive :: "'s \<Rightarrow> addr \<Rightarrow> bool"
    and pid_of :: "'s \<Rightarrow> addr \<Rightarrow> int"
    and add :: "'s \<Rightarrow> addr \<Rightarrow> 's res"
    and remove :: "'s \<Rightarrow> addr \<Rightarrow> 's res"
    and find_pid :: "'s \<Rightarrow> int \<Rightarrow> addr option res"
  assumes add_law: "repr s xs \<Longrightarrow> alive s a \<Longrightarrow> a \<notin> set xs \<Longrightarrow>
      \<exists>s'. add s a = Val s' \<and> repr s' (a # xs) \<and> (\<forall>b. alive s' b = alive s b) \<and> (\<forall>b. pid_of s' b = pid_of s b)"
    and remove_law: "repr s xs \<Longrightarrow> a \<in> set xs \<Longrightarrow>
      \<exists>s'. remove s a = Val s' \<and> repr s' (remove1 a xs) \<and> (\<forall>b. alive s' b = alive s b) \<and> (\<forall>b. pid_of s' b = pid_of s b)"
    and find_law: "repr s xs \<Longrightarrow> find_pid s p = Val (find (\<lambda>a. pid_of s a = p) xs)"
    and repr_distinct: "repr s xs \<Longrightarrow> distinct xs"
begin

lemma add_then_remove:
  assumes "repr s xs" and "alive s a" and "a \<notin> set xs"
  shows "\<exists>s'. bnd (add s a) (\<lambda>s. remove s a) = Val s' \<and> repr s' xs"
proof -
  from add_law [OF assms] obtain s1 where s1: "add s a = Val s1" "repr s1 (a # xs)" by blast
  from remove_law [OF s1(2), of a] obtain s2 where "remove s1 a = Val s2" "repr s2 xs" by auto
  with s1(1) show ?thesis by auto
qed

lemma removed_not_found:
  assumes "repr s xs" and "a \<in> set xs" and "remove s a = Val s'" and "find_pid s' p = Val (Some b)"
  shows "b \<noteq> a \<and> b \<in> set xs \<and> pid_of s b = p"
proof -
  from remove_law [OF assms(1,2)] assms(3) have r: "repr s' (remove1 a xs)"
    and pids: "\<forall>b. pid_of s' b = pid_of s b" by auto
  with assms(4) have "find (\<lambda>a. pid_of s' a = p) (remove1 a xs) = Some b"
    by (simp add: find_law)
  then have "b \<in> set (remove1 a xs)" "pid_of s' b = p"
    by (auto simp add: find_Some_iff)
  with repr_distinct [OF assms(1)] pids show ?thesis by auto
qed

lemma added_found:
  assumes "repr s xs" and "alive s a" and "a \<notin> set xs" and "add s a = Val s'"
  shows "find_pid s' (pid_of s a) = Val (Some a)"
proof -
  from add_law [OF assms(1-3)] assms(4) have "repr s' (a # xs)" "pid_of s' a = pid_of s a" by auto
  then show ?thesis by (simp add: find_law)
qed

end

text \<open>The pointer list provides the contract, in both build modes.\<close>

interpretation pl: child_registry plist live pid_at list_add "list_remove nd" find_addr for nd
proof unfold_locales
  fix s :: "'h procs" and xs a
  assume "plist s xs" "live s a" "a \<notin> set xs"
  then obtain p where "mem s a = Some p" by (auto simp add: live_def)
  from list_add_plist [OF \<open>plist s xs\<close> this \<open>a \<notin> set xs\<close>] show "\<exists>s'. list_add s a = Val s' \<and> plist s' (a # xs)
      \<and> (\<forall>b. live s' b = live s b) \<and> (\<forall>b. pid_at s' b = pid_at s b)"
    by (auto simp add: same_but_next_live same_but_next_pid)
next
  fix s :: "'h procs" and xs a
  assume "plist s xs" "a \<in> set xs"
  from list_remove_plist [OF this, of nd] show "\<exists>s'. list_remove nd s a = Val s' \<and> plist s' (remove1 a xs)
      \<and> (\<forall>b. live s' b = live s b) \<and> (\<forall>b. pid_at s' b = pid_at s b)"
    by (auto simp add: same_but_next_live same_but_next_pid)
next
  fix s :: "'h procs" and xs p
  assume "plist s xs"
  then show "find_addr s p = Val (find (\<lambda>a. pid_at s a = p) xs)" by (rule find_addr_plist)
next
  fix s :: "'h procs" and xs
  assume "plist s xs"
  then show "distinct xs" unfolding plist_def by (rule seg_distinct)
qed

end
