(* ===== verification/Action_List.thy ===== *)
theory Action_List
  imports Process_List
begin

text \<open>
  \<open>action_list\<close> of \<open>src/action_list.cpp\<close>: the queue of scheduled hooks, its three libevent events and
  their callbacks, and the completion handler it gives to a started process. The state is the
  singleton \<open>impl\<close> with the process heap of \<^theory_text>\<open>Child_Process\<close>. What the outside world contributes to
  one callback (the result of \<open>fork\<close>, the clock, what a functor throws, the polls of a destructor)
  is an argument.
\<close>

section \<open>State\<close>

text \<open>
  \<open>struct item\<close>; \<open>'f\<close> is the type of functors. A null \<open>process\<close>, an empty \<open>function\<close> and a \<open>timeout\<close>
  the constructor leaves uninitialised are \<open>None\<close>.
\<close>

record 'f item =
  it_name :: string
  it_function :: "'f option"
  it_process :: "addr option"
  it_timeout :: "int option"

text \<open>The one closure stored as a process handler: the lambda of \<open>executeProcess\<close>.\<close>

datatype completion = Completion

text \<open>
  The events: \<open>execEv\<close> is active or not, \<open>timeoutEv\<close> and \<open>killEv\<close> are pending with a number of
  seconds or not pending.
\<close>

record 'f action_state =
  procs :: "completion procs"
  execEv :: bool
  timeoutEv :: "int option"
  killEv :: "int option"
  actions :: "'f item list"
  actionsExecuted :: size_t
  actionsFailed :: size_t
  actionFailTm :: int

definition empty_procs :: "'h procs" where
  "empty_procs = \<lparr>mem = Map.empty, brk = 0, mProcesses = None, kills = []\<rparr>"

definition initial_actions :: "'f action_state" where
  "initial_actions = \<lparr>procs = empty_procs, execEv = False, timeoutEv = None, killEv = None,
     actions = [], actionsExecuted = 0, actionsFailed = 0, actionFailTm = 0\<rparr>"

text \<open>The counters, as the status page reads them.\<close>

definition executedCount :: "'f action_state \<Rightarrow> size_t" where
  "executedCount s = actionsExecuted s"

definition failedCount :: "'f action_state \<Rightarrow> size_t" where
  "failedCount s = actionsFailed s"

definition lastFailure :: "'f action_state \<Rightarrow> int" where
  "lastFailure s = actionFailTm s"

text \<open>What the outside returns while one callback runs.\<close>

record 'f outside =
  fork_result :: int
  thrown_by :: "'f \<Rightarrow> exn option"
  now :: int
  reaped :: "nat \<Rightarrow> bool"

section \<open>append\<close>

definition append_item :: "'f item \<Rightarrow> 'f action_state \<Rightarrow> 'f action_state" where
  "append_item i s =
     (let s = s\<lparr>actions := actions s @ [i]\<rparr>
      in if length (actions s) = 1 then s\<lparr>execEv := True\<rparr> else s)"

definition append_process :: "string \<Rightarrow> addr \<Rightarrow> int \<Rightarrow> 'f action_state \<Rightarrow> 'f action_state" where
  "append_process name process timeout =
     append_item \<lparr>it_name = name, it_function = None, it_process = Some process, it_timeout = Some timeout\<rparr>"

definition append_function :: "string \<Rightarrow> 'f \<Rightarrow> 'f action_state \<Rightarrow> 'f action_state" where
  "append_function name function =
     append_item \<lparr>it_name = name, it_function = Some function, it_process = None, it_timeout = None\<rparr>"

section \<open>The callbacks\<close>

definition add_failure :: "int \<Rightarrow> 'f action_state \<Rightarrow> 'f action_state" where
  "add_failure t s = s\<lparr>actionsFailed := actionsFailed s + 1, actionFailTm := t\<rparr>"

text \<open>\<open>actions.pop_front()\<close> destroys the item, and with it the process object it owns.\<close>

definition pop_front :: "(nat \<Rightarrow> bool) \<Rightarrow> 'f action_state \<Rightarrow> 'f action_state res" where
  "pop_front polls s =
     (case actions s of
        [] \<Rightarrow> Abort Undefined_behaviour
      | action # rest \<Rightarrow>
          (case it_process action of
             None \<Rightarrow> Val (s\<lparr>actions := rest\<rparr>)
           | Some a \<Rightarrow> bnd (delete_process polls (procs s) a) (\<lambda>ps.
               Val (s\<lparr>procs := ps, actions := rest\<rparr>))))"

definition finishExecuteAction :: "(nat \<Rightarrow> bool) \<Rightarrow> 'f action_state \<Rightarrow> 'f action_state res" where
  "finishExecuteAction polls s =
     bnd (pop_front polls s) (\<lambda>s. Val (if actions s \<noteq> [] then s\<lparr>execEv := True\<rparr> else s))"

text \<open>The handler of a finished process: the lambda in \<open>executeProcess\<close>.\<close>

definition run_completion ::
  "'f outside \<Rightarrow> completion \<Rightarrow> error_code \<Rightarrow> int \<Rightarrow> 'f action_state \<Rightarrow> 'f action_state res" where
  "run_completion w h error exitCode s =
     (let s = s\<lparr>timeoutEv := None, killEv := None\<rparr>
      in if actions s = [] then Abort Undefined_behaviour
         else let s = (if error_bool error \<or> exitCode \<noteq> 0 then add_failure (now w) s else s)
              in finishExecuteAction (reaped w) s)"

definition executeProcess :: "'f outside \<Rightarrow> 'f item \<Rightarrow> addr \<Rightarrow> 'f action_state \<Rightarrow> 'f action_state res" where
  "executeProcess w action a s =
     bnd (start_parent (procs s) a Completion (fork_result w)) (\<lambda>ps.
     case it_timeout action of
       None \<Rightarrow> Abort Undefined_behaviour
     | Some t \<Rightarrow> Val (s\<lparr>procs := ps, timeoutEv := Some t\<rparr>))"

definition executeFunction :: "'f outside \<Rightarrow> 'f \<Rightarrow> 'f action_state \<Rightarrow> 'f action_state res" where
  "executeFunction w f s =
     (let s = (case thrown_by w f of None \<Rightarrow> s | Some e \<Rightarrow> add_failure (now w) s)
      in finishExecuteAction (reaped w) s)"

definition executeNextAction :: "bool \<Rightarrow> 'f outside \<Rightarrow> 'f action_state \<Rightarrow> 'f action_state res" where
  "executeNextAction ndebug w s =
     noexcept
       (case actions s of
          [] \<Rightarrow> Abort Undefined_behaviour
        | action # rest \<Rightarrow>
            bnd (case it_process action of
                   Some a \<Rightarrow> executeProcess w action a s
                 | None \<Rightarrow>
                     (case it_function action of
                        Some f \<Rightarrow> executeFunction w f s
                      | None \<Rightarrow> bnd (cassert ndebug False) (\<lambda>_. Val s))) (\<lambda>s.
            Val (s\<lparr>actionsExecuted := actionsExecuted s + 1\<rparr>)))"

text \<open>The process of the first item; a null pointer is dereferenced when it has none.\<close>

definition front_process :: "'f action_state \<Rightarrow> addr res" where
  "front_process s =
     (case actions s of
        [] \<Rightarrow> Abort Undefined_behaviour
      | action # rest \<Rightarrow>
          (case it_process action of None \<Rightarrow> Abort Undefined_behaviour | Some a \<Rightarrow> Val a))"

definition terminateCurrentAction :: "bool \<Rightarrow> 'f action_state \<Rightarrow> 'f action_state res" where
  "terminateCurrentAction ndebug s =
     noexcept
       (bnd (front_process s) (\<lambda>a.
        bnd (terminate ndebug (procs s) a) (\<lambda>ps.
        Val (s\<lparr>procs := ps, killEv := Some 1\<rparr>))))"

definition killCurrentAction :: "bool \<Rightarrow> 'f outside \<Rightarrow> 'f action_state \<Rightarrow> 'f action_state res" where
  "killCurrentAction ndebug w s =
     noexcept
       (bnd (front_process s) (\<lambda>a.
        bnd (kill_process ndebug (procs s) a) (\<lambda>ps.
        bnd (pop_front (reaped w) (s\<lparr>procs := ps\<rparr>)) (\<lambda>s.
        Val (if actions s \<noteq> [] then s\<lparr>execEv := True\<rparr> else s)))))"

text \<open>\<open>process::list::onSigchld\<close> with the completion handler of this list.\<close>

definition childSignal :: "bool \<Rightarrow> 'f outside \<Rightarrow> wait_answer list \<Rightarrow> 'f action_state \<Rightarrow> 'f action_state res" where
  "childSignal ndebug w ws s =
     on_sigchld ndebug procs (\<lambda>ps s. s\<lparr>procs := ps\<rparr>) (run_completion w) ws s"

text \<open>
  The destructor: the items are destroyed in order, each with the process it owns; the events are
  freed. The process list is a static object and stays.
\<close>

fun delete_items :: "(nat \<Rightarrow> bool) \<Rightarrow> 'f item list \<Rightarrow> completion procs \<Rightarrow> completion procs res" where
  "delete_items polls [] ps = Val ps"
| "delete_items polls (i # is) ps =
     bnd (case it_process i of None \<Rightarrow> Val ps | Some a \<Rightarrow> delete_process polls ps a)
         (delete_items polls is)"

definition destroy_actions :: "(nat \<Rightarrow> bool) \<Rightarrow> 'f action_state \<Rightarrow> 'f action_state res" where
  "destroy_actions polls s =
     bnd (delete_items polls (actions s) (procs s)) (\<lambda>ps.
     Val (s\<lparr>procs := ps, actions := [], execEv := False, timeoutEv := None, killEv := None\<rparr>))"

section \<open>Scheduling a command\<close>

text \<open>
  The last part of \<open>hook::execute\<close>: a process object is created, filled in, and handed to \<open>append\<close>.
\<close>

definition schedule_command ::
  "string \<Rightarrow> string \<Rightarrow> string list \<Rightarrow> environment \<Rightarrow> user_group \<Rightarrow> int
     \<Rightarrow> 'f action_state \<Rightarrow> 'f action_state res" where
  "schedule_command name program args env user timeout s =
     (case new_process (procs s) of (a, ps) \<Rightarrow>
        bnd (set_program ps a program) (\<lambda>ps.
        bnd (set_arguments ps a args) (\<lambda>ps.
        bnd (set_environment ps a env) (\<lambda>ps.
        bnd (set_user_group ps a user) (\<lambda>ps.
        Val (append_process name a timeout (s\<lparr>procs := ps\<rparr>)))))))"

lemma schedule_command_eq:
  "schedule_command name program args env user timeout s =
     Val (append_process name (brk (procs s)) timeout
       (s\<lparr>procs := (procs s)
          \<lparr>brk := Suc (brk (procs s)),
           mem := (mem (procs s))(brk (procs s) \<mapsto>
             fresh_impl\<lparr>p_program := program, p_args := args, p_env := env, p_user := user\<rparr>)\<rparr>\<rparr>))"
  by (simp add: schedule_command_def new_process_def set_program_def set_arguments_def
      set_environment_def set_user_group_def deref_def store_def)

end
