(* ===== verification/Action_Loop.thy ===== *)
theory Action_Loop
  imports Action_List
begin

text \<open>
  The action list under the event loop: the callbacks of \<^theory_text>\<open>Action_List\<close> as the steps of a machine whose
  scheduler is libevent and whose other partner is the kernel. A callback runs when its event is
  active or pending, which it then no longer is (the three events are not persistent); the kernel's
  part is the set of forked children that have not been reaped. The theory proves the invariant of
  the reachable states: every step from a state of the invariant succeeds, except for a failing
  \<open>fork\<close>, and leads to one; and it says what each step does to the names of the queued hooks.
\<close>

section \<open>Events and steps\<close>

datatype 'f event =
    Ev_command string string "string list" environment user_group int
  | Ev_function string 'f
  | Ev_exec "'f outside"
  | Ev_timeout
  | Ev_kill "'f outside"
  | Ev_sigchld "'f outside" "wait_answer list"

record 'f loop_state =
  acts :: "'f action_state"
  kids :: "int set"

definition initial_loop :: "'f loop_state" where
  "initial_loop = \<lparr>acts = initial_actions, kids = {}\<rparr>"

text \<open>
  What makes an event possible. \<open>fork\<close> fails or returns a positive pid that is not in use by a child;
  each answer of \<open>waitid\<close> is about a different unreaped child that has exited.
\<close>

fun enabled :: "'f event \<Rightarrow> 'f loop_state \<Rightarrow> bool" where
  "enabled (Ev_command name program args env user timeout) s = True"
| "enabled (Ev_function name f) s = True"
| "enabled (Ev_exec w) s =
     (execEv (acts s) \<and> (fork_result w = - 1 \<or> 0 < fork_result w \<and> fork_result w \<notin> kids s))"
| "enabled Ev_timeout s = (timeoutEv (acts s) \<noteq> None)"
| "enabled (Ev_kill w) s = (killEv (acts s) \<noteq> None)"
| "enabled (Ev_sigchld w ws) s =
     (distinct (map si_pid ws) \<and>
      (\<forall>x\<in>set ws. \<not> wait_failed x \<and> si_code x \<noteq> CLD_other \<and> si_pid x \<in> kids s))"

fun run_event :: "bool \<Rightarrow> 'f event \<Rightarrow> 'f action_state \<Rightarrow> 'f action_state res" where
  "run_event nd (Ev_command name program args env user timeout) s =
     schedule_command name program args env user timeout s"
| "run_event nd (Ev_function name f) s = Val (append_function name f s)"
| "run_event nd (Ev_exec w) s = executeNextAction nd w (s\<lparr>execEv := False\<rparr>)"
| "run_event nd Ev_timeout s = terminateCurrentAction nd (s\<lparr>timeoutEv := None\<rparr>)"
| "run_event nd (Ev_kill w) s = killCurrentAction nd w (s\<lparr>killEv := None\<rparr>)"
| "run_event nd (Ev_sigchld w ws) s = childSignal nd w ws s"

definition front_is_process :: "'f action_state \<Rightarrow> bool" where
  "front_is_process s \<longleftrightarrow> (case actions s of [] \<Rightarrow> False | i # is \<Rightarrow> it_process i \<noteq> None)"

fun kids_after :: "'f event \<Rightarrow> 'f loop_state \<Rightarrow> int set" where
  "kids_after (Ev_exec w) s = (if front_is_process (acts s) then insert (fork_result w) (kids s) else kids s)"
| "kids_after (Ev_sigchld w ws) s = kids s - set (map si_pid ws)"
| "kids_after e s = kids s"

inductive loop_step :: "bool \<Rightarrow> 'f loop_state \<Rightarrow> 'f event \<Rightarrow> 'f loop_state \<Rightarrow> bool" where
  step: "enabled e s \<Longrightarrow> run_event nd e (acts s) = Val a
    \<Longrightarrow> loop_step nd s e \<lparr>acts = a, kids = kids_after e s\<rparr>"

inductive loop_run :: "bool \<Rightarrow> 'f loop_state \<Rightarrow> 'f event list \<Rightarrow> 'f loop_state \<Rightarrow> bool" for nd s where
  run_nil: "loop_run nd s [] s"
| run_snoc: "loop_run nd s es t \<Longrightarrow> loop_step nd t e u \<Longrightarrow> loop_run nd s (es @ [e]) u"

inductive_cases loop_stepE: "loop_step nd s e t"
inductive_simps loop_step_iff: "loop_step nd s e t"

section \<open>The invariant\<close>

definition owned :: "'f item list \<Rightarrow> addr list" where
  "owned is = concat (map (\<lambda>i. case it_process i of None \<Rightarrow> [] | Some a \<Rightarrow> [a]) is)"

text \<open>A process object that has not been started or has ended.\<close>

definition idle_object :: "'h procs \<Rightarrow> addr \<Rightarrow> bool" where
  "idle_object ps a \<longleftrightarrow> (\<exists>p. mem ps a = Some p \<and> p_pid p = - 1)"

text \<open>An item has a process with its timeout, or a functor.\<close>

definition item_ok :: "'f item \<Rightarrow> bool" where
  "item_ok i \<longleftrightarrow> (case it_process i of Some a \<Rightarrow> it_timeout i \<noteq> None | None \<Rightarrow> it_function i \<noteq> None)"

text \<open>No command runs: the exec event is active exactly when something is queued.\<close>

definition waiting :: "'f action_state \<Rightarrow> bool" where
  "waiting s \<longleftrightarrow> plist (procs s) [] \<and> timeoutEv s = None \<and> killEv s = None
     \<and> execEv s = (actions s \<noteq> []) \<and> (\<forall>a\<in>set (owned (actions s)). idle_object (procs s) a)"

text \<open>The first item's command runs with one of the two timers pending, the others have not started.\<close>

definition running :: "int set \<Rightarrow> 'f action_state \<Rightarrow> bool" where
  "running K s \<longleftrightarrow> \<not> execEv s \<and> (timeoutEv s = None) \<noteq> (killEv s = None) \<and>
     (\<exists>i is a p. actions s = i # is \<and> it_process i = Some a \<and> mem (procs s) a = Some p
        \<and> p_pid p \<in> K \<and> p_handler p = Some Completion \<and> plist (procs s) [a]
        \<and> (\<forall>b\<in>set (owned is). idle_object (procs s) b))"

definition loop_inv :: "'f loop_state \<Rightarrow> bool" where
  "loop_inv s \<longleftrightarrow> (waiting (acts s) \<or> running (kids s) (acts s))
     \<and> distinct (owned (actions (acts s))) \<and> (\<forall>i\<in>set (actions (acts s)). item_ok i)
     \<and> (\<forall>a. mem (procs (acts s)) a \<noteq> None \<longrightarrow> a < brk (procs (acts s)))
     \<and> (\<forall>k\<in>kids s. 0 < k)"

lemma owned_simps [simp]:
  "owned [] = []"
  "owned (i # is) = (case it_process i of None \<Rightarrow> [] | Some a \<Rightarrow> [a]) @ owned is"
  "owned (is @ js) = owned is @ owned js"
  by (simp_all add: owned_def)

lemma plist_Nil_iff [simp]: "plist ps [] \<longleftrightarrow> mProcesses ps = None"
  by (simp add: plist_def)

lemma plist_single_iff [simp]:
  "plist ps [a] \<longleftrightarrow> mProcesses ps = Some a \<and> (\<exists>p. mem ps a = Some p \<and> p_next p = None)"
  by (auto simp add: plist_def)

lemma initial_loop_inv: "loop_inv initial_loop"
  by (simp add: loop_inv_def initial_loop_def initial_actions_def waiting_def empty_procs_def)

section \<open>What each callback computes\<close>

text \<open>The front item leaves, its process object is freed, and the next item is due.\<close>

definition drop_front :: "addr \<Rightarrow> 'f action_state \<Rightarrow> 'f action_state" where
  "drop_front a s =
     s\<lparr>procs := (procs s)\<lparr>mem := (mem (procs s))(a := None), mProcesses := None\<rparr>,
       execEv := (tl (actions s) \<noteq> []), timeoutEv := None, killEv := None, actions := tl (actions s)\<rparr>"

text \<open>
  What an observer sees of the queue: whether a command runs (one of its timers is pending), the pid
  of the command in front, and the effect of a callback on names, business and signals.
\<close>

definition busy :: "'f action_state \<Rightarrow> bool" where
  "busy s \<longleftrightarrow> timeoutEv s \<noteq> None \<or> killEv s \<noteq> None"

definition front_pid :: "'f action_state \<Rightarrow> int" where
  "front_pid s =
     (case actions s of
        [] \<Rightarrow> - 1
      | i # js \<Rightarrow> (case it_process i of None \<Rightarrow> - 1 | Some a \<Rightarrow> pid_at (procs s) a))"

definition names :: "'f action_state \<Rightarrow> string list" where
  "names s = map it_name (actions s)"

definition effect :: "'f action_state \<Rightarrow> 'f action_state \<Rightarrow> string list \<Rightarrow> bool \<Rightarrow> (int \<times> signal) list \<Rightarrow> bool" where
  "effect s t ns b sigs \<longleftrightarrow> names t = ns \<and> busy t = b \<and> kills (procs t) = kills (procs s) @ sigs"

lemma runningE:
  assumes "running K s"
  obtains i js a p where "\<not> execEv s" "(timeoutEv s = None) \<noteq> (killEv s = None)"
    "actions s = i # js" "it_process i = Some a" "mem (procs s) a = Some p" "p_pid p \<in> K"
    "p_handler p = Some Completion" "mProcesses (procs s) = Some a" "p_next p = None"
    "\<forall>b\<in>set (owned js). idle_object (procs s) b"
  using assms by (auto simp add: running_def)

lemma waiting_or_running:
  assumes "loop_inv s"
  shows "execEv (acts s) \<Longrightarrow> waiting (acts s)"
    and "timeoutEv (acts s) \<noteq> None \<or> killEv (acts s) \<noteq> None \<Longrightarrow> running (kids s) (acts s)"
  using assms by (auto simp add: loop_inv_def waiting_def running_def)

lemma exec_process_eq:
  assumes "actions s = i # is" and "it_process i = Some a" and "it_timeout i = Some t"
    and "mem (procs s) a = Some p"
  shows "executeNextAction nd w s =
    (if fork_result w = - 1 then Abort Std_terminate
     else Val (s\<lparr>procs := (procs s)\<lparr>mem := (mem (procs s))(a \<mapsto>
                   p\<lparr>p_handler := Some Completion, p_pid := fork_result w, p_next := mProcesses (procs s)\<rparr>),
                 mProcesses := Some a\<rparr>,
               timeoutEv := Some t, actionsExecuted := actionsExecuted s + 1\<rparr>))"
  using assms
  by (simp add: executeNextAction_def executeProcess_def start_parent_def list_add_def deref_def store_def)

lemma exec_function_eq:
  assumes "actions s = i # is" and "it_process i = None" and "it_function i = Some f"
  shows "executeNextAction nd w s =
    Val ((case thrown_by w f of None \<Rightarrow> s | Some e \<Rightarrow> add_failure (now w) s)
           \<lparr>actions := is, execEv := (is \<noteq> [] \<or> execEv s), actionsExecuted := actionsExecuted s + 1\<rparr>)"
  using assms
  by (auto simp add: executeNextAction_def executeFunction_def finishExecuteAction_def pop_front_def
      add_failure_def Let_def split: option.split)

lemma terminate_eq:
  assumes "actions s = i # is" and "it_process i = Some a" and "mem (procs s) a = Some p"
    and "p_pid p \<noteq> - 1"
  shows "terminateCurrentAction nd s =
    Val (s\<lparr>procs := send_signal (procs s) (p_pid p) SIGTERM, killEv := Some 1\<rparr>)"
  using assms
  by (simp add: terminateCurrentAction_def front_process_def terminate_def deref_def)

lemma kill_process_front:
  assumes "mem ps a = Some p" and "p_pid p \<noteq> - 1" and "mProcesses ps = Some a"
  shows "kill_process nd ps a = Val (ps\<lparr>mem := (mem ps)(a \<mapsto> p\<lparr>p_pid := - 1, p_handler := None\<rparr>),
    mProcesses := p_next p, kills := kills ps @ [(p_pid p, SIGKILL)]\<rparr>)"
  using assms
  by (simp add: kill_process_def deref_def list_remove_def remove_loop.simps [of nd _ a Head]
      read_link_def write_link_def store_def send_signal_def)

lemma kill_eq:
  assumes "actions s = i # is" and "it_process i = Some a" and "mem (procs s) a = Some p"
    and "p_pid p \<noteq> - 1" and "mProcesses (procs s) = Some a" and "p_next p = None"
    and "\<not> execEv s" and "timeoutEv s = None" and "killEv s = None"
  shows "killCurrentAction nd w s =
    Val ((drop_front a s)\<lparr>procs := (procs (drop_front a s))
           \<lparr>kills := kills (procs s) @ [(p_pid p, SIGKILL)]\<rparr>\<rparr>)"
  using assms
  by (simp add: killCurrentAction_def front_process_def kill_process_front pop_front_def
      delete_process_def deref_def drop_front_def)

lemma completion_eq:
  assumes "actions s = i # is" and "it_process i = Some a" and "mem (procs s) a = Some p"
    and "mProcesses (procs s) = Some a" and "p_next p = None" and "\<not> execEv s"
    and "p_handler p = Some Completion"
  shows "unlink_process (procs s) Head a = Val (Some Completion, (procs s)
           \<lparr>mem := (mem (procs s))(a \<mapsto> p\<lparr>p_pid := - 1, p_handler := None\<rparr>), mProcesses := None\<rparr>)"
    and "run_completion w Completion err code (s\<lparr>procs := (procs s)
           \<lparr>mem := (mem (procs s))(a \<mapsto> p\<lparr>p_pid := - 1, p_handler := None\<rparr>), mProcesses := None\<rparr>\<rparr>)
         = Val (if error_bool err \<or> code \<noteq> 0 then add_failure (now w) (drop_front a s) else drop_front a s)"
  using assms
  by (simp_all add: unlink_process_def deref_def write_link_def store_def run_completion_def Let_def
      add_failure_def finishExecuteAction_def pop_front_def delete_process_def drop_front_def)

section \<open>The invariant is kept\<close>

lemma idle_object_other:
  "b \<noteq> a \<Longrightarrow> mem ps' b = mem ps b \<Longrightarrow> idle_object ps' b = idle_object ps b"
  by (simp add: idle_object_def)

lemma loop_inv_drop_front:
  assumes inv: "loop_inv \<lparr>acts = s, kids = K\<rparr>" and "actions s = i # js" and "it_process i = Some a"
    and rest: "\<forall>b\<in>set (owned js). idle_object (procs s) b" and "K' \<subseteq> K"
    and t: "t = drop_front a s \<or> t = add_failure tm (drop_front a s)
       \<or> t = (drop_front a s)\<lparr>procs := (procs (drop_front a s))\<lparr>kills := ks\<rparr>\<rparr>"
  shows "loop_inv \<lparr>acts = t, kids = K'\<rparr>"
proof -
  from inv assms(2,3) have "a \<notin> set (owned js)" by (auto simp add: loop_inv_def)
  with rest have idle: "\<forall>b\<in>set (owned js). \<exists>p. ((mem (procs s))(a := None)) b = Some p \<and> p_pid p = - 1"
    by (auto simp add: idle_object_def)
  from t show ?thesis
    using inv assms(2,3,5) idle
    by (elim disjE) (auto simp add: loop_inv_def waiting_def drop_front_def add_failure_def idle_object_def)
qed

lemma owned_live:
  assumes "waiting s \<or> running K s" and "a \<in> set (owned (actions s))"
  shows "mem (procs s) a \<noteq> None"
  using assms(1)
proof
  assume "waiting s"
  with assms(2) show ?thesis by (auto simp add: waiting_def idle_object_def)
next
  assume "running K s"
  with assms(2) show ?thesis by (elim runningE) (auto simp add: idle_object_def)
qed

text \<open>Appending an item whose process, if it has one, is live and not started.\<close>

lemma waiting_append:
  assumes "waiting s" and "\<forall>a. it_process i = Some a \<longrightarrow> idle_object (procs s) a"
  shows "waiting (append_item i s)"
  using assms by (auto simp add: waiting_def append_item_def Let_def split: option.split)

lemma running_append:
  assumes "running K s" and "\<forall>a. it_process i = Some a \<longrightarrow> idle_object (procs s) a"
  shows "running K (append_item i s)"
proof -
  from assms(1) obtain j js a p where r: "\<not> execEv s" "(timeoutEv s = None) \<noteq> (killEv s = None)"
    "actions s = j # js" "it_process j = Some a" "mem (procs s) a = Some p" "p_pid p \<in> K"
    "p_handler p = Some Completion" "mProcesses (procs s) = Some a" "p_next p = None"
    "\<forall>b\<in>set (owned js). idle_object (procs s) b"
    by (rule runningE)
  then have "append_item i s = s\<lparr>actions := j # js @ [i]\<rparr>"
    by (simp add: append_item_def Let_def)
  with r assms(2) show ?thesis by (auto simp add: running_def split: option.split)
qed

lemma append_item_frame [simp]:
  "procs (append_item i s) = procs s" "actions (append_item i s) = actions s @ [i]"
  by (simp_all add: append_item_def Let_def)

lemma busy_procs [simp]: "busy (s\<lparr>procs := ps\<rparr>) = busy s"
  by (simp add: busy_def)

lemma busy_append [simp]: "busy (append_item i s) = busy s"
  by (simp add: busy_def append_item_def Let_def)

lemma append_item_inv:
  assumes inv: "loop_inv \<lparr>acts = s, kids = K\<rparr>" and ok: "item_ok i"
    and p: "\<forall>a. it_process i = Some a \<longrightarrow> idle_object (procs s) a \<and> a \<notin> set (owned (actions s))"
  shows "loop_inv \<lparr>acts = append_item i s, kids = K\<rparr>"
proof -
  have "waiting (append_item i s) \<or> running K (append_item i s)"
    using inv p by (auto simp add: loop_inv_def intro: waiting_append running_append)
  with inv ok p show ?thesis by (auto simp add: loop_inv_def split: option.split)
qed

definition with_object :: "'h impl \<Rightarrow> 'h procs \<Rightarrow> 'h procs" where
  "with_object p ps = ps\<lparr>brk := Suc (brk ps), mem := (mem ps)(brk ps \<mapsto> p)\<rparr>"

lemma with_object_inv:
  assumes inv: "loop_inv \<lparr>acts = s, kids = K\<rparr>"
  shows "loop_inv \<lparr>acts = s\<lparr>procs := with_object p (procs s)\<rparr>, kids = K\<rparr>"
    and "brk (procs s) \<notin> set (owned (actions s))"
proof -
  have new: "mem (procs s) (brk (procs s)) = None"
    using inv by (auto simp add: loop_inv_def)
  with inv show no: "brk (procs s) \<notin> set (owned (actions s))"
    using owned_live [of s K "brk (procs s)"] by (auto simp add: loop_inv_def)
  have idle: "idle_object (with_object p (procs s)) a"
    if "idle_object (procs s) a" for a
    using that new by (auto simp add: idle_object_def with_object_def)
  have "waiting (s\<lparr>procs := with_object p (procs s)\<rparr>)" if "waiting s"
    using that idle by (simp add: waiting_def) (simp add: with_object_def)
  moreover have "running K (s\<lparr>procs := with_object p (procs s)\<rparr>)" if "running K s"
  proof -
    from that obtain j js a p' where r: "\<not> execEv s" "(timeoutEv s = None) \<noteq> (killEv s = None)"
      "actions s = j # js" "it_process j = Some a" "mem (procs s) a = Some p'" "p_pid p' \<in> K"
      "p_handler p' = Some Completion" "mProcesses (procs s) = Some a" "p_next p' = None"
      "\<forall>b\<in>set (owned js). idle_object (procs s) b"
      by (rule runningE)
    with new have "a \<noteq> brk (procs s)" by auto
    with r idle show ?thesis
      by (simp add: running_def with_object_def)
  qed
  ultimately show "loop_inv \<lparr>acts = s\<lparr>procs := with_object p (procs s)\<rparr>, kids = K\<rparr>"
    using inv by (auto simp add: loop_inv_def with_object_def less_SucI)
qed

lemma command_step_inv:
  assumes "loop_inv s"
  shows "\<exists>a. run_event nd (Ev_command name program args env user timeout) (acts s) = Val a
     \<and> loop_inv \<lparr>acts = a, kids = kids s\<rparr> \<and> effect (acts s) a (names (acts s) @ [name]) (busy (acts s)) []"
proof -
  let ?p = "fresh_impl\<lparr>p_program := program, p_args := args, p_env := env, p_user := user\<rparr>"
  let ?s = "(acts s)\<lparr>procs := with_object ?p (procs (acts s))\<rparr>"
  have inv: "loop_inv \<lparr>acts = acts s, kids = kids s\<rparr>" using assms by (cases s) simp
  have "idle_object (procs ?s) (brk (procs (acts s)))"
    by (simp add: idle_object_def with_object_def fresh_impl_def)
  with with_object_inv(1) [OF inv, of ?p] with_object_inv(2) [OF inv]
  have "loop_inv \<lparr>acts = append_process name (brk (procs (acts s))) timeout ?s, kids = kids s\<rparr>"
    unfolding append_process_def by (intro append_item_inv) (simp_all add: item_ok_def)
  then show ?thesis
    by (simp add: schedule_command_eq with_object_def effect_def names_def append_process_def busy_append)
qed

lemma function_step_inv:
  assumes "loop_inv s"
  shows "\<exists>a. run_event nd (Ev_function name f) (acts s) = Val a \<and> loop_inv \<lparr>acts = a, kids = kids s\<rparr>
     \<and> effect (acts s) a (names (acts s) @ [name]) (busy (acts s)) []"
proof -
  have "loop_inv \<lparr>acts = acts s, kids = kids s\<rparr>" using assms by (cases s) simp
  then have "loop_inv \<lparr>acts = append_function name f (acts s), kids = kids s\<rparr>"
    unfolding append_function_def by (intro append_item_inv) (simp_all add: item_ok_def)
  then show ?thesis by (simp add: effect_def names_def append_function_def)
qed

text \<open>The exec callback: it starts the command in front, runs the functor in front, or dies of a failed fork.\<close>

lemma exec_step_inv:
  assumes inv: "loop_inv s" and en: "enabled (Ev_exec w) s"
  shows "(\<exists>a. run_event nd (Ev_exec w) (acts s) = Val a \<and> loop_inv \<lparr>acts = a, kids = kids_after (Ev_exec w) s\<rparr>
        \<and> names (acts s) \<noteq> [] \<and> \<not> busy (acts s) \<and>
        (if front_is_process (acts s) then effect (acts s) a (names (acts s)) True []
         else effect (acts s) a (tl (names (acts s))) False []))
     \<or> (fork_result w = - 1 \<and> front_is_process (acts s)
        \<and> run_event nd (Ev_exec w) (acts s) = Abort Std_terminate)"
proof -
  let ?s = "(acts s)\<lparr>execEv := False\<rparr>"
  from inv en have w: "waiting (acts s)" by (auto intro: waiting_or_running)
  with en obtain i js where acts: "actions (acts s) = i # js" by (auto simp add: waiting_def neq_Nil_conv)
  show ?thesis
  proof (cases "it_process i")
    case None
    with inv acts obtain f where f: "it_function i = Some f" by (auto simp add: loop_inv_def item_ok_def)
    have "loop_inv \<lparr>acts = (case thrown_by w f of None \<Rightarrow> ?s | Some e \<Rightarrow> add_failure (now w) ?s)
        \<lparr>actions := js, execEv := js \<noteq> [], actionsExecuted := actionsExecuted (acts s) + 1\<rparr>, kids = kids s\<rparr>"
      using inv w acts None
      by (auto simp add: loop_inv_def waiting_def add_failure_def split: option.split)
    then show ?thesis
      using w acts None f exec_function_eq [of ?s i js f nd w]
      by (simp add: front_is_process_def effect_def names_def busy_def waiting_def add_failure_def split: option.split)
  next
    case (Some a)
    from inv acts Some obtain t where t: "it_timeout i = Some t" by (auto simp add: loop_inv_def item_ok_def)
    from w acts Some obtain p where p: "mem (procs (acts s)) a = Some p" "p_pid p = - 1"
      by (auto simp add: waiting_def idle_object_def)
    show ?thesis
    proof (cases "fork_result w = - 1")
      case True
      then show ?thesis
        using acts Some t p exec_process_eq [of ?s i js a t p nd w] by (simp add: front_is_process_def)
    next
      case False
      have "a \<notin> set (owned js)" "a < brk (procs (acts s))" "0 < fork_result w"
        using inv acts Some p False en by (auto simp add: loop_inv_def)
      then show ?thesis
        using inv w acts Some t p False exec_process_eq [of ?s i js a t p nd w]
        by (auto simp add: front_is_process_def loop_inv_def running_def waiting_def idle_object_def
            effect_def names_def busy_def)
    qed
  qed
qed

lemma running_pid:
  assumes "loop_inv \<lparr>acts = s, kids = K\<rparr>" and "p_pid p \<in> K"
  shows "p_pid p \<noteq> - 1"
  using assms by (fastforce simp add: loop_inv_def)

lemma timeout_step_inv:
  assumes inv: "loop_inv s" and en: "enabled Ev_timeout s"
  shows "\<exists>a. run_event nd Ev_timeout (acts s) = Val a \<and> loop_inv \<lparr>acts = a, kids = kids s\<rparr>
     \<and> effect (acts s) a (names (acts s)) True [(front_pid (acts s), SIGTERM)]
     \<and> names (acts s) \<noteq> [] \<and> front_pid (acts s) \<in> kids s"
proof -
  from en have to: "timeoutEv (acts s) \<noteq> None" by simp
  with inv have "running (kids s) (acts s)" by (intro waiting_or_running) auto
  then obtain i js a p where r: "\<not> execEv (acts s)" "(timeoutEv (acts s) = None) \<noteq> (killEv (acts s) = None)"
    "actions (acts s) = i # js" "it_process i = Some a" "mem (procs (acts s)) a = Some p" "p_pid p \<in> kids s"
    "p_handler p = Some Completion" "mProcesses (procs (acts s)) = Some a" "p_next p = None"
    "\<forall>b\<in>set (owned js). idle_object (procs (acts s)) b"
    by (rule runningE)
  have "p_pid p \<noteq> - 1" using running_pid [of "acts s" "kids s" p] inv r(6) by (simp add: loop_inv_def)
  then have eq: "run_event nd Ev_timeout (acts s) = Val ((acts s)\<lparr>procs := send_signal (procs (acts s)) (p_pid p) SIGTERM,
      timeoutEv := None, killEv := Some 1\<rparr>)"
    using r terminate_eq [of "(acts s)\<lparr>timeoutEv := None\<rparr>" i js a p nd] by simp
  have "running (kids s) ((acts s)\<lparr>procs := send_signal (procs (acts s)) (p_pid p) SIGTERM,
      timeoutEv := None, killEv := Some 1\<rparr>)"
    using r to by (auto simp add: running_def send_signal_def idle_object_def)
  with inv eq r show ?thesis
    by (auto simp add: loop_inv_def send_signal_def effect_def names_def busy_def front_pid_def pid_at_def)
qed

lemma kill_step_inv:
  assumes inv: "loop_inv s" and en: "enabled (Ev_kill w) s"
  shows "\<exists>a. run_event nd (Ev_kill w) (acts s) = Val a \<and> loop_inv \<lparr>acts = a, kids = kids s\<rparr>
     \<and> effect (acts s) a (tl (names (acts s))) False [(front_pid (acts s), SIGKILL)]
     \<and> names (acts s) \<noteq> [] \<and> front_pid (acts s) \<in> kids s"
proof -
  from en have k: "killEv (acts s) \<noteq> None" by simp
  with inv have "running (kids s) (acts s)" by (intro waiting_or_running) auto
  then obtain i js a p where r: "\<not> execEv (acts s)" "(timeoutEv (acts s) = None) \<noteq> (killEv (acts s) = None)"
    "actions (acts s) = i # js" "it_process i = Some a" "mem (procs (acts s)) a = Some p" "p_pid p \<in> kids s"
    "p_handler p = Some Completion" "mProcesses (procs (acts s)) = Some a" "p_next p = None"
    "\<forall>b\<in>set (owned js). idle_object (procs (acts s)) b"
    by (rule runningE)
  let ?s = "(acts s)\<lparr>killEv := None\<rparr>"
  have inv': "loop_inv \<lparr>acts = acts s, kids = kids s\<rparr>" using inv by (cases s) simp
  have "p_pid p \<noteq> - 1" using running_pid [of "acts s" "kids s" p] inv r(6) by (simp add: loop_inv_def)
  then have "run_event nd (Ev_kill w) (acts s) = Val ((drop_front a ?s)\<lparr>procs := (procs (drop_front a ?s))
           \<lparr>kills := kills (procs ?s) @ [(p_pid p, SIGKILL)]\<rparr>\<rparr>)"
    using r k kill_eq [of ?s i js a p nd w] by simp
  moreover have "drop_front a ?s = drop_front a (acts s)"
    by (simp add: drop_front_def)
  moreover have "loop_inv \<lparr>acts = (drop_front a (acts s))\<lparr>procs := (procs (drop_front a (acts s)))
           \<lparr>kills := kills (procs ?s) @ [(p_pid p, SIGKILL)]\<rparr>\<rparr>, kids = kids s\<rparr>"
    using inv' r(3,4,10)
    by - (rule loop_inv_drop_front [where s = "acts s" and K = "kids s" and i = i and a = a and js = js
          and ks = "kills (procs ?s) @ [(p_pid p, SIGKILL)]"], simp_all)
  moreover have "effect (acts s) ((drop_front a (acts s))\<lparr>procs := (procs (drop_front a (acts s)))
           \<lparr>kills := kills (procs ?s) @ [(p_pid p, SIGKILL)]\<rparr>\<rparr>) (tl (names (acts s))) False
           [(front_pid (acts s), SIGKILL)] \<and> names (acts s) \<noteq> [] \<and> front_pid (acts s) \<in> kids s"
    using r by (simp add: effect_def drop_front_def names_def busy_def front_pid_def pid_at_def)
  ultimately show ?thesis by simp
qed

text \<open>One round of \<open>onSigchld\<close>: the answer is about the running command, or about a killed one.\<close>

lemma sigchld_round:
  assumes inv: "loop_inv \<lparr>acts = s, kids = K\<rparr>" and x: "\<not> wait_failed x" "si_code x \<noteq> CLD_other" "si_pid x \<in> K"
  shows "\<exists>s'. childSignal nd w (x # ws) s = childSignal nd w ws s' \<and> loop_inv \<lparr>acts = s', kids = K - {si_pid x}\<rparr>
     \<and> (if busy s \<and> front_pid s = si_pid x then effect s s' (tl (names s)) False [] \<and> names s \<noteq> [] else s' = s)"
proof -
  from inv x(3) have pos: "si_pid x \<noteq> 0" by (auto simp add: loop_inv_def)
  from inv consider "waiting s" | "running K s" by (auto simp add: loop_inv_def)
  then show ?thesis
  proof cases
    case 1
    then have "find_process (procs s) (si_pid x) = Val None"
      using find_process_plist [of "procs s" "[]"] by (simp add: waiting_def)
    with x pos have "childSignal nd w (x # ws) s = childSignal nd w ws s"
      by (simp add: childSignal_def)
    moreover have "loop_inv \<lparr>acts = s, kids = K - {si_pid x}\<rparr>"
      using inv 1 by (simp add: loop_inv_def)
    moreover have "\<not> busy s" using 1 by (simp add: busy_def waiting_def)
    ultimately show ?thesis by auto
  next
    case 2
    then obtain i js a p where r: "\<not> execEv s" "(timeoutEv s = None) \<noteq> (killEv s = None)"
      "actions s = i # js" "it_process i = Some a" "mem (procs s) a = Some p" "p_pid p \<in> K"
      "p_handler p = Some Completion" "mProcesses (procs s) = Some a" "p_next p = None"
      "\<forall>b\<in>set (owned js). idle_object (procs s) b"
      by (rule runningE)
    have pl: "plist (procs s) [a]" using r by simp
    show ?thesis
    proof (cases "p_pid p = si_pid x")
      case False
      then have "find_process (procs s) (si_pid x) = Val None"
        using find_process_plist [OF pl] r(5) by (simp add: pid_at_def)
      with x pos have "childSignal nd w (x # ws) s = childSignal nd w ws s"
        by (simp add: childSignal_def)
      moreover have "running (K - {si_pid x}) s"
        using r False by (auto simp add: running_def)
      moreover have "front_pid s \<noteq> si_pid x"
        using r False by (simp add: front_pid_def pid_at_def)
      ultimately show ?thesis
        using inv by (auto simp add: loop_inv_def)
    next
      case True
      then have f: "find_process (procs s) (si_pid x) = Val (Some (Head, a))"
        using find_process_plist [OF pl] r(5) by (simp add: pid_at_def link_after_def)
      obtain err code where e: "exit_result nd x = Val (err, code)"
        using x(2) by (cases "si_code x") (auto simp add: exit_result_def)
      let ?s' = "if error_bool err \<or> code \<noteq> 0 then add_failure (now w) (drop_front a s) else drop_front a s"
      have "childSignal nd w (x # ws) s = childSignal nd w ws ?s'"
        using x(1) pos f e completion_eq [OF r(3,4,5,8,9,1,7)]
        by (simp add: childSignal_def)
      moreover have "loop_inv \<lparr>acts = ?s', kids = K - {si_pid x}\<rparr>"
        using inv r(3,4,10)
        by - (rule loop_inv_drop_front [where s = s and K = K and tm = "now w" and i = i and a = a and js = js], auto)
      moreover have "busy s \<and> front_pid s = si_pid x \<and> effect s ?s' (tl (names s)) False [] \<and> names s \<noteq> []"
        using r True by (auto simp add: effect_def drop_front_def add_failure_def names_def busy_def
            front_pid_def pid_at_def)
      ultimately show ?thesis by (metis (no_types, lifting))
    qed
  qed
qed

lemma sigchld_step_inv:
  assumes "loop_inv \<lparr>acts = s, kids = K\<rparr>" and "distinct (map si_pid ws)"
    and "\<forall>x\<in>set ws. \<not> wait_failed x \<and> si_code x \<noteq> CLD_other \<and> si_pid x \<in> K"
  shows "\<exists>s'. childSignal nd w ws s = Val s' \<and> loop_inv \<lparr>acts = s', kids = K - set (map si_pid ws)\<rparr>
     \<and> (if busy s \<and> front_pid s \<in> si_pid ` set ws then effect s s' (tl (names s)) False [] \<and> names s \<noteq> []
        else s' = s)"
  using assms
proof (induction ws arbitrary: s K)
  case Nil
  then show ?case by (simp add: childSignal_def)
next
  case (Cons x ws)
  then obtain s1 where s1: "childSignal nd w (x # ws) s = childSignal nd w ws s1"
    "loop_inv \<lparr>acts = s1, kids = K - {si_pid x}\<rparr>"
    "if busy s \<and> front_pid s = si_pid x then effect s s1 (tl (names s)) False [] \<and> names s \<noteq> [] else s1 = s"
    using sigchld_round [of s K x nd w ws] by auto
  have "\<exists>s'. childSignal nd w ws s1 = Val s' \<and> loop_inv \<lparr>acts = s', kids = K - {si_pid x} - set (map si_pid ws)\<rparr>
     \<and> (if busy s1 \<and> front_pid s1 \<in> si_pid ` set ws then effect s1 s' (tl (names s1)) False [] \<and> names s1 \<noteq> []
        else s' = s1)"
    using Cons.prems by (intro Cons.IH [OF s1(2)]) (auto simp add: image_iff)
  then obtain s' where s': "childSignal nd w ws s1 = Val s'"
    "loop_inv \<lparr>acts = s', kids = K - {si_pid x} - set (map si_pid ws)\<rparr>"
    "if busy s1 \<and> front_pid s1 \<in> si_pid ` set ws then effect s1 s' (tl (names s1)) False [] \<and> names s1 \<noteq> []
        else s' = s1" by blast
  have "K - {si_pid x} - set (map si_pid ws) = K - set (map si_pid (x # ws))" by auto
  moreover have "if busy s \<and> front_pid s \<in> si_pid ` set (x # ws)
      then effect s s' (tl (names s)) False [] \<and> names s \<noteq> [] else s' = s"
    using s1(3) s'(3) by (auto simp add: effect_def split: if_splits)
  ultimately show ?case using s1(1) s'(1,2) by auto
qed

end
