(* ===== verification/Action_Queue.thy ===== *)
theory Action_Queue
  imports Action_Loop
begin

text \<open>
  The contract of the action list and the proof that the code keeps it: hooks are started, and they
  end, in the order in which they were appended, and a hook is started only when the one before it
  has ended. The contract is the locale \<open>fifo_log\<close> over an arbitrary machine; the action list
  provides it twice, once for the hooks not yet started and once for the hooks not yet ended.
\<close>

section \<open>Steps of the loop\<close>

text \<open>The hook an event appends, starts, and ends.\<close>

fun added :: "'f event \<Rightarrow> string list" where
  "added (Ev_command name program args env user timeout) = [name]"
| "added (Ev_function name f) = [name]"
| "added e = []"

definition front_names :: "'f loop_state \<Rightarrow> string list" where
  "front_names s = take 1 (names (acts s))"

fun started :: "'f loop_state \<Rightarrow> 'f event \<Rightarrow> string list" where
  "started s (Ev_exec w) = front_names s"
| "started s e = []"

fun ended :: "'f loop_state \<Rightarrow> 'f event \<Rightarrow> string list" where
  "ended s (Ev_exec w) = (if front_is_process (acts s) then [] else front_names s)"
| "ended s (Ev_kill w) = front_names s"
| "ended s (Ev_sigchld w ws) =
     (if busy (acts s) \<and> front_pid (acts s) \<in> si_pid ` set ws then front_names s else [])"
| "ended s e = []"

fun signals :: "'f loop_state \<Rightarrow> 'f event \<Rightarrow> (int \<times> signal) list" where
  "signals s Ev_timeout = [(front_pid (acts s), SIGTERM)]"
| "signals s (Ev_kill w) = [(front_pid (acts s), SIGKILL)]"
| "signals s e = []"

definition queued :: "'f loop_state \<Rightarrow> string list" where
  "queued s = names (acts s)"

definition unstarted :: "'f loop_state \<Rightarrow> string list" where
  "unstarted s = (if busy (acts s) then tl (names (acts s)) else names (acts s))"

lemma take1_append_tl: "xs \<noteq> [] \<Longrightarrow> take 1 xs @ tl xs @ ys = xs @ ys"
  by (cases xs) auto

lemma busy_names: "loop_inv s \<Longrightarrow> busy (acts s) \<Longrightarrow> names (acts s) \<noteq> []"
  by (auto simp add: loop_inv_def busy_def waiting_def running_def names_def)

text \<open>Every enabled event runs to its end, except that a failed \<open>fork\<close> terminates the program.\<close>

lemma enabled_event_runs:
  assumes inv: "loop_inv s" and en: "enabled e s"
  shows "(\<exists>a. run_event nd e (acts s) = Val a \<and> loop_inv \<lparr>acts = a, kids = kids_after e s\<rparr>
            \<and> queued s @ added e = ended s e @ names a
            \<and> unstarted s @ added e = started s e @ unstarted \<lparr>acts = a, kids = kids_after e s\<rparr>
            \<and> kills (procs a) = kills (procs (acts s)) @ signals s e
            \<and> fst ` set (signals s e) \<subseteq> kids s)
     \<or> (\<exists>w. e = Ev_exec w \<and> fork_result w = - 1 \<and> front_is_process (acts s)
            \<and> run_event nd e (acts s) = Abort Std_terminate)"
proof (cases e)
  case (Ev_command name program args env user timeout)
  from command_step_inv [OF inv, of nd name program args env user timeout]
  obtain a where "run_event nd e (acts s) = Val a" "loop_inv \<lparr>acts = a, kids = kids s\<rparr>"
    "effect (acts s) a (names (acts s) @ [name]) (busy (acts s)) []" unfolding Ev_command by blast
  with Ev_command busy_names [OF inv] show ?thesis
    by (intro disjI1 exI [of _ a]) (simp add: effect_def queued_def unstarted_def)
next
  case (Ev_function name f)
  from function_step_inv [OF inv, of nd name f]
  obtain a where "run_event nd e (acts s) = Val a" "loop_inv \<lparr>acts = a, kids = kids s\<rparr>"
    "effect (acts s) a (names (acts s) @ [name]) (busy (acts s)) []" unfolding Ev_function by blast
  with Ev_function busy_names [OF inv] show ?thesis
    by (intro disjI1 exI [of _ a]) (simp add: effect_def queued_def unstarted_def)
next
  case (Ev_exec w)
  have front: "queued s = front_names s @ tl (names (acts s))" if "names (acts s) \<noteq> []"
    using that take1_append_tl [of "names (acts s)" "[]"] by (simp add: queued_def front_names_def)
  from exec_step_inv [OF inv, of w nd] en consider
    (died) "fork_result w = - 1" "front_is_process (acts s)" "run_event nd e (acts s) = Abort Std_terminate"
  | (runs) a where "run_event nd e (acts s) = Val a" "loop_inv \<lparr>acts = a, kids = kids_after e s\<rparr>"
      "names (acts s) \<noteq> []" "\<not> busy (acts s)"
      "if front_is_process (acts s) then effect (acts s) a (names (acts s)) True []
         else effect (acts s) a (tl (names (acts s))) False []"
    unfolding Ev_exec by blast
  then show ?thesis
  proof cases
    case died
    with Ev_exec show ?thesis by blast
  next
    case runs
    with Ev_exec front show ?thesis
      by (intro disjI1 exI [of _ a])
        (cases "front_is_process (acts s)"; simp add: effect_def queued_def unstarted_def)
  qed
next
  case Ev_timeout
  from timeout_step_inv [OF inv, of nd] en
  obtain a where "run_event nd e (acts s) = Val a" "loop_inv \<lparr>acts = a, kids = kids s\<rparr>"
    "effect (acts s) a (names (acts s)) True [(front_pid (acts s), SIGTERM)]" "front_pid (acts s) \<in> kids s"
    unfolding Ev_timeout by blast
  moreover have "busy (acts s)" using en Ev_timeout by (simp add: busy_def)
  ultimately show ?thesis using Ev_timeout
    by (intro disjI1 exI [of _ a]) (simp add: effect_def queued_def unstarted_def)
next
  case (Ev_kill w)
  from kill_step_inv [OF inv, of w nd] en
  obtain a where "run_event nd e (acts s) = Val a" "loop_inv \<lparr>acts = a, kids = kids s\<rparr>"
    "effect (acts s) a (tl (names (acts s))) False [(front_pid (acts s), SIGKILL)]"
    "names (acts s) \<noteq> []" "front_pid (acts s) \<in> kids s"
    unfolding Ev_kill by blast
  moreover have "busy (acts s)" using en Ev_kill by (simp add: busy_def)
  moreover have "names (acts s) = front_names s @ tl (names (acts s))"
    using calculation take1_append_tl [of "names (acts s)" "[]"] by (simp add: front_names_def)
  ultimately show ?thesis using Ev_kill
    by (intro disjI1 exI [of _ a]) (simp add: effect_def queued_def unstarted_def)
next
  case (Ev_sigchld w ws)
  have "loop_inv \<lparr>acts = acts s, kids = kids s\<rparr>" using inv by (cases s) simp
  from sigchld_step_inv [OF this, of ws nd w] en
  obtain a where a: "run_event nd e (acts s) = Val a" "loop_inv \<lparr>acts = a, kids = kids_after e s\<rparr>"
    "if busy (acts s) \<and> front_pid (acts s) \<in> si_pid ` set ws
     then effect (acts s) a (tl (names (acts s))) False [] \<and> names (acts s) \<noteq> [] else a = acts s"
    unfolding Ev_sigchld by auto
  show ?thesis
  proof (cases "busy (acts s) \<and> front_pid (acts s) \<in> si_pid ` set ws")
    case True
    with a(3) have "names (acts s) = front_names s @ tl (names (acts s))"
      using take1_append_tl [of "names (acts s)" "[]"] by (simp add: front_names_def)
    with True a Ev_sigchld show ?thesis
      by (intro disjI1 exI [of _ a]) (simp add: effect_def queued_def unstarted_def)
  next
    case False
    with a Ev_sigchld show ?thesis
      by (intro disjI1 exI [of _ a]) (simp add: queued_def unstarted_def)
  qed
qed

lemma loop_step_effect:
  assumes "loop_inv s" and "loop_step nd s e t"
  shows "loop_inv t" and "queued s @ added e = ended s e @ queued t"
    and "unstarted s @ added e = started s e @ unstarted t"
    and "kills (procs (acts t)) = kills (procs (acts s)) @ signals s e"
    and "fst ` set (signals s e) \<subseteq> kids s"
  using enabled_event_runs [OF assms(1), of e nd] assms(2)
  by (simp_all only: loop_step_iff queued_def) force+

lemma loop_run_inv: "loop_run nd s es t \<Longrightarrow> loop_inv s \<Longrightarrow> loop_inv t"
  by (induction rule: loop_run.induct) (auto intro: loop_step_effect)

section \<open>First in, first out\<close>

text \<open>A run of a machine with what each step reports, in order.\<close>

inductive traced ::
  "('s \<Rightarrow> 'e \<Rightarrow> 's \<Rightarrow> bool) \<Rightarrow> ('s \<Rightarrow> 'e \<Rightarrow> 'n list) \<Rightarrow> 's \<Rightarrow> 'e list \<Rightarrow> 'n list \<Rightarrow> 's \<Rightarrow> bool"
  for step report s where
  traced_nil: "traced step report s [] [] s"
| traced_snoc: "traced step report s es ns t \<Longrightarrow> step t e u
    \<Longrightarrow> traced step report s (es @ [e]) (ns @ report t e) u"

locale fifo_log =
  fixes step :: "'s \<Rightarrow> 'e \<Rightarrow> 's \<Rightarrow> bool"
    and inv :: "'s \<Rightarrow> bool"
    and left :: "'s \<Rightarrow> 'n list"
    and enters :: "'e \<Rightarrow> 'n list"
    and leaves :: "'s \<Rightarrow> 'e \<Rightarrow> 'n list"
  assumes inv_step: "inv s \<Longrightarrow> step s e t \<Longrightarrow> inv t"
    and step_law: "inv s \<Longrightarrow> step s e t \<Longrightarrow> left s @ enters e = leaves s e @ left t"
begin

lemma traced_inv: "traced step leaves s es ns t \<Longrightarrow> inv s \<Longrightarrow> inv t"
  by (induction rule: traced.induct) (auto intro: inv_step)

lemma leaves_in_order:
  "traced step leaves s es ns t \<Longrightarrow> inv s \<Longrightarrow> left s @ concat (map enters es) = ns @ left t"
proof (induction rule: traced.induct)
  case traced_nil
  then show ?case by simp
next
  case (traced_snoc es ns t e u)
  then have "left t @ enters e = leaves t e @ left u"
    using traced_inv step_law by blast
  with traced_snoc show ?case by simp (metis append.assoc)
qed

lemma nothing_lost:
  "traced step leaves s es ns t \<Longrightarrow> inv s \<Longrightarrow> left s = [] \<Longrightarrow>
     length ns + length (left t) = length (concat (map enters es))"
  using leaves_in_order by (metis append_Nil length_append)

end

interpretation starting: fifo_log "loop_step nd" loop_inv unstarted added started for nd
  by unfold_locales (auto dest: loop_step_effect)

interpretation ending: fifo_log "loop_step nd" loop_inv queued added ended for nd
  by unfold_locales (auto dest: loop_step_effect)

lemma traced_loop_run: "traced (loop_step nd) report s es ns t \<Longrightarrow> loop_run nd s es t"
  by (induction rule: traced.induct) (auto intro: loop_run.intros)

lemma initial_unstarted [simp]: "unstarted initial_loop = []" "queued initial_loop = []"
  by (simp_all add: unstarted_def queued_def names_def initial_loop_def initial_actions_def)

lemma queued_unstarted:
  "loop_inv s \<Longrightarrow> queued s = (if busy (acts s) then front_names s else []) @ unstarted s"
  using busy_names [of s] take1_append_tl [of "names (acts s)" "[]"]
  by (auto simp add: queued_def unstarted_def front_names_def)

text \<open>Over a whole run, what was started is what has ended, and the running hook if there is one.\<close>

lemma started_ended:
  assumes "traced (loop_step nd) started initial_loop es ns t"
    and "traced (loop_step nd) ended initial_loop es ms t"
  shows "ns = ms @ (if busy (acts t) then front_names t else [])"
proof -
  have "loop_inv t"
    using assms(1) initial_loop_inv by (rule starting.traced_inv)
  moreover have "ns @ unstarted t = ms @ queued t"
    using starting.leaves_in_order [OF assms(1) initial_loop_inv]
      ending.leaves_in_order [OF assms(2) initial_loop_inv] by simp
  ultimately show ?thesis
    by (simp add: queued_unstarted)
qed

section \<open>Progress\<close>

text \<open>
  The front hook never blocks the queue: if no child ever reports its end, the exec event and the
  two timers still remove it, in at most three callbacks.
\<close>

lemma terminate_arms_kill: "terminateCurrentAction nd s = Val a \<Longrightarrow> killEv a = Some 1"
  by (auto simp add: terminateCurrentAction_def res_simps)

lemma step_kill:
  assumes "loop_inv s" and "killEv (acts s) \<noteq> None"
  shows "\<exists>t. loop_step nd s (Ev_kill w) t \<and> names (acts t) = tl (names (acts s))"
  using kill_step_inv [of s w nd] assms by (auto simp add: loop_step_iff effect_def)

lemma step_timeout:
  assumes "loop_inv s" and "timeoutEv (acts s) \<noteq> None"
  shows "\<exists>t. loop_step nd s Ev_timeout t \<and> loop_inv t \<and> names (acts t) = names (acts s) \<and> killEv (acts t) \<noteq> None"
  using timeout_step_inv [of s nd] assms terminate_arms_kill
  by (fastforce simp add: loop_step_iff effect_def)

lemma step_exec:
  assumes inv: "loop_inv s" and en: "enabled (Ev_exec w) s" and "fork_result w \<noteq> - 1"
  shows "\<exists>t. loop_step nd s (Ev_exec w) t \<and> loop_inv t
    \<and> (names (acts t) = tl (names (acts s)) \<or> names (acts t) = names (acts s) \<and> busy (acts t))"
  using exec_step_inv [OF inv en, of nd] en assms(3)
  by (auto simp add: loop_step_iff effect_def split: if_splits)

lemma loop_run_Cons: "loop_step nd s e t \<Longrightarrow> loop_run nd t es u \<Longrightarrow> loop_run nd s (e # es) u"
  by (rotate_tac, induction rule: loop_run.induct)
    (auto intro: loop_run.intros run_snoc [where es = "[]", simplified] run_snoc [where es = "_ # _", simplified])

lemma busy_drains:
  assumes inv: "loop_inv s" and b: "busy (acts s)"
  shows "\<exists>fs t. set fs \<subseteq> {Ev_timeout, Ev_kill w} \<and> length fs \<le> 2 \<and> loop_run nd s fs t
     \<and> names (acts t) = tl (names (acts s))"
proof (cases "killEv (acts s)")
  case (Some k)
  then obtain t where "loop_step nd s (Ev_kill w) t" "names (acts t) = tl (names (acts s))"
    using step_kill [OF inv] by blast
  then have "loop_run nd s [Ev_kill w] t"
    by (auto intro: loop_run_Cons loop_run.intros)
  with \<open>names (acts t) = _\<close> show ?thesis
    by (intro exI [of _ "[Ev_kill w]"] exI [of _ t]) simp
next
  case None
  with b have "timeoutEv (acts s) \<noteq> None" by (simp add: busy_def)
  then obtain t where t: "loop_step nd s Ev_timeout t" "loop_inv t" "names (acts t) = names (acts s)"
    "killEv (acts t) \<noteq> None" using step_timeout [OF inv] by blast
  then obtain u where "loop_step nd t (Ev_kill w) u" "names (acts u) = tl (names (acts t))"
    using step_kill by blast
  with t have "loop_run nd s [Ev_timeout, Ev_kill w] u"
    by (auto intro: loop_run_Cons loop_run.intros)
  with t(3) \<open>names (acts u) = _\<close> show ?thesis
    by (intro exI [of _ "[Ev_timeout, Ev_kill w]"] exI [of _ u]) simp
qed

lemma front_drains:
  assumes inv: "loop_inv s" and "names (acts s) \<noteq> []"
    and f: "0 < fork_result w" "fork_result w \<notin> kids s"
  shows "\<exists>fs t. set fs \<subseteq> {Ev_exec w, Ev_timeout, Ev_kill w} \<and> length fs \<le> 3 \<and> loop_run nd s fs t
     \<and> names (acts t) = tl (names (acts s))"
proof (cases "busy (acts s)")
  case True
  from busy_drains [OF inv True, of w nd] obtain fs t where
    "set fs \<subseteq> {Ev_timeout, Ev_kill w}" "length fs \<le> 2" "loop_run nd s fs t"
    "names (acts t) = tl (names (acts s))" by blast
  then show ?thesis by (intro exI [of _ fs] exI [of _ t]) auto
next
  case False
  with inv assms(2) have "execEv (acts s)"
    by (auto simp add: loop_inv_def waiting_def running_def busy_def names_def)
  with f have en: "enabled (Ev_exec w) s" "fork_result w \<noteq> - 1" by auto
  from step_exec [OF inv en, of nd] obtain t where t: "loop_step nd s (Ev_exec w) t" "loop_inv t"
    "names (acts t) = tl (names (acts s)) \<or> names (acts t) = names (acts s) \<and> busy (acts t)" by blast
  show ?thesis
  proof (cases "names (acts t) = tl (names (acts s))")
    case True
    with t(1) have "loop_run nd s [Ev_exec w] t"
      by (auto intro: loop_run_Cons loop_run.intros)
    with True show ?thesis
      by (intro exI [of _ "[Ev_exec w]"] exI [of _ t]) simp
  next
    case False
    with t(3) have "busy (acts t)" and n: "names (acts t) = names (acts s)" by auto
    from busy_drains [OF t(2) this(1), of w nd] obtain fs u where
      "set fs \<subseteq> {Ev_timeout, Ev_kill w}" "length fs \<le> 2" "loop_run nd t fs u"
      "names (acts u) = tl (names (acts t))" by blast
    with t(1) n show ?thesis
      by (intro exI [of _ "Ev_exec w # fs"] exI [of _ u]) (auto intro: loop_run_Cons)
  qed
qed

section \<open>Running the machine on concrete events\<close>

fun run_events :: "bool \<Rightarrow> 'f event list \<Rightarrow> 'f loop_state \<Rightarrow> 'f loop_state option" where
  "run_events nd [] s = Some s"
| "run_events nd (e # es) s =
     (if enabled e s
      then (case run_event nd e (acts s) of
              Val a \<Rightarrow> run_events nd es \<lparr>acts = a, kids = kids_after e s\<rparr>
            | _ \<Rightarrow> None)
      else None)"

lemma run_events_loop_run: "run_events nd es s = Some t \<Longrightarrow> loop_run nd s es t"
proof (induction es arbitrary: s)
  case Nil
  then show ?case by (auto intro: run_nil)
next
  case (Cons e es)
  then obtain a where "enabled e s" "run_event nd e (acts s) = Val a"
    "run_events nd es \<lparr>acts = a, kids = kids_after e s\<rparr> = Some t"
    by (auto split: if_splits res.splits)
  with Cons.IH show ?case by (auto intro: loop_run_Cons loop_step.intros)
qed

end
