(* ===== verification/Job_Queue.thy ===== *)
theory Job_Queue
  imports Action_Queue
begin

text \<open>
  The action list as a queue of jobs. A job is what a hook asked for: a command with its program,
  arguments, environment, user and timeout, or a functor. The commands themselves sit in process
  objects on the heap, which the callbacks write to; the theory shows that no callback changes the
  command of an object that stays, so that what is started is what was scheduled.
\<close>

section \<open>Jobs\<close>

datatype 'f job =
    Command string string "string list" environment user_group int
  | Functor string 'f

text \<open>What an item stands for; \<open>None\<close> for an item that breaks the invariant.\<close>

definition job_of :: "completion procs \<Rightarrow> 'f item \<Rightarrow> 'f job option" where
  "job_of ps i =
     (case it_process i of
        None \<Rightarrow> map_option (Functor (it_name i)) (it_function i)
      | Some a \<Rightarrow>
          (case (mem ps a, it_timeout i) of
             (Some p, Some t) \<Rightarrow> Some (Command (it_name i) (p_program p) (p_args p) (p_env p) (p_user p) t)
           | _ \<Rightarrow> None))"

definition jobs_of :: "'f action_state \<Rightarrow> 'f job option list" where
  "jobs_of s = map (job_of (procs s)) (actions s)"

fun added_jobs :: "'f event \<Rightarrow> 'f job option list" where
  "added_jobs (Ev_command name program args env user timeout) = [Some (Command name program args env user timeout)]"
| "added_jobs (Ev_function name f) = [Some (Functor name f)]"
| "added_jobs e = []"

section \<open>Objects keep their command\<close>

definition command_of :: "'h impl \<Rightarrow> string \<times> string list \<times> environment \<times> user_group" where
  "command_of p = (p_program p, p_args p, p_env p, p_user p)"

lemma command_of_update [simp]:
  "command_of (p\<lparr>p_handler := h\<rparr>) = command_of p" "command_of (p\<lparr>p_next := n\<rparr>) = command_of p"
  "command_of (p\<lparr>p_pid := k\<rparr>) = command_of p"
  by (simp_all add: command_of_def)

text \<open>No object is new, and those that are left have the command they had.\<close>

definition keeps :: "'h procs \<Rightarrow> 'h procs \<Rightarrow> bool" where
  "keeps ps ps' \<longleftrightarrow> (\<forall>a p'. mem ps' a = Some p' \<longrightarrow> (\<exists>p. mem ps a = Some p \<and> command_of p' = command_of p))"

named_theorems kept "operations on process objects that keep the commands"

lemma keeps_same [kept]: "mem ps' = mem ps \<Longrightarrow> keeps ps ps'"
  by (simp add: keeps_def)

lemma keeps_trans: "keeps u v \<Longrightarrow> keeps v w \<Longrightarrow> keeps u w"
  unfolding keeps_def by metis

lemma keeps_store: "mem ps a = Some p \<Longrightarrow> command_of p' = command_of p \<Longrightarrow> keeps ps (store ps a p')"
  by (simp add: keeps_def store_def)

lemma keeps_kills [simp]:
  "keeps (ps\<lparr>kills := ks\<rparr>) ps' = keeps ps ps'" "store (ps\<lparr>kills := ks\<rparr>) a p = (store ps a p)\<lparr>kills := ks\<rparr>"
  by (simp_all add: keeps_def store_def)

lemma keeps_store_then:
  "keeps (store ps a p') ps' \<Longrightarrow> mem ps a = Some p \<Longrightarrow> command_of p' = command_of p \<Longrightarrow> keeps ps ps'"
  by (blast intro: keeps_trans keeps_store)

lemma deref_Val: "deref s a = Val p \<longleftrightarrow> mem s a = Some p"
  by (simp add: deref_def split: option.split)

lemma write_link_keeps [kept]: "write_link ps l v = Val ps' \<Longrightarrow> keeps ps ps'"
  by (cases l) (auto simp add: write_link_def bnd_Val_iff deref_Val intro: keeps_same keeps_store)

lemma list_add_keeps [kept]: "list_add ps a = Val ps' \<Longrightarrow> keeps ps ps'"
  by (auto simp add: list_add_def bnd_Val_iff deref_Val keeps_def store_def split: if_splits)

lemma remove_loop_keeps: "remove_loop nd ps a l = Some r \<Longrightarrow> r = Val ps' \<Longrightarrow> keeps ps ps'"
proof (induction rule: remove_loop.raw_induct [rotated, consumes 1, case_names step])
  case (step f nd ps a l r)
  then show ?case
    by (auto simp add: bnd_Val_iff split: res.splits option.splits if_splits intro: write_link_keeps)
qed

lemma list_remove_keeps [kept]: "list_remove nd ps a = Val ps' \<Longrightarrow> keeps ps ps'"
  by (auto simp add: list_remove_def returned_def split: option.splits intro: remove_loop_keeps)

lemma start_parent_keeps [kept]: "start_parent ps a h k = Val ps' \<Longrightarrow> keeps ps ps'"
  by (auto simp add: start_parent_def bnd_Val_iff deref_Val split: if_splits
      dest!: list_add_keeps elim!: keeps_store_then)

lemma terminate_keeps [kept]: "terminate nd ps a = Val ps' \<Longrightarrow> keeps ps ps'"
  by (auto simp add: terminate_def bnd_Val_iff send_signal_def intro: keeps_same)

lemma kill_process_keeps [kept]: "kill_process nd ps a = Val ps' \<Longrightarrow> keeps ps ps'"
  by (auto simp add: kill_process_def bnd_Val_iff deref_Val send_signal_def dest!: list_remove_keeps
      elim!: keeps_store_then)

lemma delete_process_keeps [kept]: "delete_process polls ps a = Val ps' \<Longrightarrow> keeps ps ps'"
  by (auto simp add: delete_process_def bnd_Val_iff deref_Val Let_def keeps_def split: if_splits)

lemma unlink_process_keeps [kept]: "unlink_process ps l a = Val (h, ps') \<Longrightarrow> keeps ps ps'"
  by (auto simp add: unlink_process_def bnd_Val_iff deref_Val dest!: write_link_keeps
      intro: keeps_trans [OF _ keeps_store])

section \<open>Callbacks only take jobs off the front\<close>

definition shrinks :: "'f action_state \<Rightarrow> 'f action_state \<Rightarrow> bool" where
  "shrinks s t \<longleftrightarrow> (\<exists>n. actions t = drop n (actions s)) \<and> keeps (procs s) (procs t)"

lemma shrinks_refl [simp]: "shrinks s s"
  by (auto simp add: shrinks_def intro: keeps_same exI [of _ 0])

lemma shrinks_trans: "shrinks s t \<Longrightarrow> shrinks t u \<Longrightarrow> shrinks s u"
  by (auto simp add: shrinks_def intro: keeps_trans)

lemma shrinks_procs: "keeps (procs s) (procs t) \<Longrightarrow> actions t = actions s \<Longrightarrow> shrinks s t"
  by (auto simp add: shrinks_def intro: exI [of _ 0])

lemma pop_front_shrinks: "pop_front polls s = Val t \<Longrightarrow> shrinks s t"
  by (auto simp add: pop_front_def shrinks_def bnd_Val_iff split: list.splits option.splits
      intro: kept exI [of _ 1])

lemma finish_shrinks: "finishExecuteAction polls s = Val t \<Longrightarrow> shrinks s t"
  by (auto simp add: finishExecuteAction_def bnd_Val_iff shrinks_def dest!: pop_front_shrinks)

lemma completion_shrinks: "run_completion w h error code s = Val t \<Longrightarrow> shrinks s t"
  by (auto simp add: run_completion_def Let_def add_failure_def shrinks_def split: if_splits dest!: finish_shrinks)

lemma child_signal_shrinks: "childSignal nd w ws s = Val t \<Longrightarrow> shrinks s t"
  unfolding childSignal_def
proof (induction ws arbitrary: s)
  case (Cons x ws)
  show ?case
  proof (cases "wait_failed x \<or> si_pid x = 0")
    case True
    with Cons.prems show ?thesis by (auto split: if_splits)
  next
    case False
    with Cons.prems obtain found where f: "find_process (procs s) (si_pid x) = Val found"
      by (auto simp add: bnd_Val_iff)
    show ?thesis
    proof (cases found)
      case None
      with False f Cons show ?thesis by simp
    next
      case (Some la)
      obtain l a where la: "la = (l, a)" by force
      from False f Some la Cons.prems obtain err code h ps s' where r: "unlink_process (procs s) l a = Val (Some h, ps)"
        "run_completion w h err code (s\<lparr>procs := ps\<rparr>) = Val s'"
        "on_sigchld nd procs (\<lambda>ps s. s\<lparr>procs := ps\<rparr>) (run_completion w) ws s' = Val t"
        by (auto simp add: bnd_Val_iff res_simps split: option.splits)
      have "shrinks s (s\<lparr>procs := ps\<rparr>)" using r(1) by (intro shrinks_procs) (auto intro: kept)
      with completion_shrinks [OF r(2)] Cons.IH [OF r(3)] show ?thesis by (blast intro: shrinks_trans)
    qed
  qed
qed simp

lemma noexcept_eq_Val: "noexcept r = Val x \<longleftrightarrow> r = Val x"
  by (cases r) simp_all

lemma execute_process_shrinks: "executeProcess w i a s = Val t \<Longrightarrow> shrinks s t"
  by (auto simp add: executeProcess_def bnd_Val_iff split: option.splits
      intro!: shrinks_procs dest!: start_parent_keeps)

lemma execute_function_shrinks: "executeFunction w f s = Val t \<Longrightarrow> shrinks s t"
  by (auto simp add: executeFunction_def Let_def add_failure_def shrinks_def split: option.splits dest!: finish_shrinks)

lemma exec_shrinks: "executeNextAction nd w s = Val t \<Longrightarrow> shrinks s t"
  by (auto simp add: executeNextAction_def noexcept_eq_Val bnd_Val_iff shrinks_def split: list.splits option.splits
      dest!: execute_process_shrinks execute_function_shrinks intro: keeps_same exI [of _ 0])

lemma timeout_shrinks: "terminateCurrentAction nd s = Val t \<Longrightarrow> shrinks s t"
  by (auto simp add: terminateCurrentAction_def noexcept_eq_Val bnd_Val_iff
      intro!: shrinks_procs dest!: terminate_keeps)

lemma kill_shrinks:
  assumes "killCurrentAction nd w s = Val t"
  shows "shrinks s t"
proof -
  from assms obtain a ps u where u: "kill_process nd (procs s) a = Val ps"
    "pop_front (reaped w) (s\<lparr>procs := ps\<rparr>) = Val u" "t = (if actions u \<noteq> [] then u\<lparr>execEv := True\<rparr> else u)"
    by (auto simp add: killCurrentAction_def noexcept_eq_Val bnd_Val_iff)
  have "shrinks s (s\<lparr>procs := ps\<rparr>)" using u(1) by (intro shrinks_procs) (auto intro: kept)
  moreover have "shrinks u t" using u(3) by (intro shrinks_procs) (auto intro: keeps_same)
  ultimately show ?thesis using pop_front_shrinks [OF u(2)] by (blast intro: shrinks_trans)
qed

fun appends_job :: "'f event \<Rightarrow> bool" where
  "appends_job (Ev_command name program args env user timeout) = True"
| "appends_job (Ev_function name f) = True"
| "appends_job e = False"

lemma callback_shrinks:
  assumes "run_event nd e s = Val t" and "\<not> appends_job e"
  shows "shrinks s t"
proof -
  have ev: "shrinks s (s\<lparr>execEv := x\<rparr>)" "shrinks s (s\<lparr>timeoutEv := y\<rparr>)" "shrinks s (s\<lparr>killEv := y\<rparr>)" for x y
    by (auto intro!: shrinks_procs keeps_same)
  show ?thesis
    using assms
    by (cases e) (auto intro: ev shrinks_trans [OF ev(1) exec_shrinks] shrinks_trans [OF ev(2) timeout_shrinks]
        shrinks_trans [OF ev(3) kill_shrinks] child_signal_shrinks)
qed

section \<open>First in, first out, with the whole job\<close>

definition queued_jobs :: "'f loop_state \<Rightarrow> 'f job option list" where
  "queued_jobs s = jobs_of (acts s)"

definition unstarted_jobs :: "'f loop_state \<Rightarrow> 'f job option list" where
  "unstarted_jobs s = (if busy (acts s) then tl (jobs_of (acts s)) else jobs_of (acts s))"

fun started_jobs :: "'f loop_state \<Rightarrow> 'f event \<Rightarrow> 'f job option list" where
  "started_jobs s (Ev_exec w) = take 1 (jobs_of (acts s))"
| "started_jobs s e = []"

fun ended_jobs :: "'f loop_state \<Rightarrow> 'f event \<Rightarrow> 'f job option list" where
  "ended_jobs s (Ev_exec w) = (if front_is_process (acts s) then [] else take 1 (jobs_of (acts s)))"
| "ended_jobs s (Ev_kill w) = take 1 (jobs_of (acts s))"
| "ended_jobs s (Ev_sigchld w ws) =
     (if busy (acts s) \<and> front_pid (acts s) \<in> si_pid ` set ws then take 1 (jobs_of (acts s)) else [])"
| "ended_jobs s e = []"

lemma length_jobs [simp]: "length (jobs_of s) = length (names s)"
  by (simp add: jobs_of_def names_def)

lemma front_jobs [simp]: "take (min (length (names s)) (Suc 0)) (jobs_of s) = take (Suc 0) (jobs_of s)"
  using length_jobs [of s] by (cases "jobs_of s") (simp_all del: length_jobs)

lemma jobs_report_like_names:
  "ended_jobs s e = take (length (ended s e)) (jobs_of (acts s))"
  "started_jobs s e = take (length (started s e)) (jobs_of (acts s))"
  "length (added_jobs e) = length (added e)"
proof -
  show "length (added_jobs e) = length (added e)" by (cases e) simp_all
  show "ended_jobs s e = take (length (ended s e)) (jobs_of (acts s))"
    by (cases e) (simp_all add: front_names_def)
  show "started_jobs s e = take (length (started s e)) (jobs_of (acts s))"
    by (cases e) (simp_all add: front_names_def)
qed

lemma unstarted_drop: "unstarted_jobs s = drop (if busy (acts s) then 1 else 0) (jobs_of (acts s))"
  by (simp add: unstarted_jobs_def drop_Suc)

lemma owned_item: "i \<in> set is \<Longrightarrow> it_process i = Some a \<Longrightarrow> a \<in> set (owned is)"
  by (induction "is") auto

text \<open>A callback that takes items off the front leaves the other jobs as they are.\<close>

lemma shrinks_jobs:
  assumes "shrinks s t" and "loop_inv \<lparr>acts = t, kids = K\<rparr>"
  shows "jobs_of t = drop (length (names s) - length (names t)) (jobs_of s)"
proof -
  from assms(1) obtain n where n: "actions t = drop n (actions s)" and k: "keeps (procs s) (procs t)"
    by (auto simp add: shrinks_def)
  have "job_of (procs t) i = job_of (procs s) i" if "i \<in> set (actions t)" for i
  proof (cases "it_process i")
    case None
    then show ?thesis by (simp add: job_of_def)
  next
    case (Some a)
    with that have "a \<in> set (owned (actions t))" by (rule owned_item)
    with assms(2) owned_live [of t K a] obtain p' where p': "mem (procs t) a = Some p'"
      by (auto simp add: loop_inv_def)
    with k obtain p where "mem (procs s) a = Some p" "command_of p' = command_of p"
      by (auto simp add: keeps_def)
    with p' Some show ?thesis by (simp add: job_of_def command_of_def split: option.split)
  qed
  then have "jobs_of t = map (job_of (procs s)) (drop n (actions s))" by (simp add: jobs_of_def n)
  also have "drop n (actions s) = drop (length (names s) - length (names t)) (actions s)"
    by (cases "n \<le> length (actions s)") (simp_all add: n names_def)
  finally show ?thesis by (simp add: jobs_of_def drop_map)
qed

lemma job_of_new_object:
  assumes "loop_inv s" and "i \<in> set (actions (acts s))"
  shows "job_of ((procs (acts s))\<lparr>brk := b, mem := (mem (procs (acts s)))(brk (procs (acts s)) \<mapsto> p)\<rparr>) i
     = job_of (procs (acts s)) i"
proof (cases "it_process i")
  case None
  then show ?thesis by (simp add: job_of_def)
next
  case (Some a)
  with assms(2) have "a \<in> set (owned (actions (acts s)))" by (rule owned_item)
  with assms(1) owned_live [of "acts s" "kids s" a] have "a \<noteq> brk (procs (acts s))"
    by (fastforce simp add: loop_inv_def)
  with Some show ?thesis by (simp add: job_of_def)
qed

lemma append_jobs:
  assumes "loop_inv s" and "appends_job e" and "run_event nd e (acts s) = Val t"
  shows "jobs_of t = jobs_of (acts s) @ added_jobs e"
  using assms job_of_new_object [OF assms(1)]
  by (cases e) (auto simp add: schedule_command_eq append_process_def append_function_def append_item_def
      jobs_of_def Let_def job_of_def [of _ "\<lparr>it_name = _, it_function = _, it_process = _, it_timeout = _\<rparr>"] fresh_impl_def)

lemma busy_length: "loop_inv s \<Longrightarrow> (if busy (acts s) then 1 else 0) \<le> length (names (acts s))"
  using busy_names [of s] by (auto simp add: Suc_le_eq)

lemma loop_step_jobs:
  assumes "loop_inv s" and "loop_step nd s e t"
  shows "queued_jobs s @ added_jobs e = ended_jobs s e @ queued_jobs t"
    and "unstarted_jobs s @ added_jobs e = started_jobs s e @ unstarted_jobs t"
proof -
  note eff = loop_step_effect [OF assms]
  let ?J = "jobs_of (acts s) @ added_jobs e"
  have q: "length (names (acts s)) + length (added e) = length (ended s e) + length (names (acts t))"
    using arg_cong [OF eff(2), of length] by (simp add: queued_def)
  have t: "jobs_of (acts t) = drop (length (ended s e)) ?J"
  proof (cases "appends_job e")
    case True
    with assms have "jobs_of (acts t) = ?J" by (auto simp add: loop_step_iff intro: append_jobs)
    moreover have "ended s e = []" using True by (cases e) simp_all
    ultimately show ?thesis by simp
  next
    case False
    with assms(2) have "shrinks (acts s) (acts t)" by (auto simp add: loop_step_iff intro: callback_shrinks)
    moreover have "loop_inv \<lparr>acts = acts t, kids = kids t\<rparr>" using eff(1) by (cases t) simp
    moreover have "added_jobs e = []" "added e = []" using False by (cases e; simp)+
    ultimately show ?thesis using q by (simp add: shrinks_jobs)
  qed
  have e: "length (ended s e) \<le> length (names (acts s))"
    using q jobs_report_like_names(3) [of e] by (cases e) (auto simp add: front_names_def)
  with t show "queued_jobs s @ added_jobs e = ended_jobs s e @ queued_jobs t"
    by (simp add: queued_jobs_def jobs_report_like_names(1))
  show "unstarted_jobs s @ added_jobs e = started_jobs s e @ unstarted_jobs t"
  proof -
    let ?b = "if busy (acts s) then 1 else (0::nat)" and ?b' = "if busy (acts t) then 1 else (0::nat)"
    have b: "?b \<le> length (names (acts s))" "?b' \<le> length (names (acts t))"
      by (rule busy_length [OF assms(1)], rule busy_length [OF eff(1)])
    have "length (names (acts s)) - ?b + length (added e) = length (started s e) + (length (names (acts t)) - ?b')"
      using arg_cong [OF eff(3), of length] by (simp add: unstarted_def split: if_splits)
    with q b have k: "?b + length (started s e) = length (ended s e) + ?b'" by linarith
    have "unstarted_jobs s @ added_jobs e = drop ?b ?J"
      using b(1) by (simp add: unstarted_drop)
    moreover have "unstarted_jobs t = drop (length (started s e)) (drop ?b ?J)"
      unfolding unstarted_drop t drop_drop using k by (simp only: add.commute)
    moreover have "started_jobs s e = take (length (started s e)) (drop ?b ?J)"
    proof (cases "started s e = []")
      case True
      then show ?thesis by (simp add: jobs_report_like_names(2))
    next
      case False
      then obtain w where w: "e = Ev_exec w" by (cases e) simp_all
      with assms(2) waiting_or_running(1) [OF assms(1)] have "\<not> busy (acts s)"
        by (auto simp add: loop_step_iff waiting_def busy_def)
      with False w show ?thesis by (simp add: jobs_report_like_names(2) front_names_def)
    qed
    ultimately show ?thesis by (simp only: append_take_drop_id)
  qed
qed

interpretation jobs_starting: fifo_log "loop_step nd" loop_inv unstarted_jobs added_jobs started_jobs for nd
  by unfold_locales (erule (1) loop_step_effect(1), erule (1) loop_step_jobs(2))

interpretation jobs_ending: fifo_log "loop_step nd" loop_inv queued_jobs added_jobs ended_jobs for nd
  by unfold_locales (erule (1) loop_step_effect(1), erule (1) loop_step_jobs(1))

lemma traced_loop_run_ex: "loop_run nd s es t \<Longrightarrow> \<exists>ns. traced (loop_step nd) report s es ns t"
  by (induction rule: loop_run.induct) (auto intro: traced.intros)

text \<open>Events of libevent add no job: a run of them that empties the queue has started what was waiting.\<close>

lemma drained_jobs_started:
  assumes "traced (loop_step nd) started_jobs s es js t" and "loop_inv s"
    and "\<forall>e\<in>set es. \<not> appends_job e" and "names (acts t) = []"
  shows "js = unstarted_jobs s"
proof -
  have "\<not> appends_job e \<Longrightarrow> added_jobs e = []" for e :: "'a event" by (cases e) simp_all
  with assms(3) have "added_jobs e = []" if "e \<in> set es" for e using that by blast
  then have none: "concat (map added_jobs es) = []" by simp
  have "jobs_of (acts t) = []" using assms(4) by (simp add: jobs_of_def names_def)
  then have "unstarted_jobs t = []" by (simp add: unstarted_jobs_def)
  with jobs_starting.leaves_in_order [OF assms(1,2)] show ?thesis unfolding none by simp
qed

end
