(* ===== verification/Action_Facts.thy ===== *)
theory Action_Facts
  imports Job_Queue
begin

text \<open>
  The properties of the command scheduler (\<open>src/action_list.cpp\<close> with \<open>src/process.cpp\<close>), each proved
  for every state the event loop can reach from the start, with a concrete run as its witness.
\<close>

section \<open>Concrete runs\<close>

text \<open>
  One command with a one-second timeout, forked as process 100; a functor behind it. The state after
  the first two or four events is used by the witnesses.
\<close>

definition example_outside :: "unit outside" where
  "example_outside = \<lparr>fork_result = 100, thrown_by = (\<lambda>_. None), now = 7, reaped = (\<lambda>_. False)\<rparr>"

definition example_start :: "unit event list" where
  "example_start =
     [Ev_command ''deploy'' ''/bin/true'' [] [] null_user_group 1, Ev_function ''debug'' (),
      Ev_exec example_outside]"

definition example_running :: "unit loop_state" where
  "example_running = the (run_events False example_start initial_loop)"

lemmas run_defs =
  schedule_command_eq append_process_def append_function_def append_item_def Let_def
  initial_loop_def initial_actions_def empty_procs_def fresh_impl_def
  executeNextAction_def executeProcess_def executeFunction_def finishExecuteAction_def
  start_parent_def deref_def list_add_def store_def front_is_process_def
  terminateCurrentAction_def terminate_def front_process_def send_signal_def

lemma example_running_run: "loop_run False initial_loop example_start example_running"
proof -
  have "run_events False example_start initial_loop \<noteq> None"
    by (simp add: example_start_def example_outside_def run_defs)
  then have "run_events False example_start initial_loop = Some example_running"
    by (auto simp add: example_running_def)
  then show ?thesis by (rule run_events_loop_run)
qed

lemma example_running_state:
  "busy (acts example_running)" "names (acts example_running) = [''deploy'', ''debug'']"
  "timeoutEv (acts example_running) = Some 1" "front_pid (acts example_running) = 100"
  "kids example_running = {100}" "actionsFailed (acts example_running) = 0"
  by (simp_all add: example_running_def example_start_def example_outside_def run_defs
      busy_def names_def front_pid_def pid_at_def)

section \<open>Safety of the callbacks\<close>

text \<open>
  No callback of the action list ever fails: from every reachable state of the event loop each
  event that can fire runs to its end, with all its assertions true and no null or freed pointer
  used. The one exception is a failing \<open>fork\<close>, whose exception leaves the \<open>noexcept\<close> callback.
\<close>

theorem callbacks_never_fail:
  assumes "loop_run nd initial_loop es s" and "enabled e s"
  shows "(\<exists>t. loop_step nd s e t)
     \<or> (\<exists>w. e = Ev_exec w \<and> fork_result w = - 1 \<and> front_is_process (acts s)
          \<and> run_event nd e (acts s) = Abort Std_terminate)"
proof -
  have "loop_inv s" using assms(1) initial_loop_inv by (rule loop_run_inv)
  from enabled_event_runs [OF this assms(2), of nd] assms(2) show ?thesis
    by (auto simp add: loop_step_iff)
qed

theorem callbacks_never_fail_witness:
  "enabled Ev_timeout example_running \<and> (\<exists>t. loop_step False example_running Ev_timeout t)"
  using callbacks_never_fail [OF example_running_run, of Ev_timeout] example_running_state by simp

text \<open>
  (C32) A failing \<open>fork\<close> takes the whole server down: whenever a command is due and \<open>fork\<close> returns -1,
  the exception of \<open>process::start\<close> meets the \<open>noexcept\<close> callback and \<open>std::terminate\<close> is called.
\<close>

theorem fork_failure_terminates_server:
  assumes "loop_run nd initial_loop es s" and "execEv (acts s)" and "front_is_process (acts s)"
    and "fork_result w = - 1"
  shows "run_event nd (Ev_exec w) (acts s) = Abort Std_terminate"
proof -
  have inv: "loop_inv s" using assms(1) initial_loop_inv by (rule loop_run_inv)
  from assms(3) obtain i js a where i: "actions (acts s) = i # js" "it_process i = Some a"
    by (auto simp add: front_is_process_def split: list.splits)
  with inv obtain t where t: "it_timeout i = Some t" by (auto simp add: loop_inv_def item_ok_def)
  from inv assms(2) i obtain p where "mem (procs (acts s)) a = Some p"
    using owned_live [of "acts s" "kids s" a] by (auto simp add: loop_inv_def)
  with i t assms(4) show ?thesis
    by (simp add: exec_process_eq [of "(acts s)\<lparr>execEv := False\<rparr>" i js a t p])
qed

theorem fork_failure_terminates_server_witness:
  "\<exists>s. loop_run False initial_loop [Ev_command ''deploy'' ''/bin/true'' [] [] null_user_group 1] s
     \<and> run_event False (Ev_exec (example_outside\<lparr>fork_result := - 1\<rparr>)) (acts s) = Abort Std_terminate"
proof -
  let ?es = "[Ev_command ''deploy'' ''/bin/true'' [] [] null_user_group 1] :: unit event list"
  obtain s where s: "run_events False ?es initial_loop = Some s"
    and e: "execEv (acts s)" "front_is_process (acts s)"
    by (simp add: run_defs)
  from run_events_loop_run [OF s] fork_failure_terminates_server [OF run_events_loop_run [OF s] e]
  show ?thesis by auto
qed

section \<open>Order and exclusion\<close>

text \<open>
  Hooks are started in the order in which they were appended, each at most once: over any run
  of the event loop the names started so far, followed by the names still waiting, are exactly the
  names appended.
\<close>

theorem hooks_start_in_order:
  assumes "traced (loop_step nd) started initial_loop es ns t"
  shows "concat (map added es) = ns @ unstarted t"
  using starting.leaves_in_order [OF assms initial_loop_inv] by simp

lemma traced_run_events:
  assumes "run_events nd es s = Some t"
  shows "\<exists>ns. traced (loop_step nd) report s es ns t"
proof -
  have "loop_run nd s es t" using assms by (rule run_events_loop_run)
  then show ?thesis by (induction rule: loop_run.induct) (auto intro: traced.intros)
qed

theorem hooks_start_in_order_witness:
  "\<exists>ns. traced (loop_step False) started initial_loop example_start ns example_running
     \<and> [''deploy'', ''debug''] = ns @ unstarted example_running \<and> ns = [''deploy'']"
proof -
  obtain ns where ns: "traced (loop_step False) started initial_loop example_start ns example_running"
    using traced_loop_run_ex [OF example_running_run] by blast
  from hooks_start_in_order [OF ns] have "[''deploy'', ''debug''] = ns @ [''debug'']"
    by (simp add: example_start_def unstarted_def example_running_state)
  with ns hooks_start_in_order [OF ns] show ?thesis
    by (intro exI [of _ ns]) (auto simp add: example_start_def)
qed

text \<open>
  What is started is what was scheduled: over any run of the event loop the jobs started so far,
  followed by the jobs still waiting, are exactly the jobs appended, in this order and each once, with
  the program, arguments, environment, user and timeout they were appended with, although these lie in
  objects on the heap that the callbacks write to.
\<close>

theorem jobs_start_as_scheduled:
  assumes "traced (loop_step nd) started_jobs initial_loop es js t"
  shows "concat (map added_jobs es) = js @ unstarted_jobs t"
  using jobs_starting.leaves_in_order [OF assms initial_loop_inv]
  by (simp add: unstarted_jobs_def jobs_of_def initial_loop_def initial_actions_def busy_def)

theorem jobs_start_as_scheduled_witness:
  "\<exists>js. traced (loop_step False) started_jobs initial_loop example_start js example_running
     \<and> js = [Some (Command ''deploy'' ''/bin/true'' [] [] null_user_group 1)]
     \<and> unstarted_jobs example_running = [Some (Functor ''debug'' ())]"
proof -
  obtain js where js: "traced (loop_step False) started_jobs initial_loop example_start js example_running"
    using traced_loop_run_ex [OF example_running_run] by blast
  have "concat (map added_jobs example_start)
      = [Some (Command ''deploy'' ''/bin/true'' [] [] null_user_group 1), Some (Functor ''debug'' ())]"
    by (simp add: example_start_def)
  moreover have "length (unstarted_jobs example_running) = 1"
    using example_running_state by (simp add: unstarted_jobs_def)
  ultimately show ?thesis
    using js jobs_start_as_scheduled [OF js] by (cases "unstarted_jobs example_running") (auto simp add: append_eq_Cons_conv)
qed

text \<open>
  (C10) Commands are not executed concurrently: at any time the hooks started are the hooks that have
  ended, in the same order, plus at most one more, the one whose timers are pending.
\<close>

theorem hooks_never_overlap:
  assumes "traced (loop_step nd) started initial_loop es ns t"
    and "traced (loop_step nd) ended initial_loop es ms t"
  shows "ns = ms \<and> \<not> busy (acts t)
     \<or> (\<exists>name. ns = ms @ [name] \<and> busy (acts t) \<and> hd (names (acts t)) = name)"
proof -
  have inv: "loop_inv t" using assms(1) initial_loop_inv by (rule starting.traced_inv)
  show ?thesis
    using started_ended [OF assms] busy_names [OF inv]
    by (cases "names (acts t)") (auto simp add: front_names_def)
qed

theorem hooks_never_overlap_witness:
  "\<exists>ns ms. traced (loop_step False) started initial_loop example_start ns example_running
     \<and> traced (loop_step False) ended initial_loop example_start ms example_running
     \<and> ns = ms @ [''deploy'']"
proof -
  obtain ns ms where t: "traced (loop_step False) started initial_loop example_start ns example_running"
    "traced (loop_step False) ended initial_loop example_start ms example_running"
    using traced_loop_run_ex [OF example_running_run] by meson
  from hooks_never_overlap [OF t] have "ns = ms @ [''deploy'']"
    by (simp add: example_running_state)
  with t show ?thesis by blast
qed

text \<open>
  A command that never ends cannot block the queue: from every reachable state with something
  queued, the exec event and the two timers alone remove the hook in front, in at most three
  callbacks, provided \<open>fork\<close> gives a process if one is needed.
\<close>

theorem queue_never_blocked:
  assumes "loop_run nd initial_loop es s" and "names (acts s) \<noteq> []"
    and "0 < fork_result w" and "fork_result w \<notin> kids s"
  shows "\<exists>fs t. set fs \<subseteq> {Ev_exec w, Ev_timeout, Ev_kill w} \<and> length fs \<le> 3
     \<and> loop_run nd s fs t \<and> names (acts t) = tl (names (acts s))"
  using loop_run_inv [OF assms(1) initial_loop_inv] assms(2-4) by (rule front_drains)

theorem queue_never_blocked_witness:
  "\<exists>fs t. length fs \<le> 3 \<and> loop_run False example_running fs t \<and> names (acts t) = [''debug'']"
  using queue_never_blocked [OF example_running_run, of "example_outside\<lparr>fork_result := 101\<rparr>"]
  by (auto simp add: example_running_state)

section \<open>Signals\<close>

text \<open>
  (C20) The callbacks of the event loop send signals to our own child only: whatever a step of the loop sends
  with \<open>::kill\<close>, its pid is positive (never -1, which would signal every process) and that of a child
  which has not been reaped, so it cannot name a foreign process. The signals that the destructor of a
  process sends at the end of a pass are not steps of the loop.
\<close>

theorem signals_only_to_children:
  assumes "loop_run nd initial_loop es s" and "loop_step nd s e t"
  shows "\<exists>new. kills (procs (acts t)) = kills (procs (acts s)) @ new
     \<and> (\<forall>(pid, sig)\<in>set new. 0 < pid \<and> pid \<in> kids s)"
proof -
  have inv: "loop_inv s" using assms(1) initial_loop_inv by (rule loop_run_inv)
  then have "\<forall>k\<in>kids s. 0 < k" by (simp add: loop_inv_def)
  with loop_step_effect(4,5) [OF inv assms(2)] show ?thesis by force
qed

theorem signals_only_to_children_witness:
  "\<exists>t. loop_step False example_running Ev_timeout t
     \<and> kills (procs (acts t)) = kills (procs (acts example_running)) @ [(100, SIGTERM)]
     \<and> (\<exists>new. kills (procs (acts t)) = kills (procs (acts example_running)) @ new
          \<and> (\<forall>(pid, sig)\<in>set new. 0 < pid \<and> pid \<in> kids example_running))"
proof -
  have inv: "loop_inv example_running"
    using example_running_run initial_loop_inv by (rule loop_run_inv)
  obtain t where t: "loop_step False example_running Ev_timeout t"
    using step_timeout [OF inv, of False] example_running_state(3) by auto
  show ?thesis
    using t signals_only_to_children [OF example_running_run t] loop_step_effect(4) [OF inv t]
    by (auto simp add: example_running_state)
qed

section \<open>Counting failures\<close>

lemma running_command_ends:
  assumes inv: "loop_inv s" and b: "busy (acts s)" and x: "si_pid x = front_pid (acts s)"
    "\<not> wait_failed x" and e: "exit_result nd x = Val (err, code)"
  shows "\<exists>a. front_pid (acts s) \<in> kids s \<and> childSignal nd w [x] (acts s)
     = Val (if error_bool err \<or> code \<noteq> 0 then add_failure (now w) (drop_front a (acts s))
            else drop_front a (acts s))"
proof -
  from inv b have "running (kids s) (acts s)"
    by (auto simp add: busy_def intro: waiting_or_running)
  then obtain i js a p where r: "\<not> execEv (acts s)" "(timeoutEv (acts s) = None) \<noteq> (killEv (acts s) = None)"
    "actions (acts s) = i # js" "it_process i = Some a" "mem (procs (acts s)) a = Some p" "p_pid p \<in> kids s"
    "p_handler p = Some Completion" "mProcesses (procs (acts s)) = Some a" "p_next p = None"
    "\<forall>b\<in>set (owned js). idle_object (procs (acts s)) b"
    by (rule runningE)
  have pl: "plist (procs (acts s)) [a]" using r by simp
  have pid: "p_pid p = si_pid x" using r x by (simp add: front_pid_def pid_at_def)
  then have f: "find_process (procs (acts s)) (si_pid x) = Val (Some (Head, a))"
    using find_process_plist [OF pl] r(5) by (simp add: pid_at_def link_after_def)
  have "si_pid x \<noteq> 0" using inv r(6) pid by (auto simp add: loop_inv_def)
  with x f e completion_eq [OF r(3,4,5,8,9,1,7)] r pid show ?thesis
    by (intro exI [of _ a]) (simp add: childSignal_def front_pid_def pid_at_def)
qed

text \<open>
  (C34) When the running command ends, the hook leaves the queue, and it is counted as failed exactly if
  the status reported for it is not 0: so, the numbers of signals being positive, exactly if it exited
  with a non-zero code or was killed by a signal.
\<close>

theorem completion_counts_failures:
  assumes "loop_run nd initial_loop es s" and "busy (acts s)" and "si_pid x = front_pid (acts s)"
    and "\<not> wait_failed x" and "si_code x \<noteq> CLD_other"
  shows "\<exists>t. loop_step nd s (Ev_sigchld w [x]) t \<and> names (acts t) = tl (names (acts s))
     \<and> actionsFailed (acts t) = actionsFailed (acts s) + (if si_status x = 0 then 0 else 1)
     \<and> (si_code x = CLD_EXITED \<or> 0 < si_status x \<longrightarrow> actionsFailed (acts t) = actionsFailed (acts s)
          + (if si_code x = CLD_EXITED \<and> si_status x = 0 then 0 else 1))"
proof -
  have inv: "loop_inv s" using assms(1) initial_loop_inv by (rule loop_run_inv)
  obtain err code where e: "exit_result nd x = Val (err, code)"
    "(error_bool err \<or> code \<noteq> 0) = (si_status x \<noteq> 0)"
    using assms(5) by (cases "si_code x") (auto simp add: exit_result_def)
  from running_command_ends [OF inv assms(2,3,4) e(1), of w] obtain a where "front_pid (acts s) \<in> kids s"
    "childSignal nd w [x] (acts s) = Val (if error_bool err \<or> code \<noteq> 0
       then add_failure (now w) (drop_front a (acts s)) else drop_front a (acts s))" by blast
  with assms(3,4,5) e(2) show ?thesis
    by (auto simp add: loop_step_iff names_def drop_front_def add_failure_def map_tl)
qed

theorem completion_counts_failures_witness:
  "\<exists>t. loop_step False example_running (Ev_sigchld example_outside
        [\<lparr>wait_failed = False, si_pid = 100, si_code = CLD_EXITED, si_status = 3\<rparr>]) t
     \<and> names (acts t) = [''debug''] \<and> actionsFailed (acts t) = 1"
  using completion_counts_failures [OF example_running_run,
      of "\<lparr>wait_failed = False, si_pid = 100, si_code = CLD_EXITED, si_status = 3\<rparr>" example_outside]
  by (auto simp add: example_running_state)

lemma pop_front_frame:
  "pop_front polls s = Val t \<Longrightarrow> actionsFailed t = actionsFailed s \<and> actionFailTm t = actionFailTm s"
  by (auto simp add: pop_front_def res_simps split: list.splits option.splits)

text \<open>
  (C35) A command that has to be killed is not counted as failed: the kill timer ends the hook, but
  leaves the number of failed hooks and the time of the last failure as they were.
\<close>

theorem killed_command_not_counted:
  assumes "loop_run nd initial_loop es s" and "loop_step nd s (Ev_kill w) t"
  shows "names (acts s) = hd (names (acts s)) # names (acts t)
     \<and> actionsFailed (acts t) = actionsFailed (acts s)
     \<and> actionFailTm (acts t) = actionFailTm (acts s)"
proof -
  have inv: "loop_inv s" using assms(1) initial_loop_inv by (rule loop_run_inv)
  from assms(2) have en: "enabled (Ev_kill w) s" and run: "run_event nd (Ev_kill w) (acts s) = Val (acts t)"
    by (auto simp add: loop_step_iff)
  from kill_step_inv [OF inv en, of nd] run have "names (acts t) = tl (names (acts s))" "names (acts s) \<noteq> []"
    by (auto simp add: effect_def)
  moreover have "actionsFailed (acts t) = actionsFailed (acts s) \<and> actionFailTm (acts t) = actionFailTm (acts s)"
  proof -
    from run obtain ps u where "pop_front (reaped w) ((acts s)\<lparr>killEv := None, procs := ps\<rparr>) = Val u"
      and "acts t = (if actions u \<noteq> [] then u\<lparr>execEv := True\<rparr> else u)"
      by (force simp add: killCurrentAction_def res_simps)
    then show ?thesis using pop_front_frame by fastforce
  qed
  ultimately show ?thesis by (metis list.collapse)
qed

definition example_timed_out :: "unit loop_state" where
  "example_timed_out = the (run_events False (example_start @ [Ev_timeout]) initial_loop)"

lemma example_timed_out_run: "loop_run False initial_loop (example_start @ [Ev_timeout]) example_timed_out"
proof -
  have "run_events False (example_start @ [Ev_timeout]) initial_loop \<noteq> None"
    by (simp add: example_start_def example_outside_def run_defs)
  then have "run_events False (example_start @ [Ev_timeout]) initial_loop = Some example_timed_out"
    by (auto simp add: example_timed_out_def)
  then show ?thesis by (rule run_events_loop_run)
qed

lemma example_timed_out_state:
  "names (acts example_timed_out) = [''deploy'', ''debug'']" "killEv (acts example_timed_out) = Some 1"
  "actionsFailed (acts example_timed_out) = 0"
  by (simp_all add: example_timed_out_def example_start_def example_outside_def run_defs names_def)

theorem killed_command_not_counted_witness:
  "\<exists>t. loop_step False example_timed_out (Ev_kill example_outside) t
     \<and> names (acts t) = [''debug''] \<and> actionsFailed (acts t) = 0"
proof -
  have inv: "loop_inv example_timed_out"
    using example_timed_out_run initial_loop_inv by (rule loop_run_inv)
  obtain t where t: "loop_step False example_timed_out (Ev_kill example_outside) t"
    using step_kill [OF inv, of False example_outside] by (auto simp add: example_timed_out_state)
  show ?thesis
    using t killed_command_not_counted [OF example_timed_out_run t]
    by (auto simp add: example_timed_out_state)
qed

section \<open>Destruction while a command runs\<close>

text \<open>
  The destructor of the action list deletes the objects of its items and leaves the process list as it is.
\<close>

lemma delete_items_spec:
  assumes "\<forall>a\<in>set (owned js). mem ps a \<noteq> None" and "distinct (owned js)"
  shows "\<exists>ps'. delete_items polls js ps = Val ps' \<and> mProcesses ps' = mProcesses ps \<and> brk ps' = brk ps
     \<and> (\<forall>a. mem ps' a = (if a \<in> set (owned js) then None else mem ps a))"
  using assms
proof (induction js arbitrary: ps)
  case Nil
  then show ?case by simp
next
  case (Cons i js)
  show ?case
  proof (cases "it_process i")
    case None
    with Cons show ?thesis by simp
  next
    case (Some a)
    with Cons.prems obtain p where p: "mem ps a = Some p" by auto
    define ps1 where "ps1 = (if p_pid p = - 1 then ps
      else ps\<lparr>kills := kills ps @ (p_pid p, SIGTERM) # dtor_loop polls (p_pid p) [0..<6]\<rparr>)"
    have del: "delete_process polls ps a = Val (ps1\<lparr>mem := (mem ps1)(a := None)\<rparr>)"
      using p by (simp add: delete_process_def deref_def ps1_def Let_def del: upt.simps)
    have same: "mem ps1 = mem ps" "mProcesses ps1 = mProcesses ps" "brk ps1 = brk ps" by (simp_all add: ps1_def)
    have "a \<notin> set (owned js)" using Cons.prems Some by simp
    then have "\<forall>b\<in>set (owned js). mem (ps1\<lparr>mem := (mem ps1)(a := None)\<rparr>) b \<noteq> None"
      using Cons.prems Some same by auto
    from Cons.IH [OF this] Cons.prems Some same
    obtain ps' where "delete_items polls js (ps1\<lparr>mem := (mem ps1)(a := None)\<rparr>) = Val ps'"
      "mProcesses ps' = mProcesses ps" "brk ps' = brk ps"
      "\<forall>b. mem ps' b = (if b \<in> set (owned js) then None else ((mem ps)(a := None)) b)"
      by auto
    with Some del show ?thesis by (intro exI [of _ ps']) auto
  qed
qed

lemma destroy_actions_spec:
  assumes "loop_inv \<lparr>acts = s, kids = K\<rparr>"
  shows "\<exists>ps. destroy_actions polls s =
       Val (s\<lparr>procs := ps, actions := [], execEv := False, timeoutEv := None, killEv := None\<rparr>)
     \<and> mProcesses ps = mProcesses (procs s) \<and> brk ps = brk (procs s)
     \<and> (\<forall>a. mem ps a = (if a \<in> set (owned (actions s)) then None else mem (procs s) a))"
proof -
  have "\<forall>a\<in>set (owned (actions s)). mem (procs s) a \<noteq> None" and "distinct (owned (actions s))"
    using assms owned_live [of s K] by (auto simp add: loop_inv_def)
  from delete_items_spec [OF this, of polls] obtain ps where
    "delete_items polls (actions s) (procs s) = Val ps" "mProcesses ps = mProcesses (procs s)"
    "brk ps = brk (procs s)" "\<forall>a. mem ps a = (if a \<in> set (owned (actions s)) then None else mem (procs s) a)"
    by (elim exE conjE) (rule that)
  then show ?thesis by (intro exI [of _ ps]) (simp add: destroy_actions_def)
qed

text \<open>The process list is empty exactly while no command runs.\<close>

lemma process_list_busy:
  assumes "loop_inv \<lparr>acts = s, kids = K\<rparr>"
  shows "mProcesses (procs s) = None \<longleftrightarrow> \<not> busy s"
  using assms
  by (auto simp add: loop_inv_def waiting_def running_def busy_def)

text \<open>With a freed object at the head of the list, every reported child is fatal.\<close>

lemma dangling_child_signal:
  assumes "mProcesses (procs t) = Some a" and "mem (procs t) a = None" and "\<not> wait_failed x" and "si_pid x \<noteq> 0"
  shows "childSignal nd w (x # xs) t = Abort Undefined_behaviour"
proof -
  have "find_process (procs t) k = Abort Undefined_behaviour" for k
    using assms(1,2) by (simp add: find_process_def find_loop.simps [of _ k Head] read_link_def)
  with assms(3,4) show ?thesis by (simp add: childSignal_def)
qed

text \<open>
  Reloading or quitting while a command runs leaves a dangling pointer: the destructor frees the
  running process object but not its entry in the static process list, so the next child reported
  by \<open>waitid\<close> makes \<open>onSigchld\<close> read freed memory.
\<close>

theorem destruction_leaves_dangling_process:
  assumes "loop_run nd initial_loop es s" and "busy (acts s)"
  shows "\<exists>t a. destroy_actions polls (acts s) = Val t \<and> mProcesses (procs t) = Some a
     \<and> mem (procs t) a = None
     \<and> (\<forall>w x xs. \<not> wait_failed x \<longrightarrow> si_pid x \<noteq> 0 \<longrightarrow>
          childSignal nd w (x # xs) t = Abort Undefined_behaviour)"
proof -
  have inv: "loop_inv s" using assms(1) initial_loop_inv by (rule loop_run_inv)
  with assms(2) have "running (kids s) (acts s)"
    by (auto simp add: busy_def intro: waiting_or_running)
  then obtain i js a where r: "actions (acts s) = i # js" "it_process i = Some a"
    "mProcesses (procs (acts s)) = Some a" by (rule runningE)
  from inv have "loop_inv \<lparr>acts = acts s, kids = kids s\<rparr>" by (cases s) simp
  from destroy_actions_spec [OF this, of polls] obtain ps where
    t: "destroy_actions polls (acts s) =
       Val ((acts s)\<lparr>procs := ps, actions := [], execEv := False, timeoutEv := None, killEv := None\<rparr>)"
    and ps: "mProcesses ps = mProcesses (procs (acts s))"
      "\<forall>b. mem ps b = (if b \<in> set (owned (actions (acts s))) then None else mem (procs (acts s)) b)"
    by (elim exE conjE) (rule that)
  let ?t = "(acts s)\<lparr>procs := ps, actions := [], execEv := False, timeoutEv := None, killEv := None\<rparr>"
  have m: "mProcesses (procs ?t) = Some a" "mem (procs ?t) a = None"
    using ps r by simp_all
  then have "\<forall>w x xs. \<not> wait_failed x \<longrightarrow> si_pid x \<noteq> 0 \<longrightarrow>
      childSignal nd w (x # xs) ?t = Abort Undefined_behaviour"
    by (blast intro: dangling_child_signal)
  with t m show ?thesis by blast
qed

theorem destruction_leaves_dangling_process_witness:
  "\<exists>t. destroy_actions (\<lambda>i. i = 2) (acts example_running) = Val t
     \<and> childSignal False example_outside
         [\<lparr>wait_failed = False, si_pid = 200, si_code = CLD_EXITED, si_status = 0\<rparr>] t
       = Abort Undefined_behaviour"
  using destruction_leaves_dangling_process [OF example_running_run, of "\<lambda>i. i = 2"]
  by (auto simp add: example_running_state)

end

