(* ===== verification/Http_Routing.thy ===== *)
theory Http_Routing
  imports Text_Scan
begin

text \<open>
  The handler table of \<open>http::server\<close> in \<open>src/http_server.cpp\<close>: \<open>add_handler\<close> and \<open>findHandler\<close>. The
  table is \<open>std::map<std::string,handler_type>\<close>, a partial map here; \<open>'h\<close> is the type of handlers.
  The search is shown to find the handler of the most specific path above a request path.
\<close>

section \<open>add_handler and findHandler\<close>

definition slash :: char where
  "slash = CHR ''/''"

text \<open>The path under which a handler is stored: one trailing slash is dropped, except from \<open>"/"\<close>.\<close>

definition stored_path :: "string \<Rightarrow> string" where
  "stored_path path = (if path \<noteq> [] \<and> last path = slash \<and> 1 < length path then butlast path else path)"

definition add_handler :: "(string \<rightharpoonup> 'h) \<Rightarrow> string \<Rightarrow> 'h \<Rightarrow> (string \<rightharpoonup> 'h) res" where
  "add_handler handlers path h =
     (if path = [] \<or> hd path \<noteq> slash then Throw (Invalid_argument ''invalid HTTP server path'')
      else let path = stored_path path
           in if handlers path \<noteq> None then Throw (Invalid_argument ''duplicate HTTP server path'')
              else Val (handlers(path \<mapsto> h)))"

text \<open>
  The loop: \<open>Val None\<close> when it breaks at the leading slash. Without any slash left, the source would
  build a view of \<open>npos\<close> bytes.
\<close>

function handler_loop :: "(string \<rightharpoonup> 'h) \<Rightarrow> string \<Rightarrow> 'h option res" where
  "handler_loop handlers path =
     (case handlers path of
        Some h \<Rightarrow> Val (Some h)
      | None \<Rightarrow>
          (case rfind_char slash path of
             None \<Rightarrow> Abort Undefined_behaviour
           | Some i \<Rightarrow> if i = 0 then Val None else handler_loop handlers (take i path)))"
  by pat_completeness auto
termination
  by (relation "measure (\<lambda>(handlers, path). length path)") (auto dest: rfind_char_less)

declare handler_loop.simps [simp del]

definition find_handler :: "(string \<rightharpoonup> 'h) \<Rightarrow> string \<Rightarrow> 'h option res" where
  "find_handler handlers path =
     (if path = [] \<or> hd path \<noteq> slash then Val None
      else bnd (handler_loop handlers path) (\<lambda>found.
           case found of
             Some h \<Rightarrow> Val (Some h)
           | None \<Rightarrow> Val (handlers [slash])))"

section \<open>The most specific path\<close>

text \<open>
  A stored path stands above a request path when it is that path, or a proper prefix that ends in
  front of a slash, or the root.
\<close>

definition above :: "string \<Rightarrow> string \<Rightarrow> bool" where
  "above q path \<longleftrightarrow> q = path \<or> (q \<noteq> [] \<and> (\<exists>r. path = q @ slash # r)) \<or> q = [slash]"

text \<open>The handler of the longest stored path above the request path.\<close>

definition most_specific :: "(string \<rightharpoonup> 'h) \<Rightarrow> string \<Rightarrow> string \<Rightarrow> bool" where
  "most_specific handlers path q \<longleftrightarrow> above q path \<and> handlers q \<noteq> None
     \<and> (\<forall>q'. above q' path \<and> handlers q' \<noteq> None \<longrightarrow> length q' \<le> length q)"

lemma above_prefix: "above q path \<Longrightarrow> path \<noteq> [] \<Longrightarrow> hd path = slash \<Longrightarrow> \<exists>r. path = q @ r"
  by (cases path) (auto simp add: above_def)

lemma above_same_length:
  assumes "above q path" and "above q' path" and "path \<noteq> []" and "hd path = slash"
    and "length q = length q'"
  shows "q = q'"
proof -
  obtain r r' where "path = q @ r" "path = q' @ r'"
    using above_prefix assms by meson
  with assms(5) show ?thesis by (metis append_eq_append_conv)
qed

text \<open>One turn of the loop goes to the next shorter candidate.\<close>

lemma above_shorter:
  assumes "rfind_char slash path = Some i" and "i \<noteq> 0"
  shows "above q path \<longleftrightarrow> q = path \<or> above q (take i path)"
proof -
  from assms obtain xs ys where path: "path = xs @ slash # ys" "slash \<notin> set ys" "i = length xs"
    by (auto simp add: rfind_char_split)
  have xs: "xs \<noteq> []" using assms(2) path(3) by auto
  have "(\<exists>r. path = q @ slash # r) \<longleftrightarrow> q = xs \<or> (\<exists>r. xs = q @ slash # r)"
  proof
    assume "\<exists>r. path = q @ slash # r"
    then obtain r where "xs @ slash # ys = q @ slash # r" using path(1) by auto
    then obtain us where "xs = q @ us \<and> us @ slash # ys = slash # r \<or> xs @ us = q \<and> slash # ys = us @ slash # r"
      by (auto simp add: append_eq_append_conv2)
    with path(2) show "q = xs \<or> (\<exists>r. xs = q @ slash # r)"
      by (cases us) (auto simp add: Cons_eq_append_conv)
  next
    assume "q = xs \<or> (\<exists>r. xs = q @ slash # r)"
    with path(1) show "\<exists>r. path = q @ slash # r" by auto
  qed
  with path xs show ?thesis by (auto simp add: above_def)
qed

lemma above_root:
  assumes "rfind_char slash path = Some 0"
  shows "above q path \<longleftrightarrow> q = path \<or> q = [slash]"
proof -
  from assms obtain ys where "path = slash # ys" "slash \<notin> set ys"
    by (auto simp add: rfind_char_split)
  then show ?thesis by (auto simp add: above_def Cons_eq_append_conv)
qed

lemma take_keeps_hd: "i \<noteq> 0 \<Longrightarrow> path \<noteq> [] \<Longrightarrow> take i path \<noteq> [] \<and> hd (take i path) = hd path"
  by (cases path; cases i) auto

lemma rfind_slash_exists: "path \<noteq> [] \<Longrightarrow> hd path = slash \<Longrightarrow> \<exists>i. rfind_char slash path = Some i"
  by (cases "rfind_char slash path") (auto simp add: rfind_char_None_iff dest: hd_in_set)

lemma find_handler_unfold:
  assumes "path \<noteq> []" and "hd path = slash" and "rfind_char slash path = Some i"
  shows "find_handler handlers path =
    (case handlers path of
       Some h \<Rightarrow> Val (Some h)
     | None \<Rightarrow> if i = 0 then Val (handlers [slash]) else find_handler handlers (take i path))"
proof -
  have unf: "handler_loop handlers path =
      (case handlers path of
         Some h \<Rightarrow> Val (Some h)
       | None \<Rightarrow> if i = 0 then Val None else handler_loop handlers (take i path))"
    by (subst handler_loop.simps) (simp only: assms(3) option.case)
  have "take i path \<noteq> []" "hd (take i path) = slash" if "i \<noteq> 0"
    using take_keeps_hd [OF that assms(1)] assms(2) by auto
  with assms(1,2) show ?thesis
    by (simp add: find_handler_def unf split: option.split)
qed

lemma most_specific_self: "handlers path \<noteq> None \<Longrightarrow> path \<noteq> [] \<Longrightarrow> hd path = slash \<Longrightarrow>
    most_specific handlers path q \<longleftrightarrow> q = path"
proof
  assume a: "handlers path \<noteq> None" "path \<noteq> []" "hd path = slash" "most_specific handlers path q"
  have p: "above path path" by (simp add: above_def)
  with a have "length path \<le> length q" "above q path" by (auto simp add: most_specific_def)
  moreover obtain r where "path = q @ r" using above_prefix [OF \<open>above q path\<close> a(2,3)] by blast
  ultimately show "q = path" by simp
next
  assume a: "handlers path \<noteq> None" "path \<noteq> []" "hd path = slash" "q = path"
  then have "length q' \<le> length path" if "above q' path" for q'
    using above_prefix [OF that] by auto
  with a show "most_specific handlers path q"
    by (simp add: most_specific_def above_def)
qed

lemma find_handler_some:
  "path \<noteq> [] \<Longrightarrow> hd path = slash \<Longrightarrow>
     (\<exists>q. most_specific handlers path q \<and> find_handler handlers path = Val (handlers q))
     \<or> (find_handler handlers path = Val None \<and> (\<forall>q. above q path \<longrightarrow> handlers q = None))"
proof (induction "length path" arbitrary: path rule: less_induct)
  case less
  from rfind_slash_exists [OF less.prems] obtain i where i: "rfind_char slash path = Some i" by blast
  note unf = find_handler_unfold [OF less.prems i, of handlers]
  show ?case
  proof (cases "handlers path")
    case (Some h)
    with unf less.prems show ?thesis by (auto simp add: most_specific_self)
  next
    case None
    show ?thesis
    proof (cases "i = 0")
      case True
      with above_root [of path] i have ab: "above q path \<longleftrightarrow> q = path \<or> q = [slash]" for q by simp
      show ?thesis
      proof (cases "handlers [slash]")
        case None
        with True \<open>handlers path = None\<close> unf ab show ?thesis by auto
      next
        case (Some h)
        then have "most_specific handlers path [slash]"
          unfolding most_specific_def ab using \<open>handlers path = None\<close> by fastforce
        moreover have "find_handler handlers path = Val (handlers [slash])"
          using True \<open>handlers path = None\<close> unf by simp
        ultimately show ?thesis by blast
      qed
    next
      case False
      have ab: "above q path \<longleftrightarrow> q = path \<or> above q (take i path)" for q
        by (rule above_shorter [OF i False])
      have "length (take i path) < length path" using rfind_char_less [OF i] by simp
      moreover have "take i path \<noteq> []" "hd (take i path) = slash"
        using take_keeps_hd [OF False less.prems(1)] less.prems(2) by auto
      ultimately have "(\<exists>q. most_specific handlers (take i path) q \<and> find_handler handlers (take i path) = Val (handlers q))
          \<or> (find_handler handlers (take i path) = Val None \<and> (\<forall>q. above q (take i path) \<longrightarrow> handlers q = None))"
        by (rule less.hyps)
      moreover have "most_specific handlers path q" if "most_specific handlers (take i path) q" for q
        using that None by (auto simp add: most_specific_def ab)
      ultimately show ?thesis using None False unf ab by auto
    qed
  qed
qed

section \<open>The contract of a router\<close>

text \<open>
  What the server and the set-up code rely on: adding a handler stores it under one path if that
  path is free and fails otherwise, and a search returns the handler of the most specific path.
\<close>

locale path_router =
  fixes table :: "'r \<Rightarrow> string \<rightharpoonup> 'h"
    and add :: "'r \<Rightarrow> string \<Rightarrow> 'h \<Rightarrow> 'r res"
    and search :: "'r \<Rightarrow> string \<Rightarrow> 'h option res"
    and key :: "string \<Rightarrow> string"
  assumes add_law: "add r path h = Val r' \<Longrightarrow>
      path \<noteq> [] \<and> hd path = slash \<and> table r (key path) = None \<and> table r' = (table r)(key path \<mapsto> h)"
    and search_law: "path \<noteq> [] \<Longrightarrow> hd path = slash \<Longrightarrow>
      (\<exists>q. most_specific (table r) path q \<and> search r path = Val (table r q))
      \<or> (search r path = Val None \<and> (\<forall>q. above q path \<longrightarrow> table r q = None))"
begin

lemma search_exact:
  assumes "table r path = Some h" and "path \<noteq> []" and "hd path = slash"
  shows "search r path = Val (Some h)"
  using search_law [OF assms(2,3), of r] assms most_specific_self [of "table r" path]
  by (auto simp add: above_def)

lemma add_keeps: "add r path h = Val r' \<Longrightarrow> table r q = Some g \<Longrightarrow> table r' q = Some g"
  using add_law by fastforce

lemma added_is_found:
  assumes "add r path h = Val r'" and "key path = path"
  shows "search r' path = Val (Some h)"
  using add_law [OF assms(1)] assms(2) by (intro search_exact) auto

lemma found_later:
  assumes "search r path = Val (Some h)" and "table r path = Some h" and "add r p g = Val r'"
    and "path \<noteq> []" and "hd path = slash"
  shows "search r' path = Val (Some h)"
  using add_keeps [OF assms(3,2)] assms(4,5) by (intro search_exact) auto

end

interpretation rt: path_router "\<lambda>handlers. handlers" add_handler find_handler stored_path
proof unfold_locales
  fix r :: "string \<rightharpoonup> 'h" and path h r'
  assume "add_handler r path h = Val r'"
  then show "path \<noteq> [] \<and> hd path = slash \<and> r (stored_path path) = None \<and> r' = r(stored_path path \<mapsto> h)"
    by (auto simp add: add_handler_def Let_def split: if_splits)
next
  fix r :: "string \<rightharpoonup> 'h" and path
  assume "path \<noteq> []" "hd path = slash"
  then show "(\<exists>q. most_specific r path q \<and> find_handler r path = Val (r q))
      \<or> (find_handler r path = Val None \<and> (\<forall>q. above q path \<longrightarrow> r q = None))"
    by (rule find_handler_some)
qed

lemma find_handler_total: "\<exists>found. find_handler handlers path = Val found"
  using find_handler_some [of path handlers]
  by (cases "path \<noteq> [] \<and> hd path = slash") (auto simp add: find_handler_def)

section \<open>Properties\<close>

text \<open>
  (C23) \<open>findHandler\<close> returns exactly the handler of the most specific registered path above the request
  path, and nothing if there is none; it always returns, and a path without a leading slash has no
  handler.
\<close>

theorem find_handler_most_specific:
  fixes handlers :: "string \<rightharpoonup> 'h"
  shows "(\<exists>found. find_handler handlers path = Val found)
     \<and> (find_handler handlers path = Val (Some h) \<longleftrightarrow>
          path \<noteq> [] \<and> hd path = slash \<and> (\<exists>q. most_specific handlers path q \<and> handlers q = Some h))"
proof (cases "path \<noteq> [] \<and> hd path = slash")
  case False
  then show ?thesis by (auto simp add: find_handler_def)
next
  case True
  have unique: "q = q'" if "most_specific handlers path q" "most_specific handlers path q'" for q q'
    using that True above_same_length [of q path q'] unfolding most_specific_def
    by (meson le_antisym)
  from True consider (found) q where "most_specific handlers path q" "find_handler handlers path = Val (handlers q)"
    | (none) "find_handler handlers path = Val None" "\<forall>q. above q path \<longrightarrow> handlers q = None"
    using rt.search_law [of path handlers] by blast
  then show ?thesis
  proof cases
    case found
    with True unique show ?thesis by (auto dest: unique [OF found(1)])
  next
    case none
    then show ?thesis by (auto simp add: most_specific_def)
  qed
qed

text \<open>Adding handlers one after the other.\<close>

fun add_handlers :: "(string \<rightharpoonup> 'h) \<Rightarrow> (string \<times> 'h) list \<Rightarrow> (string \<rightharpoonup> 'h) res" where
  "add_handlers handlers [] = Val handlers"
| "add_handlers handlers ((path, h) # more) =
     bnd (add_handler handlers path h) (\<lambda>handlers. add_handlers handlers more)"

lemma add_handlers_keep:
  "add_handlers hs more = Val hs' \<Longrightarrow> hs q = Some g \<Longrightarrow> hs' q = Some g"
proof (induction more arbitrary: hs)
  case Nil
  then show ?case by simp
next
  case (Cons m more)
  obtain p h where m: "m = (p, h)" by (cases m)
  with Cons.prems obtain hs1 where "add_handler hs p h = Val hs1" "add_handlers hs1 more = Val hs'"
    by (auto simp add: bnd_Val_iff)
  then show ?case
    using Cons.IH [of hs1] rt.add_keeps [of hs p h hs1 q g] Cons.prems(2) by simp
qed

lemma stored_path_above:
  assumes "path \<noteq> []" and "hd path = slash"
  shows "stored_path path \<noteq> []" and "hd (stored_path path) = slash"
    and "path = stored_path path \<or> path = stored_path path @ [slash]"
proof -
  obtain ys y where path: "path = ys @ [y]" using assms(1) by (cases path rule: rev_cases) auto
  have *: "stored_path path = (if y = slash \<and> ys \<noteq> [] then ys else ys @ [y])"
    by (cases ys) (simp_all add: stored_path_def path)
  show "stored_path path \<noteq> []" "path = stored_path path \<or> path = stored_path path @ [slash]"
    unfolding * using path by auto
  show "hd (stored_path path) = slash"
    unfolding * using assms(2) path by (cases ys) auto
qed

text \<open>
  A handler stays reachable under the path it was added for: after \<open>add_handler\<close> succeeded, and
  whatever further handlers are added, a request for that path (less the trailing slash that
  \<open>add_handler\<close> drops) goes to it.
\<close>

theorem added_handler_found:
  assumes "add_handler handlers path h = Val handlers'"
    and "add_handlers handlers' more = Val handlers''"
  shows "find_handler handlers'' (stored_path path) = Val (Some h)"
proof -
  have p: "path \<noteq> []" "hd path = slash" "handlers' (stored_path path) = Some h"
    using rt.add_law [OF assms(1)] by auto
  with add_handlers_keep [OF assms(2)] stored_path_above [OF p(1,2)] show ?thesis
    by (intro rt.search_exact) auto
qed

theorem added_handler_found_witness:
  "\<exists>hs1 hs2. add_handler Map.empty ''/api/'' (1::nat) = Val hs1 \<and> add_handlers hs1 [(''/api/x'', 2)] = Val hs2
     \<and> find_handler hs2 ''/api'' = Val (Some 1)"
proof -
  obtain hs1 where hs1: "add_handler Map.empty ''/api/'' (1::nat) = Val hs1" "hs1 = [''/api'' \<mapsto> 1]"
    by (simp add: add_handler_def stored_path_def slash_def)
  obtain hs2 where hs2: "add_handlers hs1 [(''/api/x'', 2)] = Val hs2"
    by (simp add: hs1(2) add_handler_def stored_path_def slash_def)
  from added_handler_found [OF hs1(1) hs2] hs1 hs2 show ?thesis
    by (auto simp add: stored_path_def slash_def)
qed

end
