(* ===== verification/Http_Server.thy ===== *)
theory Http_Server
  imports Http_Routing
begin

text \<open>
  The request life cycle of \<open>src/http_server.cpp\<close>: the object \<open>http::request::impl\<close> with its four
  states, the operations a handler may call on it, and the callback \<open>answerCb\<close> that the HTTP library
  calls once per request, once per piece of the body, and once at the end. The library itself
  (libmicrohttpd) is a record of functions; handlers and their continuations are types \<open>'h\<close> and \<open>'k\<close>
  with an interpretation as state transformers on the request and on the program state \<open>'w\<close>.
\<close>

section \<open>Requests\<close>

datatype http_method = M_none | M_get | M_put | M_post

datatype http_code =
    C_ok | C_created | C_accepted | C_no_content
  | C_bad_request | C_unauthorized | C_forbidden | C_not_found | C_method_not_allowed
  | C_not_acceptable | C_payload_too_large | C_uri_too_long | C_too_many_requests
  | C_internal_server_error | C_not_implemented | C_service_unavailable | C_insufficient_storage

fun code_number :: "http_code \<Rightarrow> nat" where
  "code_number C_ok = 200"
| "code_number C_created = 201"
| "code_number C_accepted = 202"
| "code_number C_no_content = 204"
| "code_number C_bad_request = 400"
| "code_number C_unauthorized = 401"
| "code_number C_forbidden = 403"
| "code_number C_not_found = 404"
| "code_number C_method_not_allowed = 405"
| "code_number C_not_acceptable = 406"
| "code_number C_payload_too_large = 413"
| "code_number C_uri_too_long = 414"
| "code_number C_too_many_requests = 429"
| "code_number C_internal_server_error = 500"
| "code_number C_not_implemented = 501"
| "code_number C_service_unavailable = 503"
| "code_number C_insufficient_storage = 507"

definition methodFrom :: "string \<Rightarrow> http_method" where
  "methodFrom str =
     (if str = ''GET'' then M_get
      else if str = ''PUT'' then M_put
      else if str = ''POST'' then M_post
      else M_none)"

datatype req_state = Created | Accepted | Completed | Responded

text \<open>
  \<open>struct http::request::impl\<close>. \<open>response\<close> is the body of the owned \<open>MHD_Response\<close>, \<open>None\<close> the null
  pointer; \<open>responseCode\<close> has no initial value.
\<close>

record ('c, 'k) request =
  rconn :: 'c
  url :: string
  rmethod :: http_method
  rstate :: req_state
  rhandler :: "'k option"
  content :: string
  response :: "string option"
  responseBody :: string
  contentLimit :: nat
  responseCode :: "http_code option"

text \<open>The addresses of peers: the family, and the bytes the family's structure holds.\<close>

datatype sockaddr = AF_INET "8 word list" | AF_INET6 "8 word list" | AF_other

text \<open>
  What the code uses of libmicrohttpd: whether a response with a body can be created, the answer of
  \<open>MHD_queue_response\<close>, the header and query values of a connection, the client's address.
\<close>

record 'c mhd =
  mhd_create :: "string \<Rightarrow> bool"
  mhd_queue :: "'c \<Rightarrow> http_code \<Rightarrow> string \<Rightarrow> bool"
  mhd_header :: "'c \<Rightarrow> string \<Rightarrow> string option"
  mhd_argument :: "'c \<Rightarrow> string \<Rightarrow> string option"
  mhd_client_addr :: "'c \<Rightarrow> sockaddr option"

definition req_method :: "('c, 'k) request \<Rightarrow> http_method" where
  [simp]: "req_method r = rmethod r"

definition req_path :: "('c, 'k) request \<Rightarrow> string" where
  [simp]: "req_path r = url r"

definition req_header :: "'c mhd \<Rightarrow> string \<Rightarrow> ('c, 'k) request \<Rightarrow> string" where
  "req_header M key r = (case mhd_header M (rconn r) key of None \<Rightarrow> [] | Some v \<Rightarrow> v)"

definition req_query :: "'c mhd \<Rightarrow> string \<Rightarrow> ('c, 'k) request \<Rightarrow> string" where
  "req_query M key r = (case mhd_argument M (rconn r) key of None \<Rightarrow> [] | Some v \<Rightarrow> v)"

definition req_peer_address :: "'c mhd \<Rightarrow> ('c, 'k) request \<Rightarrow> sockaddr option" where
  "req_peer_address M r = mhd_client_addr M (rconn r)"

definition has_body :: "http_method \<Rightarrow> bool" where
  "has_body m \<longleftrightarrow> m = M_put \<or> m = M_post"

definition req_content :: "bool \<Rightarrow> ('c, 'k) request \<Rightarrow> string res" where
  "req_content ndebug r =
     bnd (cassert ndebug (has_body (rmethod r))) (\<lambda>_.
     bnd (cassert ndebug (rstate r = Completed)) (\<lambda>_.
     Val (content r)))"

definition req_accept :: "bool \<Rightarrow> 'k \<Rightarrow> ('c, 'k) request \<Rightarrow> ('c, 'k) request res" where
  "req_accept ndebug handler r =
     bnd (cassert ndebug (has_body (rmethod r))) (\<lambda>_.
     bnd (cassert ndebug (rstate r = Created)) (\<lambda>_.
     Val (r\<lparr>rhandler := Some handler, rstate := Accepted\<rparr>)))"

text \<open>
  A member function that changes the request and may throw returns the outcome and the request it
  leaves behind.
\<close>

type_synonym ('c, 'k) req_result = "unit res \<times> ('c, 'k) request"

definition respond_static ::
  "bool \<Rightarrow> 'c mhd \<Rightarrow> http_code \<Rightarrow> string \<Rightarrow> ('c, 'k) request \<Rightarrow> ('c, 'k) req_result" where
  "respond_static ndebug M code body r =
     (case cassert ndebug (response r = None) of
        Abort f \<Rightarrow> (Abort f, r)
      | Throw e \<Rightarrow> (Throw e, r)
      | Val _ \<Rightarrow>
          if mhd_create M body
          then (Val (), r\<lparr>response := Some body, responseCode := Some code, rstate := Responded\<rparr>)
          else (Throw (Runtime_error ''failed to create HTTP response''), r\<lparr>response := None\<rparr>))"

definition respond_string ::
  "bool \<Rightarrow> 'c mhd \<Rightarrow> http_code \<Rightarrow> string \<Rightarrow> ('c, 'k) request \<Rightarrow> ('c, 'k) req_result" where
  "respond_string ndebug M code body r =
     (case cassert ndebug (response r = None) of
        Abort f \<Rightarrow> (Abort f, r)
      | Throw e \<Rightarrow> (Throw e, r)
      | Val _ \<Rightarrow> respond_static ndebug M code body (r\<lparr>responseBody := body\<rparr>))"

text \<open>
  \<open>addContent\<close>: the sum of the two sizes is computed in \<open>size_t\<close>. The result is the \<open>MHD_Result\<close>.
\<close>

definition add_size :: "nat \<Rightarrow> nat \<Rightarrow> nat" where
  "add_size a b = (a + b) mod 2 ^ 64"

definition addContent :: "bool \<Rightarrow> 'c mhd \<Rightarrow> string \<Rightarrow> ('c, 'k) request \<Rightarrow> (bool \<times> ('c, 'k) request) res" where
  "addContent ndebug M upload r =
     (if add_size (length (content r)) (length upload) \<le> contentLimit r
      then Val (True, r\<lparr>content := content r @ upload\<rparr>)
      else bnd (cassert ndebug (response r = None)) (\<lambda>_.
           if mhd_create M []
           then Val (True, r\<lparr>response := Some [], responseCode := Some C_payload_too_large,
                             rstate := Responded\<rparr>)
           else Val (False, r\<lparr>response := None\<rparr>)))"

section \<open>The connection callbacks\<close>

text \<open>
  One connection: the library's slot \<open>*connCls\<close> for it, the responses queued on it (oldest first), and
  the state of the program. \<open>'w\<close> is shared by all connections.
\<close>

record ('c, 'k, 'w) connection =
  connCls :: "('c, 'k) request option"
  queued_responses :: "(http_code \<times> string) list"
  world :: 'w

type_synonym ('c, 'k, 'w) handler_fun =
  "('c, 'k) request \<Rightarrow> 'w \<Rightarrow> unit res \<times> ('c, 'k) request \<times> 'w"

text \<open>\<open>MHD_queue_response\<close> refuses a null response and queues any other one if it answers yes.\<close>

definition queue_response ::
  "'c mhd \<Rightarrow> 'c \<Rightarrow> http_code option \<Rightarrow> string option \<Rightarrow> (http_code \<times> string) list
     \<Rightarrow> bool \<times> (http_code \<times> string) list" where
  "queue_response M c code body out =
     (case (code, body) of
        (Some code, Some body) \<Rightarrow>
          if mhd_queue M c code body then (True, out @ [(code, body)]) else (False, out)
      | _ \<Rightarrow> (False, out))"

definition sendStaticResponse ::
  "'c mhd \<Rightarrow> 'c \<Rightarrow> http_code \<Rightarrow> string \<Rightarrow> (http_code \<times> string) list
     \<Rightarrow> bool \<times> (http_code \<times> string) list" where
  "sendStaticResponse M c code body out =
     (if mhd_create M body then queue_response M c (Some code) (Some body) out else (False, out))"

definition fresh_request :: "'c \<Rightarrow> http_method \<Rightarrow> string \<Rightarrow> nat \<Rightarrow> ('c, 'k) request" where
  "fresh_request c m path limit =
     \<lparr>rconn = c, url = path, rmethod = m, rstate = Created, rhandler = None, content = [],
      response = None, responseBody = [], contentLimit = limit, responseCode = None\<rparr>"

text \<open>
  The \<open>switch\<close> after the handler ran in \<open>newRequest\<close>, and the one in \<open>completeRequest\<close>.
\<close>

definition after_entry ::
  "bool \<Rightarrow> 'c mhd \<Rightarrow> 'c \<Rightarrow> ('c, 'k) request \<Rightarrow> (http_code \<times> string) list
     \<Rightarrow> (bool \<times> (http_code \<times> string) list) res" where
  "after_entry ndebug M c r out =
     (case rstate r of
        Created \<Rightarrow> Val (False, out)
      | Accepted \<Rightarrow> Val (True, out)
      | Completed \<Rightarrow> bnd (cassert ndebug False) (\<lambda>_. Val (False, out))
      | Responded \<Rightarrow> Val (queue_response M c (responseCode r) (response r) out))"

definition after_completion ::
  "bool \<Rightarrow> 'c mhd \<Rightarrow> 'c \<Rightarrow> ('c, 'k) request \<Rightarrow> (http_code \<times> string) list
     \<Rightarrow> (bool \<times> (http_code \<times> string) list) res" where
  "after_completion ndebug M c r out =
     (case rstate r of
        Created \<Rightarrow> bnd (cassert ndebug False) (\<lambda>_. Val (False, out))
      | Accepted \<Rightarrow> bnd (cassert ndebug False) (\<lambda>_. Val (False, out))
      | Completed \<Rightarrow> Val (False, out)
      | Responded \<Rightarrow> Val (queue_response M c (responseCode r) (response r) out))"

definition newRequest ::
  "bool \<Rightarrow> 'c mhd \<Rightarrow> ('h \<Rightarrow> ('c, 'k, 'w) handler_fun) \<Rightarrow> (string \<rightharpoonup> 'h) \<Rightarrow> nat
     \<Rightarrow> 'c \<Rightarrow> string \<Rightarrow> string \<Rightarrow> ('c, 'k, 'w) connection \<Rightarrow> bool res \<times> ('c, 'k, 'w) connection" where
  "newRequest ndebug M run_h handlers limit c path meth s =
     (let httpMethod = methodFrom meth in
      if httpMethod = M_none
      then (let (ok, out) = sendStaticResponse M c C_method_not_allowed ''method not allowed'' (queued_responses s)
            in (Val ok, s\<lparr>connCls := None, queued_responses := out\<rparr>))
      else case find_handler handlers path of
             Abort f \<Rightarrow> (Abort f, s)
           | Throw e \<Rightarrow> (Throw e, s)
           | Val None \<Rightarrow>
               (let (ok, out) = sendStaticResponse M c C_not_found ''not found'' (queued_responses s)
                in (Val ok, s\<lparr>connCls := None, queued_responses := out\<rparr>))
           | Val (Some h) \<Rightarrow>
               (case run_h h (fresh_request c httpMethod path limit) (world s) of
                  (Abort f, r, w) \<Rightarrow> (Abort f, s\<lparr>world := w\<rparr>)
                | (Throw e, r, w) \<Rightarrow> (Throw e, s\<lparr>world := w\<rparr>)
                | (Val _, r, w) \<Rightarrow>
                    (case after_entry ndebug M c r (queued_responses s) of
                       Abort f \<Rightarrow> (Abort f, s\<lparr>world := w\<rparr>)
                     | Throw e \<Rightarrow> (Throw e, s\<lparr>world := w\<rparr>)
                     | Val (ok, out) \<Rightarrow> (Val ok, s\<lparr>connCls := Some r, queued_responses := out, world := w\<rparr>))))"

text \<open>
  \<open>completeRequest\<close>: an empty continuation throws \<open>std::bad_function_call\<close>. The request is changed in
  place, so it stays in the slot whatever happens.
\<close>

definition completeRequest ::
  "bool \<Rightarrow> 'c mhd \<Rightarrow> ('k \<Rightarrow> ('c, 'k, 'w) handler_fun) \<Rightarrow> 'c
     \<Rightarrow> ('c, 'k) request \<Rightarrow> ('c, 'k, 'w) connection \<Rightarrow> bool res \<times> ('c, 'k, 'w) connection" where
  "completeRequest ndebug M run_k c r s =
     (case cassert ndebug (rstate r = Accepted) of
        Abort f \<Rightarrow> (Abort f, s)
      | Throw e \<Rightarrow> (Throw e, s)
      | Val _ \<Rightarrow>
          (let r = r\<lparr>rstate := Completed\<rparr> in
           case rhandler r of
             None \<Rightarrow> (Throw (Runtime_error ''bad_function_call''), s\<lparr>connCls := Some r\<rparr>)
           | Some k \<Rightarrow>
               (case run_k k r (world s) of
                  (Abort f, r, w) \<Rightarrow> (Abort f, s\<lparr>connCls := Some r, world := w\<rparr>)
                | (Throw e, r, w) \<Rightarrow> (Throw e, s\<lparr>connCls := Some r, world := w\<rparr>)
                | (Val _, r, w) \<Rightarrow>
                    (case after_completion ndebug M c r (queued_responses s) of
                       Abort f \<Rightarrow> (Abort f, s\<lparr>connCls := Some r, world := w\<rparr>)
                     | Throw e \<Rightarrow> (Throw e, s\<lparr>connCls := Some r, world := w\<rparr>)
                     | Val (ok, out) \<Rightarrow>
                         (Val ok, s\<lparr>connCls := Some r, queued_responses := out, world := w\<rparr>)))))"

text \<open>
  \<open>answerCb\<close>. The function-try-block turns an exception into \<open>MHD_NO\<close>.
\<close>

fun mhd_no_on_throw :: "bool res \<times> 's \<Rightarrow> bool res \<times> 's" where
  "mhd_no_on_throw (Throw e, s) = (Val False, s)"
| "mhd_no_on_throw (r, s) = (r, s)"

definition answerCb ::
  "bool \<Rightarrow> 'c mhd \<Rightarrow> ('h \<Rightarrow> ('c, 'k, 'w) handler_fun) \<Rightarrow> ('k \<Rightarrow> ('c, 'k, 'w) handler_fun)
     \<Rightarrow> (string \<rightharpoonup> 'h) \<Rightarrow> nat \<Rightarrow> 'c \<Rightarrow> string \<Rightarrow> string \<Rightarrow> string
     \<Rightarrow> ('c, 'k, 'w) connection \<Rightarrow> bool res \<times> ('c, 'k, 'w) connection" where
  "answerCb ndebug M run_h run_k handlers limit c path meth upload s =
     mhd_no_on_throw
       (case connCls s of
          None \<Rightarrow> newRequest ndebug M run_h handlers limit c path meth s
        | Some r \<Rightarrow>
            if upload \<noteq> []
            then (case addContent ndebug M upload r of
                    Val (ok, r) \<Rightarrow> (Val ok, s\<lparr>connCls := Some r\<rparr>)
                  | Throw e \<Rightarrow> (Throw e, s)
                  | Abort f \<Rightarrow> (Abort f, s))
            else completeRequest ndebug M run_k c r s)"

definition completedCb :: "('c, 'k, 'w) connection \<Rightarrow> ('c, 'k, 'w) connection" where
  "completedCb s = s\<lparr>connCls := None\<rparr>"

section \<open>The calls the library makes for one request\<close>

text \<open>
  The documented protocol of an access handler: a first call with an empty slot; if it answers yes and
  no response was queued, one call for each non-empty piece of the body as long as the answer is yes,
  and a last call without data.
\<close>

fun feed ::
  "(string \<Rightarrow> 's \<Rightarrow> bool res \<times> 's) \<Rightarrow> string list \<Rightarrow> 's \<Rightarrow> bool res \<times> 's" where
  "feed call [] s = call [] s"
| "feed call (p # ps) s =
     (case call p s of (Val True, s') \<Rightarrow> feed call ps s' | other \<Rightarrow> other)"

definition serve ::
  "bool \<Rightarrow> 'c mhd \<Rightarrow> ('h \<Rightarrow> ('c, 'k, 'w) handler_fun) \<Rightarrow> ('k \<Rightarrow> ('c, 'k, 'w) handler_fun)
     \<Rightarrow> (string \<rightharpoonup> 'h) \<Rightarrow> nat \<Rightarrow> 'c \<Rightarrow> string \<Rightarrow> string \<Rightarrow> string list \<Rightarrow> 'w
     \<Rightarrow> bool res \<times> ('c, 'k, 'w) connection" where
  "serve ndebug M run_h run_k handlers limit c path meth pieces w =
     (let call = answerCb ndebug M run_h run_k handlers limit c path meth;
          s = \<lparr>connCls = None, queued_responses = [], world = w\<rparr>
      in case call [] s of
           (Val True, s') \<Rightarrow> if queued_responses s' = [] then feed call pieces s' else (Val True, s')
         | other \<Rightarrow> other)"

end
