(* ===== verification/Http_Contract.thy ===== *)
theory Http_Contract
  imports Http_Server
begin

text \<open>
  The interface between the server (\<open>src/http_server.cpp\<close>) and the handlers registered with it: what
  a handler and the continuation it passes to \<open>accept\<close> have to leave behind, and what the server
  then guarantees for a whole request: it is answered at most once, its body reaches the
  continuation whole, and a body beyond the limit does what the code does with it.
\<close>

section \<open>addContent\<close>

text \<open>The pieces of a body that \<open>addContent\<close> stores, and whether some piece was refused.\<close>

fun fitting :: "nat \<Rightarrow> string \<Rightarrow> string list \<Rightarrow> string" where
  "fitting limit body [] = body"
| "fitting limit body (p # ps) =
     (if length body + length p \<le> limit then fitting limit (body @ p) ps else fitting limit body ps)"

fun refused :: "nat \<Rightarrow> string \<Rightarrow> string list \<Rightarrow> bool" where
  "refused limit body [] = False"
| "refused limit body (p # ps) =
     (if length body + length p \<le> limit then refused limit (body @ p) ps else True)"

lemma fitting_length: "length body \<le> limit \<Longrightarrow> length (fitting limit body ps) \<le> limit"
  by (induction ps arbitrary: body) auto

lemma fitting_all: "length (body @ concat ps) \<le> limit \<Longrightarrow> fitting limit body ps = body @ concat ps"
  by (induction ps arbitrary: body) auto

lemma refused_iff: "length body \<le> limit \<Longrightarrow> refused limit body ps \<longleftrightarrow> limit < length (body @ concat ps)"
proof (induction ps arbitrary: body)
  case (Cons p ps)
  then show ?case using Cons.IH [of "body @ p"] by auto
qed simp

lemma fitting_bound: "length (fitting limit body ps) \<le> length (body @ concat ps)"
proof (induction ps arbitrary: body)
  case (Cons p ps)
  from Cons.IH [of "body @ p"] Cons.IH [of body] show ?case
    by (cases "length body + length p \<le> limit") (simp_all, linarith?)
qed simp

lemma add_size_small [simp]: "a + b < 2 ^ 64 \<Longrightarrow> add_size a b = a + b"
  by (simp add: add_size_def)

lemma addContent_fits:
  "length (content r @ p) < 2 ^ 64 \<Longrightarrow> length (content r @ p) \<le> contentLimit r \<Longrightarrow>
     addContent nd M p r = Val (True, r\<lparr>content := content r @ p\<rparr>)"
  by (simp add: addContent_def)

lemma addContent_refuses:
  "length (content r @ p) < 2 ^ 64 \<Longrightarrow> contentLimit r < length (content r @ p) \<Longrightarrow> mhd_create M [] \<Longrightarrow>
     addContent nd M p r =
       (if nd \<or> response r = None
        then Val (True, r\<lparr>response := Some [], responseCode := Some C_payload_too_large, rstate := Responded\<rparr>)
        else Abort Assertion)"
  by (simp add: addContent_def cassert_def)

section \<open>At most one response\<close>

lemma queue_response_cases:
  "queue_response M c code body out = (ok, out') \<Longrightarrow>
     ok \<and> (\<exists>x. out' = out @ [x]) \<or> \<not> ok \<and> out' = out"
  by (auto simp add: queue_response_def split: option.splits if_splits)

lemma sendStaticResponse_cases:
  "sendStaticResponse M c code body out = (ok, out') \<Longrightarrow>
     ok \<and> (\<exists>x. out' = out @ [x]) \<or> \<not> ok \<and> out' = out"
  by (auto simp add: sendStaticResponse_def dest: queue_response_cases split: if_splits)

text \<open>A call answers yes exactly when it queued a response or waits for the body.\<close>

lemma newRequest_queue:
  assumes "newRequest nd M run_h hs limit c path meth s = (res, s')"
  shows "queued_responses s' = queued_responses s
     \<or> res = Val True \<and> (\<exists>x. queued_responses s' = queued_responses s @ [x])"
  using assms
  by (auto simp add: newRequest_def after_entry_def Let_def res_simps cassert_def
        split: if_splits res.splits option.splits prod.splits req_state.splits
        dest: queue_response_cases sendStaticResponse_cases)

lemma completeRequest_queue:
  assumes "completeRequest nd M run_k c r s = (res, s')"
  shows "queued_responses s' = queued_responses s
     \<or> res = Val True \<and> (\<exists>x. queued_responses s' = queued_responses s @ [x])"
  using assms
  by (auto simp add: completeRequest_def after_completion_def Let_def res_simps cassert_def
        split: if_splits res.splits option.splits prod.splits req_state.splits
        dest: queue_response_cases)

lemma mhd_no_on_throw_queue:
  "mhd_no_on_throw (res, s) = (res', s') \<Longrightarrow> s' = s \<and> (res = Val True \<longrightarrow> res' = Val True)"
  by (cases res) auto

lemma answerCb_queue:
  assumes "answerCb nd M run_h run_k hs limit c path meth p s = (res, s')"
  shows "queued_responses s' = queued_responses s
     \<or> res = Val True \<and> (connCls s = None \<or> p = []) \<and> (\<exists>x. queued_responses s' = queued_responses s @ [x])"
proof (cases "connCls s")
  case None
  obtain r1 s1 where n: "newRequest nd M run_h hs limit c path meth s = (r1, s1)" by force
  with None assms have "mhd_no_on_throw (r1, s1) = (res, s')" by (simp add: answerCb_def)
  with newRequest_queue [OF n] None show ?thesis by (auto dest: mhd_no_on_throw_queue)
next
  case (Some r)
  show ?thesis
  proof (cases "p = []")
    case True
    obtain r1 s1 where n: "completeRequest nd M run_k c r s = (r1, s1)" by force
    with True Some assms have "mhd_no_on_throw (r1, s1) = (res, s')" by (simp add: answerCb_def)
    with completeRequest_queue [OF n] True show ?thesis by (auto dest: mhd_no_on_throw_queue)
  next
    case False
    with Some assms show ?thesis
      by (auto simp add: answerCb_def split: res.splits prod.splits)
  qed
qed

lemma addContent_keeps_slot:
  assumes "answerCb nd M run_h run_k hs limit c path meth p s = (Val True, s')"
    and "connCls s \<noteq> None" and "p \<noteq> []"
  shows "queued_responses s' = queued_responses s \<and> connCls s' \<noteq> None"
  using assms by (auto simp add: answerCb_def split: res.splits prod.splits)

lemma feed_queue:
  assumes "feed (answerCb nd M run_h run_k hs limit c path meth) ps s = (res, s')"
    and "queued_responses s = []" and "connCls s \<noteq> None" and "[] \<notin> set ps"
  shows "length (queued_responses s') \<le> 1"
  using assms
proof (induction ps arbitrary: s)
  case Nil
  then show ?case using answerCb_queue [of nd M run_h run_k hs limit c path meth "[]" s res s'] by auto
next
  case (Cons p ps)
  let ?call = "answerCb nd M run_h run_k hs limit c path meth"
  obtain r1 s1 where c1: "?call p s = (r1, s1)" by force
  have q1: "queued_responses s1 = []"
    using answerCb_queue [OF c1] Cons.prems by auto
  show ?case
  proof (cases "r1 = Val True")
    case True
    with c1 Cons.prems addContent_keeps_slot [of nd M run_h run_k hs limit c path meth p s s1] q1
    show ?thesis by (intro Cons.IH [of s1]) auto
  next
    case False
    with c1 Cons.prems q1 show ?thesis by (auto split: res.splits bool.splits)
  qed
qed

lemma serve_queue:
  assumes "serve nd M run_h run_k hs limit c path meth ps w = (res, s')" and "[] \<notin> set ps"
  shows "length (queued_responses s') \<le> 1"
proof -
  let ?call = "answerCb nd M run_h run_k hs limit c path meth"
  let ?s = "\<lparr>connCls = None, queued_responses = [], world = w\<rparr>"
  obtain r1 s1 where c1: "?call [] ?s = (r1, s1)" by force
  show ?thesis
  proof (cases "r1 = Val True \<and> queued_responses s1 = []")
    case True
    with assms(1) c1 have f: "feed ?call ps s1 = (res, s')" by (simp add: serve_def)
    have "connCls s1 \<noteq> None"
      using c1 True
      by (auto simp add: answerCb_def newRequest_def after_entry_def sendStaticResponse_def
          queue_response_def Let_def split: if_splits res.splits option.splits prod.splits req_state.splits)
    with f True assms(2) show ?thesis by (intro feed_queue [OF f]) auto
  next
    case False
    with answerCb_queue [OF c1] assms(1) c1 show ?thesis
      by (auto simp add: serve_def split: res.splits bool.splits if_splits)
  qed
qed

text \<open>Whatever every call of the access handler preserves holds at the end of a request.\<close>

lemma feed_inv:
  assumes "\<And>p s res s'. I s \<Longrightarrow> call p s = (res, s') \<Longrightarrow> I s'" and "I s"
  shows "I (snd (feed call ps s))"
  using assms(2)
proof (induction ps arbitrary: s)
  case Nil
  then show ?case using assms(1) [of s "[]"] by (cases "call [] s") simp
next
  case (Cons p ps)
  obtain res s1 where c: "call p s = (res, s1)" by force
  have "I s1" using assms(1) [OF Cons.prems c] .
  with Cons.IH c show ?case by (auto split: res.split bool.split)
qed

lemma serve_inv:
  assumes step: "\<And>p s res s'. I s \<Longrightarrow>
      answerCb nd M run_h run_k hs limit c path meth p s = (res, s') \<Longrightarrow> I s'"
    and start: "I \<lparr>connCls = None, queued_responses = [], world = w\<rparr>"
  shows "I (snd (serve nd M run_h run_k hs limit c path meth ps w))"
proof -
  let ?call = "answerCb nd M run_h run_k hs limit c path meth"
  obtain res s1 where c: "?call [] \<lparr>connCls = None, queued_responses = [], world = w\<rparr> = (res, s1)" by force
  have "I s1" using step [OF start c] .
  with c feed_inv [of I ?call s1 ps] step show ?thesis
    by (auto simp add: serve_def split: res.split bool.split)
qed

section \<open>The pieces of a body\<close>

text \<open>What a request holds after all pieces were offered in a build without assertions.\<close>

definition loaded :: "('c, 'k) request \<Rightarrow> string list \<Rightarrow> ('c, 'k) request" where
  "loaded r ps =
     (let r' = r\<lparr>content := fitting (contentLimit r) (content r) ps\<rparr>
      in if refused (contentLimit r) (content r) ps
         then r'\<lparr>response := Some [], responseCode := Some C_payload_too_large, rstate := Responded\<rparr>
         else r')"

definition pieces_ok :: "string list \<Rightarrow> bool" where
  "pieces_ok ps \<longleftrightarrow> [] \<notin> set ps \<and> length (concat ps) < 2 ^ 64"

lemma loaded_all:
  "length (content r @ concat ps) \<le> contentLimit r \<Longrightarrow> loaded r ps = r\<lparr>content := content r @ concat ps\<rparr>"
  using refused_iff [of "content r" "contentLimit r" ps]
  by (simp add: loaded_def Let_def fitting_all)

lemma feed_pieces:
  assumes "connCls s = Some r" and "[] \<notin> set ps" and "length (content r @ concat ps) < 2 ^ 64"
    and "mhd_create M []" and "nd \<or> \<not> refused (contentLimit r) (content r) ps"
  shows "feed (answerCb nd M run_h run_k hs limit c path meth) ps s =
    answerCb nd M run_h run_k hs limit c path meth [] (s\<lparr>connCls := Some (loaded r ps)\<rparr>)"
  using assms
proof (induction ps arbitrary: s r)
  case Nil
  then show ?case by (cases s) (simp add: loaded_def)
next
  case (Cons p ps)
  let ?call = "answerCb nd M run_h run_k hs limit c path meth"
  have p: "p \<noteq> []" using Cons.prems(2) by auto
  show ?case
  proof (cases "length (content r @ p) \<le> contentLimit r")
    case True
    define r1 where "r1 = r\<lparr>content := content r @ p\<rparr>"
    have "?call p s = (Val True, s\<lparr>connCls := Some r1\<rparr>)"
      using Cons.prems True p by (simp add: answerCb_def r1_def addContent_def)
    moreover have "loaded r1 ps = loaded r (p # ps)"
      using True by (simp add: loaded_def r1_def Let_def)
    ultimately show ?thesis
      using Cons.IH [of "s\<lparr>connCls := Some r1\<rparr>" r1] Cons.prems True by (simp add: r1_def)
  next
    case False
    with Cons.prems(5) have nd: "nd" by simp
    define r1 where "r1 = r\<lparr>response := Some [], responseCode := Some C_payload_too_large, rstate := Responded\<rparr>"
    have "?call p s = (Val True, s\<lparr>connCls := Some r1\<rparr>)"
      using Cons.prems False nd p by (simp add: answerCb_def r1_def addContent_def)
    moreover have "loaded r1 ps = loaded r (p # ps)"
      using False by (simp add: loaded_def r1_def Let_def)
    ultimately show ?thesis
      using Cons.IH [of "s\<lparr>connCls := Some r1\<rparr>" r1] Cons.prems nd by (simp add: r1_def)
  qed
qed

text \<open>In a build with assertions a refused piece leads to an abort, at the latest in \<open>completeRequest\<close>.\<close>

lemma feed_responded_aborts:
  assumes "connCls s = Some r" and "rstate r = Responded" and "response r \<noteq> None" and "[] \<notin> set ps"
    and "length (content r @ concat ps) < 2 ^ 64"
  shows "fst (feed (answerCb False M run_h run_k hs limit c path meth) ps s) = Abort Assertion"
  using assms
proof (induction ps arbitrary: s r)
  case Nil
  then show ?case by (simp add: answerCb_def completeRequest_def)
next
  case (Cons p ps)
  let ?call = "answerCb False M run_h run_k hs limit c path meth"
  have p: "p \<noteq> []" using Cons.prems(4) by auto
  show ?case
  proof (cases "length (content r @ p) \<le> contentLimit r")
    case True
    define r1 where "r1 = r\<lparr>content := content r @ p\<rparr>"
    have "?call p s = (Val True, s\<lparr>connCls := Some r1\<rparr>)"
      using Cons.prems True p by (simp add: answerCb_def r1_def addContent_def)
    with Cons.IH [of "s\<lparr>connCls := Some r1\<rparr>" r1] Cons.prems show ?thesis by (simp add: r1_def)
  next
    case False
    obtain y where "response r = Some y" using Cons.prems(3) by auto
    with False Cons.prems p show ?thesis by (simp add: answerCb_def addContent_def cassert_def)
  qed
qed

lemma feed_refused_aborts:
  assumes "connCls s = Some r" and "rstate r = Accepted" and "response r = None" and "[] \<notin> set ps"
    and "length (content r @ concat ps) < 2 ^ 64" and "mhd_create M []"
    and "refused (contentLimit r) (content r) ps"
  shows "fst (feed (answerCb False M run_h run_k hs limit c path meth) ps s) = Abort Assertion"
  using assms
proof (induction ps arbitrary: s r)
  case Nil
  then show ?case by simp
next
  case (Cons p ps)
  let ?call = "answerCb False M run_h run_k hs limit c path meth"
  have p: "p \<noteq> []" using Cons.prems(4) by auto
  show ?case
  proof (cases "length (content r @ p) \<le> contentLimit r")
    case True
    define r1 where "r1 = r\<lparr>content := content r @ p\<rparr>"
    have "?call p s = (Val True, s\<lparr>connCls := Some r1\<rparr>)"
      using Cons.prems True p by (simp add: answerCb_def r1_def addContent_def)
    with Cons.IH [of "s\<lparr>connCls := Some r1\<rparr>" r1] Cons.prems True show ?thesis by (simp add: r1_def)
  next
    case False
    define r1 where "r1 = r\<lparr>response := Some [], responseCode := Some C_payload_too_large, rstate := Responded\<rparr>"
    have "?call p s = (Val True, s\<lparr>connCls := Some r1\<rparr>)"
      using Cons.prems False p by (simp add: answerCb_def r1_def addContent_def)
    with feed_responded_aborts [of "s\<lparr>connCls := Some r1\<rparr>" r1 ps] Cons.prems
    show ?thesis by (simp add: r1_def)
  qed
qed

section \<open>The contract of request handlers\<close>

text \<open>
  What a handler may leave behind: nothing done, the request accepted with a continuation, or a
  response; and the same for the continuation.
\<close>

definition awaiting :: "nat \<Rightarrow> ('c, 'k) request \<Rightarrow> bool" where
  "awaiting limit r \<longleftrightarrow> rstate r = Accepted \<and> has_body (rmethod r) \<and> rhandler r \<noteq> None \<and> response r = None
     \<and> content r = [] \<and> contentLimit r = limit"

definition answered :: "('c, 'k) request \<Rightarrow> bool" where
  "answered r \<longleftrightarrow> rstate r = Responded \<and> response r \<noteq> None \<and> responseCode r \<noteq> None"

locale request_handler =
  fixes M :: "'c mhd"
    and run_h :: "'h \<Rightarrow> ('c, 'k, 'w) handler_fun"
    and run_k :: "'k \<Rightarrow> ('c, 'k, 'w) handler_fun"
  assumes entry_law: "run_h h (fresh_request c m path limit) w = (res, r, w') \<Longrightarrow>
      (\<exists>e. res = Throw e) \<or> res = Val () \<and> (rstate r = Created \<or> awaiting limit r \<or> answered r)"
    and continuation_law: "(\<And>body. mhd_create M body) \<Longrightarrow> rstate r = Completed \<Longrightarrow> has_body (rmethod r) \<Longrightarrow>
      response r = None \<Longrightarrow> run_k k r w = (res, r', w') \<Longrightarrow>
      (\<exists>e. res = Throw e) \<or> res = Val () \<and> (rstate r' = Completed \<or> answered r')"
begin

lemma completion_concludes:
  assumes "\<And>body. mhd_create M body" and "awaiting limit r0" and "r = r0\<lparr>content := body\<rparr>"
    and "queued_responses s = []" and "connCls s = Some r"
  shows "\<exists>ok s'. answerCb nd M run_h run_k hs limit c path meth [] s = (Val ok, s')
     \<and> length (queued_responses s') = (if ok then 1 else 0)"
proof -
  from assms(2,3) obtain k where r: "rstate r = Accepted" "has_body (rmethod r)" "response r = None"
    "rhandler r = Some k" by (auto simp add: awaiting_def)
  obtain res r' w' where k: "run_k k (r\<lparr>rstate := Completed\<rparr>) (world s) = (res, r', w')"
    by (metis prod.exhaust)
  have law: "(\<exists>e. res = Throw e) \<or> res = Val () \<and> (rstate r' = Completed \<or> answered r')"
    using continuation_law [OF assms(1) _ _ _ k] r by simp
  obtain ok out where q: "queue_response M c (responseCode r') (response r') [] = (ok, out)" by force
  with k r assms(4,5) law queue_response_cases [OF q] show ?thesis
    by (auto simp add: answerCb_def completeRequest_def after_completion_def answered_def Let_def)
qed

lemma first_call:
  assumes router: "\<And>path. \<exists>found. find_handler hs path = Val found"
    and s_def: "s = \<lparr>connCls = None, queued_responses = [], world = w\<rparr>"
  shows "(\<exists>ok s'. answerCb nd M run_h run_k hs limit c path meth [] s = (Val ok, s')
            \<and> length (queued_responses s') = (if ok then 1 else 0))
      \<or> (\<exists>r w'. answerCb nd M run_h run_k hs limit c path meth [] s
            = (Val True, \<lparr>connCls = Some r, queued_responses = [], world = w'\<rparr>) \<and> awaiting limit r)"
proof -
  obtain found where found: "find_handler hs path = Val found" using router by blast
  show ?thesis
  proof (cases "methodFrom meth = M_none \<or> found = None")
    case True
    obtain ok out code body where st: "sendStaticResponse M c code body [] = (ok, out)"
      and n: "newRequest nd M run_h hs limit c path meth s = (Val ok, s\<lparr>connCls := None, queued_responses := out\<rparr>)"
    proof (cases "methodFrom meth = M_none")
      case True
      obtain ok out where "sendStaticResponse M c C_method_not_allowed ''method not allowed'' [] = (ok, out)" by force
      with True that show ?thesis by (simp add: newRequest_def s_def)
    next
      case False
      obtain ok out where "sendStaticResponse M c C_not_found ''not found'' [] = (ok, out)" by force
      with False \<open>methodFrom meth = M_none \<or> found = None\<close> found that show ?thesis
        by (simp add: newRequest_def s_def)
    qed
    have "connCls s = None" by (simp add: s_def)
    with n sendStaticResponse_cases [OF st] show ?thesis
      by (intro disjI1) (auto simp add: answerCb_def)
  next
    case False
    then obtain h where h: "methodFrom meth \<noteq> M_none" "found = Some h" by auto
    obtain res r w' where e: "run_h h (fresh_request c (methodFrom meth) path limit) w = (res, r, w')"
      by (metis prod.exhaust)
    obtain ok out where q: "queue_response M c (responseCode r) (response r) [] = (ok, out)" by force
    have "newRequest nd M run_h hs limit c path meth s =
        (case res of
           Abort f \<Rightarrow> (Abort f, s\<lparr>world := w'\<rparr>)
         | Throw e \<Rightarrow> (Throw e, s\<lparr>world := w'\<rparr>)
         | Val _ \<Rightarrow>
             (case after_entry nd M c r [] of
                Abort f \<Rightarrow> (Abort f, s\<lparr>world := w'\<rparr>)
              | Throw e \<Rightarrow> (Throw e, s\<lparr>world := w'\<rparr>)
              | Val (ok, out) \<Rightarrow> (Val ok, s\<lparr>connCls := Some r, queued_responses := out, world := w'\<rparr>)))"
      using h found e by (cases res; cases "after_entry nd M c r []") (auto simp add: newRequest_def s_def Let_def split: prod.split)
    moreover have "connCls s = None" by (simp add: s_def)
    ultimately show ?thesis
      using entry_law [OF e] q queue_response_cases [OF q]
      by (elim disjE exE conjE)
        (auto simp add: answerCb_def s_def after_entry_def awaiting_def answered_def)
  qed
qed

text \<open>A request whose body keeps within the limit is answered exactly once, or refused.\<close>

lemma served_once:
  assumes "\<And>body. mhd_create M body" and "pieces_ok ps" and "length (concat ps) \<le> limit"
    and router: "\<And>path. \<exists>found. find_handler hs path = Val found"
  shows "\<exists>ok s'. serve nd M run_h run_k hs limit c path meth ps w = (Val ok, s')
     \<and> length (queued_responses s') = (if ok then 1 else 0)"
proof -
  let ?call = "answerCb nd M run_h run_k hs limit c path meth"
  let ?s = "\<lparr>connCls = None, queued_responses = [], world = w\<rparr>"
  obtain found where found: "find_handler hs path = Val found" using router by blast
  have static: "\<exists>ok out. sendStaticResponse M c code b [] = (ok, out) \<and> length out = (if ok then 1 else 0)"
    for code b
    by (cases "sendStaticResponse M c code b []") (auto dest!: sendStaticResponse_cases)
  have first: "(\<exists>ok s'. ?call [] ?s = (Val ok, s') \<and> length (queued_responses s') = (if ok then 1 else 0))
      \<or> (\<exists>r w'. ?call [] ?s = (Val True, \<lparr>connCls = Some r, queued_responses = [], world = w'\<rparr>) \<and> awaiting limit r)"
    using router refl by (rule first_call)
  then show ?thesis
  proof
    assume "\<exists>ok s'. ?call [] ?s = (Val ok, s') \<and> length (queued_responses s') = (if ok then 1 else 0)"
    then obtain ok s' where "?call [] ?s = (Val ok, s')" "length (queued_responses s') = (if ok then 1 else 0)"
      by blast
    then show ?thesis by (cases ok) (auto simp add: serve_def)
  next
    assume "\<exists>r w'. ?call [] ?s = (Val True, \<lparr>connCls = Some r, queued_responses = [], world = w'\<rparr>) \<and> awaiting limit r"
    then obtain r w' where a: "?call [] ?s = (Val True, \<lparr>connCls = Some r, queued_responses = [], world = w'\<rparr>)"
      "awaiting limit r" by blast
    let ?s1 = "\<lparr>connCls = Some r, queued_responses = [], world = w'\<rparr>"
    have r: "content r = []" "contentLimit r = limit" using a(2) by (simp_all add: awaiting_def)
    then have "\<not> refused (contentLimit r) (content r) ps"
      using assms(3) by (simp add: refused_iff)
    then have "feed ?call ps ?s1 = ?call [] (?s1\<lparr>connCls := Some (r\<lparr>content := concat ps\<rparr>)\<rparr>)"
      using feed_pieces [of ?s1 r ps M nd] assms(1-3) r by (simp add: pieces_ok_def loaded_all)
    with completion_concludes [OF assms(1) a(2) refl, of "?s1\<lparr>connCls := Some (r\<lparr>content := concat ps\<rparr>)\<rparr>" "concat ps"] a(1)
    show ?thesis by (simp add: serve_def)
  qed
qed

text \<open>An accepted request: the body is handed on whole, or the refused pieces are missing from it.\<close>

lemma serve_accepted:
  assumes "methodFrom meth = m" and "m \<noteq> M_none" and "find_handler hs path = Val (Some h)"
    and "run_h h (fresh_request c m path limit) w = (Val (), r, w')" and "awaiting limit r"
    and "pieces_ok ps" and "mhd_create M []" and "nd \<or> length (concat ps) \<le> limit"
  shows "serve nd M run_h run_k hs limit c path meth ps w =
    answerCb nd M run_h run_k hs limit c path meth []
      \<lparr>connCls = Some (loaded r ps), queued_responses = [], world = w'\<rparr>"
proof -
  have r: "content r = []" "contentLimit r = limit" "rstate r = Accepted"
    using assms(5) by (simp_all add: awaiting_def)
  have "nd \<or> \<not> refused (contentLimit r) (content r) ps"
    using assms(8) r by (auto simp add: refused_iff)
  with feed_pieces [of "\<lparr>connCls = Some r, queued_responses = [], world = w'\<rparr>" r ps M nd] assms r
  show ?thesis
    by (simp add: serve_def answerCb_def newRequest_def after_entry_def pieces_ok_def Let_def)
qed

lemma serve_oversize_aborts:
  assumes "methodFrom meth = m" and "m \<noteq> M_none" and "find_handler hs path = Val (Some h)"
    and "run_h h (fresh_request c m path limit) w = (Val (), r, w')" and "awaiting limit r"
    and "pieces_ok ps" and "mhd_create M []" and "limit < length (concat ps)"
  shows "fst (serve False M run_h run_k hs limit c path meth ps w) = Abort Assertion"
proof -
  have r: "content r = []" "contentLimit r = limit" "rstate r = Accepted" "response r = None"
    using assms(5) by (simp_all add: awaiting_def)
  let ?call = "answerCb False M run_h run_k hs limit c path meth"
  let ?s = "\<lparr>connCls = Some r, queued_responses = [], world = w'\<rparr>"
  have "fst (feed ?call ps ?s) = Abort Assertion"
    using feed_refused_aborts [of ?s r ps M run_h run_k hs limit c path meth] assms r
    by (simp add: pieces_ok_def refused_iff)
  moreover have "?call [] \<lparr>connCls = None, queued_responses = [], world = w\<rparr> = (Val True, ?s)"
    using assms r by (simp add: answerCb_def newRequest_def after_entry_def Let_def)
  ultimately show ?thesis by (simp add: serve_def)
qed

end

end
