(* ===== verification/Config_Item.thy ===== *)
theory Config_Item
  imports GH_Prelude
begin

text \<open>
  \<open>config::item\<close> of \<open>src/config.h\<close> and \<open>src/config.cpp\<close>: typed access to a node of the parsed
  configuration. The TOML library is a parameter: a record of the functions of \<open>toml::basic_value\<close>
  the code calls, each of which returns a value or the text of its exception.
\<close>

section \<open>The TOML library\<close>

record 't toml =
  tv_is_string :: "'t \<Rightarrow> bool"
  tv_boolean :: "'t \<Rightarrow> string + bool"
  tv_integer :: "'t \<Rightarrow> string + int"
  tv_string :: "'t \<Rightarrow> string + string"
  tv_table :: "'t \<Rightarrow> string + (string \<rightharpoonup> 't)"
  tv_array :: "'t \<Rightarrow> string + 't list"
  tv_at :: "'t \<Rightarrow> nat \<Rightarrow> string + 't"
  tv_file_name :: "'t \<Rightarrow> string"

section \<open>config::item\<close>

definition item_is_string :: "'t toml \<Rightarrow> 't \<Rightarrow> bool" where
  "item_is_string T v = tv_is_string T v"

definition item_to_bool :: "'t toml \<Rightarrow> 't \<Rightarrow> bool res" where
  "item_to_bool T v = toml_res (tv_boolean T v)"

definition item_to_int_range :: "'t toml \<Rightarrow> 't \<Rightarrow> int \<Rightarrow> int \<Rightarrow> int res" where
  "item_to_int_range T v low high =
     bnd (toml_res (tv_integer T v)) (\<lambda>val.
     if low \<le> val \<and> val \<le> high then Val val else Throw (Out_of_range ''value out of range''))"

text \<open>
  \<open>to<T>()\<close> passes the limits of \<open>T\<close>; here the integral types the code uses it with.
  \<open>seconds::rep\<close> is a 64-bit signed integer.
\<close>

datatype int_kind = T_uint16 | T_int | T_uint | T_int64

fun int_limits :: "int_kind \<Rightarrow> int \<times> int" where
  "int_limits T_uint16 = (0, 2 ^ 16 - 1)"
| "int_limits T_int = (- (2 ^ 31), 2 ^ 31 - 1)"
| "int_limits T_uint = (0, 2 ^ 32 - 1)"
| "int_limits T_int64 = (- (2 ^ 63), 2 ^ 63 - 1)"

definition item_to :: "'t toml \<Rightarrow> int_kind \<Rightarrow> 't \<Rightarrow> int res" where
  "item_to T k v = (case int_limits k of (low, high) \<Rightarrow> item_to_int_range T v low high)"

definition item_to_string :: "'t toml \<Rightarrow> 't \<Rightarrow> string res" where
  "item_to_string T v = toml_res (tv_string T v)"

definition item_to_string_view :: "'t toml \<Rightarrow> 't \<Rightarrow> string res" where
  "item_to_string_view T v = bnd (toml_res (tv_string T v)) (\<lambda>s. Val s)"

definition item_contains :: "'t toml \<Rightarrow> 't \<Rightarrow> string \<Rightarrow> bool res" where
  "item_contains T v key = bnd (toml_res (tv_table T v)) (\<lambda>table. Val (table key \<noteq> None))"

definition item_size :: "'t toml \<Rightarrow> 't \<Rightarrow> nat res" where
  "item_size T v = bnd (toml_res (tv_array T v)) (\<lambda>array. Val (length array))"

definition item_key :: "'t toml \<Rightarrow> 't \<Rightarrow> string \<Rightarrow> 't res" where
  "item_key T v key =
     bnd (toml_res (tv_table T v)) (\<lambda>table.
     case table key of
       Some child \<Rightarrow> Val child
     | None \<Rightarrow> Throw (Toml_error (''key not found: '' @ key)))"

definition item_index :: "'t toml \<Rightarrow> 't \<Rightarrow> nat \<Rightarrow> 't res" where
  "item_index T v i = toml_res (tv_at T v i)"

text \<open>\<open>configuration[key].to_string()\<close> and \<open>configuration[key].to_string_view()\<close>.\<close>

definition string_at :: "'t toml \<Rightarrow> 't \<Rightarrow> string \<Rightarrow> string res" where
  "string_at T v key = bnd (item_key T v key) (item_to_string T)"

definition string_view_at :: "'t toml \<Rightarrow> 't \<Rightarrow> string \<Rightarrow> string res" where
  "string_view_at T v key = bnd (item_key T v key) (item_to_string_view T)"

section \<open>Lists and sets of strings\<close>

definition string_list_from :: "'t toml \<Rightarrow> 't \<Rightarrow> string list res" where
  "string_list_from T v =
     bnd (item_size T v) (\<lambda>endi.
     map_res (\<lambda>i. bnd (item_index T v i) (item_to_string_view T)) [0..<endi])"

definition string_set_from :: "'t toml \<Rightarrow> 't \<Rightarrow> string set res" where
  "string_set_from T v =
     (if item_is_string T v then bnd (item_to_string_view T v) (\<lambda>s. Val {s})
      else bnd (item_size T v) (\<lambda>endi.
           bnd (map_res (\<lambda>i. bnd (item_index T v i) (item_to_string_view T)) [0..<endi]) (\<lambda>ss.
           Val (set ss))))"

section \<open>Facts\<close>

lemma item_to_string_view_eq [simp]: "item_to_string_view T v = item_to_string T v"
  by (simp add: item_to_string_view_def item_to_string_def)

lemma item_to_int_range_Val [res_simps]:
  "item_to_int_range T v low high = Val x \<longleftrightarrow> tv_integer T v = Inr x \<and> low \<le> x \<and> x \<le> high"
  by (auto simp add: item_to_int_range_def res_simps)

lemma item_to_bounds: "item_to T k v = Val x \<Longrightarrow> fst (int_limits k) \<le> x \<and> x \<le> snd (int_limits k)"
  by (auto simp add: item_to_def res_simps split: prod.splits)

lemma item_key_contains:
  "item_key T v key = Val child \<Longrightarrow> item_contains T v key = Val True"
  by (auto simp add: item_key_def item_contains_def res_simps split: option.splits)

lemma item_contains_key:
  "item_contains T v key = Val b \<Longrightarrow> (\<exists>child. item_key T v key = Val child) \<longleftrightarrow> b"
  by (cases "tv_table T v") (auto simp add: item_key_def item_contains_def split: option.splits)

text \<open>
  The documented relation of \<open>at(i)\<close> and \<open>as_array\<close>: on an array, \<open>at(i)\<close> is its element, for an \<open>i\<close>
  below the size.
\<close>

definition toml_array_law :: "'t toml \<Rightarrow> bool" where
  "toml_array_law T \<longleftrightarrow> (\<forall>v xs i. tv_array T v = Inr xs \<longrightarrow> i < length xs \<longrightarrow> tv_at T v i = Inr (xs ! i))"

lemma map_res_index:
  assumes "\<And>i. i < length xs \<Longrightarrow> f i = g (xs ! i)"
  shows "map_res f [0..<length xs] = map_res g xs"
  using assms
proof (induction xs arbitrary: f)
  case Nil
  then show ?case by simp
next
  case (Cons x xs)
  have shift: "map_res f (map Suc is) = map_res (\<lambda>i. f (Suc i)) is" for "is"
    by (induction "is") auto
  have "map_res f (map Suc [0..<length xs]) = map_res g xs"
    unfolding shift using Cons.prems by (intro Cons.IH) force
  moreover have "f 0 = g x" using Cons.prems [of 0] by simp
  moreover have "[0..<length (x # xs)] = 0 # map Suc [0..<length xs]"
    by (simp add: map_Suc_upt upt_conv_Cons del: upt_Suc)
  ultimately show ?case by (simp only: map_res.simps)
qed

lemma string_list_from_array:
  assumes "toml_array_law T" and "tv_array T v = Inr xs"
  shows "string_list_from T v = map_res (item_to_string T) xs"
proof -
  have "map_res (\<lambda>i. bnd (item_index T v i) (item_to_string_view T)) [0..<length xs] = map_res (item_to_string T) xs"
    using assms by (intro map_res_index) (auto simp add: item_index_def toml_array_law_def)
  with assms(2) show ?thesis by (simp add: string_list_from_def item_size_def)
qed

lemma string_set_from_array:
  assumes "toml_array_law T" and "tv_array T v = Inr xs" and "\<not> tv_is_string T v"
  shows "string_set_from T v = bnd (map_res (item_to_string T) xs) (\<lambda>ss. Val (set ss))"
  using string_list_from_array [OF assms(1,2)] assms(3)
  by (simp add: string_set_from_def string_list_from_def item_is_string_def item_size_def assms(2))

section \<open>An instance\<close>

text \<open>A plain tree of values, with the functions of the library on it.\<close>

datatype toml_tree =
    T_string string
  | T_integer int
  | T_boolean bool
  | T_array "toml_tree list"
  | T_table "(string \<times> toml_tree) list"

fun tree_array :: "toml_tree \<Rightarrow> string + toml_tree list" where
  "tree_array (T_array xs) = Inr xs"
| "tree_array _ = Inl ''bad_cast to array''"

definition tree_toml :: "toml_tree toml" where
  "tree_toml =
     \<lparr>tv_is_string = (\<lambda>v. case v of T_string s \<Rightarrow> True | _ \<Rightarrow> False),
      tv_boolean = (\<lambda>v. case v of T_boolean b \<Rightarrow> Inr b | _ \<Rightarrow> Inl ''bad_cast to boolean''),
      tv_integer = (\<lambda>v. case v of T_integer i \<Rightarrow> Inr i | _ \<Rightarrow> Inl ''bad_cast to integer''),
      tv_string = (\<lambda>v. case v of T_string s \<Rightarrow> Inr s | _ \<Rightarrow> Inl ''bad_cast to string''),
      tv_table = (\<lambda>v. case v of T_table kvs \<Rightarrow> Inr (map_of kvs) | _ \<Rightarrow> Inl ''bad_cast to table''),
      tv_array = tree_array,
      tv_at = (\<lambda>v i. case tree_array v of
                       Inl m \<Rightarrow> Inl m
                     | Inr xs \<Rightarrow> if i < length xs then Inr (xs ! i) else Inl ''out of range''),
      tv_file_name = (\<lambda>v. ''/etc/gitlab-hook/config.ini'')\<rparr>"

lemma tree_toml_array_law: "toml_array_law tree_toml"
  by (auto simp add: toml_array_law_def tree_toml_def)

end
