(* ===== verification/Json_Api.thy ===== *)
theory Json_Api
  imports GH_Prelude
begin

text \<open>
  What the hooks use of the JSON library (\<open>nlohmann::json\<close>), as a parameter of the model: a record of
  the functions called, each of which returns a value or the \<open>what()\<close> text of the
  \<open>nlohmann::json::exception\<close> it throws. \<open>'j\<close> is the type of JSON values.
\<close>

section \<open>The JSON library\<close>

record 'j json_api =
  j_parse :: "string \<Rightarrow> string + 'j"
  j_at :: "'j \<Rightarrow> string \<Rightarrow> string + 'j"
  j_contains :: "'j \<Rightarrow> string \<Rightarrow> bool"
  j_index :: "'j \<Rightarrow> string \<Rightarrow> string + 'j"
  j_string :: "'j \<Rightarrow> string + string"
  j_int :: "'j \<Rightarrow> string + 32 word"
  j_uint64 :: "'j \<Rightarrow> string + 64 word"
  j_array :: "'j \<Rightarrow> string + 'j list"
  j_is_string :: "'j \<Rightarrow> bool"
  j_dump :: "'j \<Rightarrow> string"

definition at_key :: "'j json_api \<Rightarrow> 'j \<Rightarrow> string \<Rightarrow> 'j res" where
  "at_key J v key = json_res (j_at J v key)"

text \<open>\<open>v.at(key).get_ref<const std::string&>()\<close>.\<close>

definition string_of_key :: "'j json_api \<Rightarrow> 'j \<Rightarrow> string \<Rightarrow> string res" where
  "string_of_key J v key = bnd (at_key J v key) (\<lambda>x. json_res (j_string J x))"

lemma string_of_key_Val [res_simps]:
  "string_of_key J v key = Val s \<longleftrightarrow> (\<exists>x. j_at J v key = Inr x \<and> j_string J x = Inr s)"
  by (auto simp add: string_of_key_def at_key_def res_simps)

lemma string_of_key_Throw: "string_of_key J v key = Throw e \<Longrightarrow> \<exists>m. e = Json_error m"
  by (auto simp add: string_of_key_def at_key_def res_simps)

lemma string_of_key_no_Abort [simp]: "string_of_key J v key \<noteq> Abort f"
  by (auto simp add: string_of_key_def at_key_def res_simps)

section \<open>An instance\<close>

text \<open>Plain values, with a parser that knows one text.\<close>

datatype jtree =
    J_string string
  | J_number nat
  | J_bool bool
  | J_array "jtree list"
  | J_object "(string \<times> jtree) list"

fun jtree_at :: "jtree \<Rightarrow> string \<Rightarrow> string + jtree" where
  "jtree_at (J_object kvs) key =
     (case map_of kvs key of Some v \<Rightarrow> Inr v | None \<Rightarrow> Inl (''key not found: '' @ key))"
| "jtree_at _ key = Inl ''cannot use at()''"

definition jtree_api :: "string \<Rightarrow> jtree \<Rightarrow> jtree json_api" where
  "jtree_api text doc =
     \<lparr>j_parse = (\<lambda>s. if s = text then Inr doc else Inl ''parse error''),
      j_at = jtree_at,
      j_contains = (\<lambda>v key. case jtree_at v key of Inr _ \<Rightarrow> True | Inl _ \<Rightarrow> False),
      j_index = jtree_at,
      j_string = (\<lambda>v. case v of J_string s \<Rightarrow> Inr s | _ \<Rightarrow> Inl ''type must be string''),
      j_int = (\<lambda>v. case v of J_number n \<Rightarrow> Inr (word_of_nat n) | _ \<Rightarrow> Inl ''type must be number''),
      j_uint64 = (\<lambda>v. case v of J_number n \<Rightarrow> Inr (word_of_nat n) | _ \<Rightarrow> Inl ''type must be number''),
      j_array = (\<lambda>v. case v of J_array vs \<Rightarrow> Inr vs | _ \<Rightarrow> Inl ''type must be array''),
      j_is_string = (\<lambda>v. case v of J_string s \<Rightarrow> True | _ \<Rightarrow> False),
      j_dump = (\<lambda>v. ''{}'')\<rparr>"

end
