(* ===== verification/Hook_Core.thy ===== *)
theory Hook_Core
  imports Action_List Http_Contract Config_Item Json_Api
begin

text \<open>
  Class \<open>hook\<close> of \<open>src/hook.h\<close> and \<open>src/hook.cpp\<close> with its two derived classes
  (\<open>src/pipeline_hook.cpp\<close>, \<open>src/debug_hook.cpp\<close>): construction from the configuration, the request
  handler with its checks, the continuation that parses the body and walks the chain of hooks, and the
  scheduling of a command or function.
\<close>

section \<open>Hooks\<close>

text \<open>The members of the base class, of the derived classes, and the chain \<open>mChain\<close>.\<close>

record hook_data =
  uri_path :: string
  hook_name :: string
  mToken :: string
  mAllowedAddress :: string
  mCommand :: string
  mEnvironment :: "string list"
  mTimeout :: int
  mUserGroup :: user_group

datatype hook_kind = Debug_hook | Pipeline_hook (mStatuses: "string set") (mJobNames: "string set")

datatype hook = Hook (hdata: hook_data) (hkind: hook_kind) (mChain: "hook option")

text \<open>The objects visited by \<open>for (iter = this; iter; iter = iter->mChain.get())\<close>.\<close>

fun links :: "hook \<Rightarrow> (hook_data \<times> hook_kind) list" where
  "links (Hook d k None) = [(d, k)]"
| "links (Hook d k (Some h)) = (d, k) # links h"

definition chain :: "bool \<Rightarrow> hook \<Rightarrow> hook \<Rightarrow> hook res" where
  "chain ndebug h other =
     noexcept (bnd (cassert ndebug (mChain h = None)) (\<lambda>_. Val (Hook (hdata h) (hkind h) (Some other))))"

section \<open>Construction from the configuration\<close>

definition user_group_from :: "'t toml \<Rightarrow> user_db \<Rightarrow> 't \<Rightarrow> user_group res" where
  "user_group_from T db v =
     bnd (item_contains T v ''group'') (\<lambda>has_group.
     if has_group
     then bnd (string_at T v ''user'') (\<lambda>user.
          bnd (string_at T v ''group'') (\<lambda>group.
          user_group_of_names db user group))
     else bnd (string_at T v ''user'') (\<lambda>user. user_group_of_user db user))"

text \<open>A member with a default value that an optional entry of the configuration replaces.\<close>

definition optional_entry :: "'t toml \<Rightarrow> 't \<Rightarrow> string \<Rightarrow> 'a \<Rightarrow> ('t \<Rightarrow> 'a res) \<Rightarrow> 'a res" where
  "optional_entry T v key dflt conv =
     bnd (item_contains T v key) (\<lambda>present.
     if present then bnd (item_key T v key) conv else Val dflt)"

text \<open>The constructor; \<open>uid\<close> is the result of \<open>getuid()\<close>.\<close>

definition hook_base :: "'t toml \<Rightarrow> user_db \<Rightarrow> uid_t \<Rightarrow> 't \<Rightarrow> hook_data res" where
  "hook_base T db uid v =
     bnd (string_at T v ''uri_path'') (\<lambda>path.
     bnd (string_at T v ''name'') (\<lambda>nm.
     bnd (string_view_at T v ''token'') (\<lambda>token.
     bnd (optional_entry T v ''peer_address'' [] (item_to_string_view T)) (\<lambda>address.
     bnd (optional_entry T v ''command'' [] (\<lambda>c. bnd (item_to_string_view T c) (\<lambda>s. Val (trimmed s)))) (\<lambda>command.
     bnd (optional_entry T v ''environment'' [] (string_list_from T)) (\<lambda>env.
     bnd (optional_entry T v ''timeout'' 60 (item_to T T_int64)) (\<lambda>timeout.
     let needUser = (command \<noteq> [] \<and> uid = 0) in
     bnd (item_contains T v ''run_as'') (\<lambda>has_run_as.
     bnd (if has_run_as \<or> needUser
          then bnd (item_key T v ''run_as'') (user_group_from T db)
          else Val null_user_group) (\<lambda>user.
     Val \<lparr>uri_path = path, hook_name = nm, mToken = token, mAllowedAddress = address, mCommand = command,
          mEnvironment = env, mTimeout = timeout, mUserGroup = user\<rparr>)))))))))"

definition debug_hook :: "'t toml \<Rightarrow> user_db \<Rightarrow> uid_t \<Rightarrow> 't \<Rightarrow> hook res" where
  "debug_hook T db uid v =
     bnd (hook_base T db uid v) (\<lambda>d.
     bnd (item_contains T v ''command'') (\<lambda>has_command.
     if has_command
     then Throw (Runtime_error (''must not specify command for debug hook '' @ [CHR 0x27] @ hook_name d @ [CHR 0x27]))
     else Val (Hook d Debug_hook None)))"

definition pipeline_hook :: "'t toml \<Rightarrow> user_db \<Rightarrow> uid_t \<Rightarrow> 't \<Rightarrow> hook res" where
  "pipeline_hook T db uid v =
     bnd (hook_base T db uid v) (\<lambda>d.
     bnd (bnd (item_key T v ''job_name'') (string_set_from T)) (\<lambda>jobs.
     bnd (optional_entry T v ''status'' {} (string_set_from T)) (\<lambda>statuses.
     Val (Hook d (Pipeline_hook statuses jobs) None))))"

definition create :: "'t toml \<Rightarrow> user_db \<Rightarrow> uid_t \<Rightarrow> 't \<Rightarrow> hook res" where
  "create T db uid v =
     bnd (string_view_at T v ''type'') (\<lambda>type.
     if type = ''debug'' then debug_hook T db uid v
     else if type = ''pipeline'' then pipeline_hook T db uid v
     else Throw (Runtime_error ''invalid hook type''))"

section \<open>The state requests act on\<close>

text \<open>The functor a debug hook schedules prints the event and the JSON text.\<close>

datatype callable = Print_event string string

record world =
  hooksRequests :: size_t
  hooksGoodRequests :: size_t
  hooksScheduled :: size_t
  scheduler :: "callable action_state"

definition requestCount :: "world \<Rightarrow> size_t" where
  "requestCount w = hooksRequests w"

definition goodRequestCount :: "world \<Rightarrow> size_t" where
  "goodRequestCount w = hooksGoodRequests w"

definition scheduledCount :: "world \<Rightarrow> size_t" where
  "scheduledCount w = hooksScheduled w"

text \<open>
  The libraries a request handler uses. \<open>inet_ntop\<close> is the text \<open>::inet_ntop\<close> writes for the family and
  address bytes of a peer, or \<open>None\<close> on failure.
\<close>

record ('c, 'j) services =
  mhd :: "'c mhd"
  json :: "'j json_api"
  inet_ntop :: "sockaddr \<Rightarrow> string option"

datatype outcome = Stop | Ignored | Accepted_outcome

section \<open>execute\<close>

definition gitlabServerFrom :: "'j json_api \<Rightarrow> 'j \<Rightarrow> string res" where
  "gitlabServerFrom J js =
     bnd (at_key J js ''project'') (\<lambda>project.
     bnd (string_of_key J project ''web_url'') server_of_url)"

definition command_environment ::
  "'j json_api \<Rightarrow> 'j \<Rightarrow> string list \<Rightarrow> environment \<Rightarrow> environment res" where
  "command_environment J js entries env =
     bnd (at_key J js ''project'') (\<lambda>project.
     bnd (bnd (at_key J project ''id'') (\<lambda>x. json_res (j_int J x))) (\<lambda>id.
     let env = env_set env ''CI_PROJECT_ID'' (int_to_string (sint id)) in
     bnd (string_of_key J project ''path_with_namespace'') (\<lambda>path.
     let env = env_set env ''CI_PROJECT_PATH'' path in
     bnd (string_of_key J project ''name'') (\<lambda>title.
     let env = env_set env ''CI_PROJECT_TITLE'' title in
     bnd (string_of_key J project ''web_url'') (\<lambda>url.
     let env = env_set env ''CI_PROJECT_URL'' url in
     bnd (gitlabServerFrom J js) (\<lambda>server.
     let env = env_set env ''CI_SERVER_URL'' server in
     Val (foldl env_set_entry env entries)))))))"

definition execute_command ::
  "'j json_api \<Rightarrow> hook_data \<Rightarrow> 'j \<Rightarrow> environment \<Rightarrow> world \<Rightarrow> outcome res \<times> world" where
  "execute_command J d js env w =
     (if mCommand d \<noteq> []
      then then_do (command_environment J js (mEnvironment d) env, w) (\<lambda>env w.
           case split_command (mCommand d) of (program, args) \<Rightarrow>
             (case schedule_command (hook_name d) program args env (mUserGroup d) (mTimeout d) (scheduler w) of
                Val s \<Rightarrow> (Val Accepted_outcome,
                          w\<lparr>scheduler := s, hooksScheduled := hooksScheduled w + 1\<rparr>)
              | Throw e \<Rightarrow> (Throw e, w)
              | Abort f \<Rightarrow> (Abort f, w)))
      else (Val Ignored, w))"

definition execute_function :: "hook_data \<Rightarrow> callable \<Rightarrow> world \<Rightarrow> outcome res \<times> world" where
  "execute_function d f w =
     (Val Accepted_outcome,
      w\<lparr>scheduler := append_function (hook_name d) f (scheduler w), hooksScheduled := hooksScheduled w + 1\<rparr>)"

section \<open>process\<close>

text \<open>
  \<open>debug_hook::process\<close> and \<open>pipeline_hook::process\<close>; \<open>event\<close> is the header \<open>X-Gitlab-Event\<close> of the request.
\<close>

definition debug_process :: "'j json_api \<Rightarrow> hook_data \<Rightarrow> string \<Rightarrow> 'j \<Rightarrow> world \<Rightarrow> outcome res \<times> world" where
  "debug_process J d event js w = execute_function d (Print_event event (j_dump J js)) w"

text \<open>The loop over the builds, with the names and ids collected so far.\<close>

fun job_loop ::
  "'j json_api \<Rightarrow> string set \<Rightarrow> 'j list \<Rightarrow> string list \<Rightarrow> string list \<Rightarrow> (string list \<times> string list) res" where
  "job_loop J wanted [] jobNames jobIds = Val (jobNames, jobIds)"
| "job_loop J wanted (job # jobs) jobNames jobIds =
     bnd (string_of_key J job ''name'') (\<lambda>jobName.
     bnd (if jobName \<in> wanted
          then bnd (string_of_key J job ''status'') (\<lambda>status. Val (status = ''success''))
          else Val False) (\<lambda>matches.
     if matches
     then bnd (bnd (at_key J job ''id'') (\<lambda>x. json_res (j_uint64 J x))) (\<lambda>id.
          job_loop J wanted jobs (jobNames @ [jobName]) (jobIds @ [nat_to_string (unat id)]))
     else job_loop J wanted jobs jobNames jobIds))"

definition pipeline_environment :: "'j json_api \<Rightarrow> 'j \<Rightarrow> string list \<Rightarrow> string list \<Rightarrow> environment res" where
  "pipeline_environment J js jobNames jobIds =
     (let env = env_set_list [] ''CI_JOB_IDS'' jobIds;
          env = env_set_list env ''CI_JOB_NAMES'' jobNames in
      bnd (at_key J js ''object_attributes'') (\<lambda>attrs.
      bnd (string_of_key J attrs ''ref'') (\<lambda>ref.
      let env = env_set env ''CI_COMMIT_REF_NAME'' ref in
      bnd (string_of_key J attrs ''sha'') (\<lambda>sha.
      let env = env_set env ''CI_COMMIT_SHA'' sha in
      bnd (bnd (at_key J attrs ''id'') (\<lambda>x. json_res (j_uint64 J x))) (\<lambda>id.
      let env = env_set env ''CI_PIPELINE_ID'' (nat_to_string (unat id)) in
      if j_contains J attrs ''tag''
      then bnd (json_res (j_index J attrs ''tag'')) (\<lambda>tag.
           if j_is_string J tag
           then bnd (json_res (j_string J tag)) (\<lambda>tag. Val (env_set env ''CI_COMMIT_TAG'' tag))
           else Val env)
      else Val env)))))"

definition pipeline_process ::
  "'j json_api \<Rightarrow> hook_data \<Rightarrow> string set \<Rightarrow> string set \<Rightarrow> string \<Rightarrow> 'j \<Rightarrow> world \<Rightarrow> outcome res \<times> world" where
  "pipeline_process J d statuses jobs event js w =
     (if event \<noteq> ''Pipeline Hook'' then (Val Ignored, w)
      else then_do (bnd (at_key J js ''object_attributes'') (\<lambda>attrs. string_of_key J attrs ''status''), w) (\<lambda>status w.
           if statuses \<noteq> {} \<and> status \<notin> statuses then (Val Ignored, w)
           else then_do (bnd (at_key J js ''builds'') (\<lambda>x. json_res (j_array J x)), w) (\<lambda>builds w.
                then_do (job_loop J jobs builds [] [], w) (\<lambda>(jobNames, jobIds) w.
                if jobNames = [] then (Val Ignored, w)
                else then_do (pipeline_environment J js jobNames jobIds, w) (\<lambda>env w.
                     execute_command J d js env w)))))"

fun hook_process ::
  "'j json_api \<Rightarrow> hook_data \<times> hook_kind \<Rightarrow> string \<Rightarrow> 'j \<Rightarrow> world \<Rightarrow> outcome res \<times> world" where
  "hook_process J (d, Debug_hook) event js w = debug_process J d event js w"
| "hook_process J (d, Pipeline_hook statuses jobs) event js w = pipeline_process J d statuses jobs event js w"

section \<open>The request handler\<close>

definition addr_to_string :: "(sockaddr \<Rightarrow> string option) \<Rightarrow> sockaddr option \<Rightarrow> string" where
  "addr_to_string ntop addr =
     (case addr of
        None \<Rightarrow> []
      | Some AF_other \<Rightarrow> []
      | Some a \<Rightarrow> (case ntop a of None \<Rightarrow> [] | Some text \<Rightarrow> c_str (take 47 text)))"

text \<open>The two conditions that select a hook of the chain.\<close>

definition selects :: "string \<Rightarrow> string \<Rightarrow> hook_data \<times> hook_kind \<Rightarrow> bool" where
  "selects reqToken peer l \<longleftrightarrow>
     mToken (fst l) = reqToken \<and> (mAllowedAddress (fst l) = [] \<or> peer = mAllowedAddress (fst l))"

fun allowed_loop :: "string \<Rightarrow> string \<Rightarrow> (hook_data \<times> hook_kind) list \<Rightarrow> bool \<Rightarrow> bool" where
  "allowed_loop reqToken peer [] allowed = allowed"
| "allowed_loop reqToken peer (l # ls) allowed =
     allowed_loop reqToken peer ls (if selects reqToken peer l then True else allowed)"

text \<open>The continuation given to \<open>accept\<close> captures the hook and the peer's address.\<close>

datatype continuation = Continue hook string

type_synonym 'c hook_request = "('c, continuation) request"

fun with_world :: "'w \<Rightarrow> ('c, 'k) req_result \<Rightarrow> unit res \<times> ('c, 'k) request \<times> 'w" where
  "with_world w (res, r) = (res, r, w)"

definition hook_call ::
  "bool \<Rightarrow> ('c, 'j) services \<Rightarrow> hook \<Rightarrow> 'c hook_request \<Rightarrow> world
     \<Rightarrow> unit res \<times> 'c hook_request \<times> world" where
  "hook_call ndebug S h r w =
     (let w = w\<lparr>hooksRequests := hooksRequests w + 1\<rparr>;
          peerAddress = addr_to_string (inet_ntop S) (req_peer_address (mhd S) r);
          respond = (\<lambda>code body. with_world w (respond_static ndebug (mhd S) code body r)) in
      if peerAddress = [] then (Throw (Runtime_error ''failed to obtain peer address''), r, w)
      else if req_method r \<noteq> M_post then respond C_method_not_allowed ''method not allowed''
      else if req_path r \<noteq> uri_path (hdata h) then respond C_not_found ''not found''
      else let reqToken = req_header (mhd S) ''X-Gitlab-Token'' r in
           if reqToken = [] then respond C_unauthorized ''unauthorized''
           else if \<not> allowed_loop reqToken peerAddress (links h) False then respond C_forbidden ''forbidden''
           else (case req_accept ndebug (Continue h peerAddress) r of
                   Val r \<Rightarrow> (Val (), r, w)
                 | Throw e \<Rightarrow> (Abort Std_terminate, r, w)
                 | Abort f \<Rightarrow> (Abort f, r, w)))"

text \<open>What \<open>log_request\<close> evaluates besides writing the log message.\<close>

definition log_request :: "'j json_api \<Rightarrow> 'j \<Rightarrow> unit res" where
  "log_request J js =
     (if j_contains J js ''project''
      then bnd (json_res (j_index J js ''project'')) (\<lambda>project.
           bnd (string_of_key J project ''web_url'') (\<lambda>_. Val ()))
      else Val ())"

text \<open>The loop over the chain: the number of accepting hooks, or \<open>None\<close> when one of them stopped.\<close>

fun chain_loop ::
  "'j json_api \<Rightarrow> string \<Rightarrow> string \<Rightarrow> string \<Rightarrow> 'j \<Rightarrow> (hook_data \<times> hook_kind) list \<Rightarrow> nat \<Rightarrow> world
     \<Rightarrow> nat option res \<times> world" where
  "chain_loop J reqToken peer event js [] count w = (Val (Some count), w)"
| "chain_loop J reqToken peer event js (l # ls) count w =
     (if selects reqToken peer l
      then then_do (hook_process J l event js w) (\<lambda>oc w.
           case oc of
             Stop \<Rightarrow> (Val None, w)
           | Ignored \<Rightarrow> chain_loop J reqToken peer event js ls count w
           | Accepted_outcome \<Rightarrow> chain_loop J reqToken peer event js ls (count + 1) w)
      else chain_loop J reqToken peer event js ls count w)"

text \<open>The body of the \<open>try\<close> block: the chain's count, and the catch clauses with the final response.\<close>

definition process_content ::
  "bool \<Rightarrow> ('c, 'j) services \<Rightarrow> hook \<Rightarrow> string \<Rightarrow> 'c hook_request \<Rightarrow> world \<Rightarrow> nat option res \<times> world" where
  "process_content ndebug S h peerAddress r w =
     (let w = w\<lparr>hooksGoodRequests := hooksGoodRequests w + 1\<rparr>;
          reqToken = req_header (mhd S) ''X-Gitlab-Token'' r in
      then_do (bnd (req_content ndebug r) (\<lambda>body. json_res (j_parse (json S) body)), w) (\<lambda>js w.
      then_do (log_request (json S) js, w) (\<lambda>_ w.
      chain_loop (json S) reqToken peerAddress (req_header (mhd S) ''X-Gitlab-Event'' r) js (links h) 0 w)))"

definition catch_and_respond ::
  "bool \<Rightarrow> 'c mhd \<Rightarrow> exn \<Rightarrow> 'c hook_request \<Rightarrow> ('c, continuation) req_result" where
  "catch_and_respond ndebug M e r =
     (case e of
        Json_error what \<Rightarrow> respond_string ndebug M C_bad_request what r
      | _ \<Rightarrow> respond_static ndebug M C_internal_server_error ''internal server error'' r)"

fun terminate_on_throw :: "unit res \<times> 's \<Rightarrow> unit res \<times> 's" where
  "terminate_on_throw (res, s) = (noexcept res, s)"

definition hook_continue ::
  "bool \<Rightarrow> ('c, 'j) services \<Rightarrow> continuation \<Rightarrow> 'c hook_request \<Rightarrow> world
     \<Rightarrow> unit res \<times> 'c hook_request \<times> world" where
  "hook_continue ndebug S k r w =
     (case k of Continue h peerAddress \<Rightarrow>
        terminate_on_throw
          (case process_content ndebug S h peerAddress r w of
             (Abort f, w) \<Rightarrow> (Abort f, r, w)
           | (Throw e, w) \<Rightarrow> with_world w (catch_and_respond ndebug (mhd S) e r)
           | (Val None, w) \<Rightarrow> (Val (), r, w)
           | (Val (Some count), w) \<Rightarrow>
               (case (if count \<noteq> 0 then respond_static ndebug (mhd S) C_accepted ''accepted'' r
                      else respond_static ndebug (mhd S) C_no_content ''ignored'' r) of
                  (Throw e, r) \<Rightarrow> with_world w (catch_and_respond ndebug (mhd S) e r)
                | (res, r) \<Rightarrow> (res, r, w))))"

end
