(* ===== verification/Status_Page.thy ===== *)
theory Status_Page
  imports Hook_Core
begin

text \<open>
  \<open>StatusPage\<close> of \<open>src/main.cpp\<close>: the handler of \<open>/status\<close>, an HTML page with the counters of the hooks
  and of the action list. The rendering of a local time (\<open>localtime_r\<close>, \<open>std::put_time\<close>) and the
  version are parameters.
\<close>

section \<open>The page\<close>

text \<open>The lines of a raw string literal.\<close>

fun unlines :: "string list \<Rightarrow> string" where
  "unlines [] = []"
| "unlines [l] = l"
| "unlines (l # ls) = l @ CHR 0x0A # unlines ls"

definition html_head :: string where
  "html_head =
     unlines [''<!doctype html>'',
      ''<html lang=\"en\" class=\"h-100\">'',
      ''<head>'',
      '' <meta charset=\"utf-8\">'',
      '' <meta name=\"viewport\" content=\"width=device-width, initial-scale=1, shrink-to-fit=no\">'',
      '' <title>Gitlab-Hook Status</title>'',
      '' <link rel=\"stylesheet\" href=\"https://cdn.jsdelivr.net/npm/bootstrap@4.3.1/dist/css/bootstrap.min.css\" integrity=\"sha384-ggOyR0iXCbMQv3Xipma34MD+dH/1fQ784/j6cY/iJTQUOhcWr7x9JvoRxT2MZw1T\" crossorigin=\"anonymous\">'',
      ''</head>'',
      ''<body class=\"d-flex flex-column h-100\">'',
      '' <main role=\"main\" class=\"flex-shrink-0\">'',
      ''  <div class=\"container\">'',
      ''   <h1 class=\"mt-5\">Gitlab-Hook Status</h1>'',
      ''   <dl class=\"mt-4 row\" id=\"infos\">'',
      ''    <dt class=\"col-sm-3\">Up since:</dt><dd class=\"col-sm-9\">'']"

definition html_row :: "string \<Rightarrow> string" where
  "html_row label = unlines [''</dd>'', ''    <dt class=\"col-sm-3\">'' @ label @ '':</dt><dd class=\"col-sm-9\">'']"

definition html_foot :: string where
  "html_foot =
     unlines [''</dd>'',
      ''   </dl>'',
      ''  </div>'',
      '' </main>'',
      '' <footer class=\"footer mt-auto py-3\">'',
      ''  <div class=\"container\">'',
      ''   <span class=\"text-muted\">'',
      ''    <a href=\"https://github.com/nixblik/gitlab-hook\">Gitlab-Hook v'']"

definition html_end :: string where
  "html_end =
     unlines [''</a> &mdash; Copyright &copy; 2024 Uwe Salomon<br />'',
      ''    This program comes with ABSOLUTELY NO WARRANTY. This is free software, and you are welcome to'',
      ''    redistribute it <a href=\"https://www.gnu.org/licenses/gpl-3.0.en.html\">under certain conditions</a>.'',
      ''   </span>'',
      ''  </div>'',
      '' </footer>'',
      ''</body>'',
      ''</html>'']"

lemmas accessors = executedCount_def failedCount_def lastFailure_def requestCount_def goodRequestCount_def scheduledCount_def

text \<open>A counter as the stream prints it.\<close>

definition count_text :: "size_t \<Rightarrow> string" where
  "count_text n = nat_to_string (unat n)"

definition status_body :: "(int \<Rightarrow> string) \<Rightarrow> string \<Rightarrow> int \<Rightarrow> world \<Rightarrow> string" where
  "status_body time_text version start w =
     html_head @ time_text start
     @ html_row ''Good requests'' @ count_text (goodRequestCount w)
     @ html_row ''Rejected requests'' @ count_text (requestCount w - goodRequestCount w)
     @ html_row ''Hooks scheduled'' @ count_text (scheduledCount w)
     @ html_row ''Hooks executed'' @ count_text (executedCount (scheduler w))
     @ html_row ''Hooks failed'' @ count_text (failedCount (scheduler w))
     @ html_row ''Last failure''
     @ (if lastFailure (scheduler w) \<noteq> 0 then time_text (lastFailure (scheduler w)) else [])
     @ html_foot @ version @ html_end"

definition status_page ::
  "bool \<Rightarrow> ('c, 'j) services \<Rightarrow> (int \<Rightarrow> string) \<Rightarrow> string \<Rightarrow> int \<Rightarrow> 'c hook_request \<Rightarrow> world
     \<Rightarrow> unit res \<times> 'c hook_request \<times> world" where
  "status_page ndebug S time_text version start r w =
     with_world w
       (if req_method r \<noteq> M_get
        then respond_static ndebug (mhd S) C_method_not_allowed ''method not allowed'' r
        else respond_string ndebug (mhd S) C_ok (status_body time_text version start w) r)"

end
