(* ===== verification/Request_Handlers.thy ===== *)
theory Request_Handlers
  imports Status_Page Http_Routing
begin

text \<open>
  The handlers \<open>main\<close> registers (the status page and the hooks) as a provider of the contract
  \<^theory_text>\<open>request_handler\<close>, and what each outcome of a hook's handler means: which checks a request has
  passed, which jobs were scheduled, which response is given. The contract is interpreted at the end.
\<close>

section \<open>The handlers\<close>

datatype handler = Status_handler int | Hook_handler hook

definition run_handler ::
  "bool \<Rightarrow> ('c, 'j) services \<Rightarrow> (int \<Rightarrow> string) \<Rightarrow> string \<Rightarrow> handler \<Rightarrow> 'c hook_request \<Rightarrow> world
     \<Rightarrow> unit res \<times> 'c hook_request \<times> world" where
  "run_handler ndebug S time_text version h =
     (case h of
        Status_handler start \<Rightarrow> status_page ndebug S time_text version start
      | Hook_handler hk \<Rightarrow> hook_call ndebug S hk)"

section \<open>No operation of a hook aborts\<close>

named_theorems no_abort "operations that never leave the program"

lemma bnd_no_Abort [no_abort]: "(\<And>f. r \<noteq> Abort f) \<Longrightarrow> (\<And>x f. k x \<noteq> Abort f) \<Longrightarrow> bnd r k \<noteq> Abort f"
  by (auto simp add: bnd_Abort_iff)

lemma at_key_no_Abort [no_abort]: "at_key J v key \<noteq> Abort f"
  by (simp add: at_key_def res_simps)

lemma server_of_url_no_Abort [no_abort]: "server_of_url s \<noteq> Abort f"
  using server_of_url_cases [of s] by auto

lemma gitlabServerFrom_no_Abort [no_abort]: "gitlabServerFrom J js \<noteq> Abort f"
  by (simp add: gitlabServerFrom_def no_abort)

lemma command_environment_no_Abort [no_abort]: "command_environment J js entries env \<noteq> Abort f"
  by (simp add: command_environment_def no_abort res_simps Let_def)

lemma pipeline_environment_no_Abort [no_abort]: "pipeline_environment J js names ids \<noteq> Abort f"
  by (simp add: pipeline_environment_def no_abort res_simps Let_def)

lemma job_loop_no_Abort [no_abort]: "job_loop J wanted jobs names ids \<noteq> Abort f"
  by (induction jobs arbitrary: names ids) (simp_all add: no_abort res_simps)

lemma log_request_no_Abort [no_abort]: "log_request J js \<noteq> Abort f"
  by (simp add: log_request_def no_abort res_simps)

text \<open>An operation on the state that never aborts.\<close>

definition safe :: "'a res \<times> 's \<Rightarrow> bool" where
  "safe p \<longleftrightarrow> (\<forall>f. fst p \<noteq> Abort f)"

lemma safe_pair [simp]: "safe (r, w) \<longleftrightarrow> (\<forall>f. r \<noteq> Abort f)"
  by (simp add: safe_def)

lemma safe_then_do: "safe p \<Longrightarrow> (\<And>x s. safe (f x s)) \<Longrightarrow> safe (then_do p f)"
  by (cases "(p, f)" rule: then_do.cases) (auto simp add: safe_def)

lemma execute_command_safe: "safe (execute_command J d js env w)"
  by (auto simp add: execute_command_def schedule_command_eq no_abort split: prod.split intro!: safe_then_do)

lemma pipeline_process_safe: "safe (pipeline_process J d statuses jobs event js w)"
  by (auto simp add: pipeline_process_def no_abort res_simps execute_command_safe split: prod.split
      intro!: safe_then_do)

lemma hook_process_safe: "safe (hook_process J l event js w)"
  by (cases "(J, l, event, js, w)" rule: hook_process.cases)
    (simp_all add: debug_process_def execute_function_def pipeline_process_safe)

lemma chain_loop_safe: "safe (chain_loop J reqToken peer event js ls count w)"
  by (induction ls arbitrary: count w)
    (auto intro!: safe_then_do hook_process_safe split: outcome.split)

lemma process_content_safe:
  assumes "rstate r = Completed" and "has_body (rmethod r)"
  shows "safe (process_content nd S h peer r w)"
  using assms by (auto simp add: process_content_def req_content_def Let_def no_abort res_simps
      intro!: safe_then_do chain_loop_safe)

section \<open>What the handlers leave behind\<close>

lemma respond_static_none:
  "response r = None \<Longrightarrow> respond_static nd M code body r =
     (if mhd_create M body
      then (Val (), r\<lparr>response := Some body, responseCode := Some code, rstate := Responded\<rparr>)
      else (Throw (Runtime_error ''failed to create HTTP response''), r\<lparr>response := None\<rparr>))"
  by (simp add: respond_static_def)

lemma respond_string_none:
  "response r = None \<Longrightarrow> respond_string nd M code body r =
     respond_static nd M code body (r\<lparr>responseBody := body\<rparr>)"
  by (simp add: respond_string_def)

lemma fresh_simps [simp]:
  "response (fresh_request c m path limit) = None" "rstate (fresh_request c m path limit) = Created"
  "rmethod (fresh_request c m path limit) = m" "url (fresh_request c m path limit) = path"
  "rconn (fresh_request c m path limit) = c" "content (fresh_request c m path limit) = []"
  "contentLimit (fresh_request c m path limit) = limit"
  by (simp_all add: fresh_request_def)

lemma allowed_loop_iff: "allowed_loop t p ls b \<longleftrightarrow> b \<or> (\<exists>l\<in>set ls. selects t p l)"
  by (induction ls arbitrary: b) auto

text \<open>The checks of \<open>operator()\<close>, in order: the code of the refusal, or \<open>None\<close>.\<close>

definition refusal :: "('c, 'j) services \<Rightarrow> hook \<Rightarrow> string \<Rightarrow> 'c hook_request \<Rightarrow> (http_code \<times> string) option" where
  "refusal S h peer r =
     (let token = req_header (mhd S) ''X-Gitlab-Token'' r in
      if rmethod r \<noteq> M_post then Some (C_method_not_allowed, ''method not allowed'')
      else if url r \<noteq> uri_path (hdata h) then Some (C_not_found, ''not found'')
      else if token = [] then Some (C_unauthorized, ''unauthorized'')
      else if \<forall>l\<in>set (links h). \<not> selects token peer l then Some (C_forbidden, ''forbidden'')
      else None)"

definition peer_of :: "('c, 'j) services \<Rightarrow> 'c hook_request \<Rightarrow> string" where
  "peer_of S r = addr_to_string (inet_ntop S) (req_peer_address (mhd S) r)"

lemma hook_call_eq:
  assumes "rstate r = Created" and "response r = None"
  shows "hook_call nd S h r w =
    (let w' = w\<lparr>hooksRequests := hooksRequests w + 1\<rparr> in
     if peer_of S r = [] then (Throw (Runtime_error ''failed to obtain peer address''), r, w')
     else case refusal S h (peer_of S r) r of
            Some (code, body) \<Rightarrow> with_world w' (respond_static nd (mhd S) code body r)
          | None \<Rightarrow> (Val (), r\<lparr>rhandler := Some (Continue h (peer_of S r)), rstate := Accepted\<rparr>, w'))"
  using assms
  by (auto simp add: hook_call_def refusal_def peer_of_def Let_def allowed_loop_iff req_accept_def has_body_def)

lemma hook_call_contract:
  assumes "hook_call nd S h (fresh_request c m path limit) w = (res, r, w')"
  shows "(\<exists>e. res = Throw e) \<or> res = Val () \<and> (rstate r = Created \<or> awaiting limit r \<or> answered r)"
proof (cases "peer_of S (fresh_request c m path limit) = []")
  case True
  with assms show ?thesis by (auto simp add: hook_call_eq Let_def)
next
  case False
  let ?r = "fresh_request c m path limit :: 'a hook_request"
  show ?thesis
  proof (cases "refusal S h (peer_of S ?r) ?r")
    case None
    then have "m = M_post" by (auto simp add: refusal_def Let_def split: if_splits)
    with None False assms show ?thesis
      by (auto simp add: hook_call_eq Let_def awaiting_def has_body_def)
  next
    case (Some cb)
    with False assms show ?thesis
      by (auto simp add: hook_call_eq Let_def respond_static_none answered_def split: prod.splits if_splits)
  qed
qed

lemma status_page_contract:
  assumes "status_page nd S tt v start (fresh_request c m path limit) w = (res, r, w')"
  shows "(\<exists>e. res = Throw e) \<or> res = Val () \<and> (rstate r = Created \<or> awaiting limit r \<or> answered r)"
  using assms
  by (auto simp add: status_page_def respond_static_none respond_string_none answered_def split: if_splits)

lemma catch_and_respond_none:
  assumes "response r = None" and "\<And>body. mhd_create M body"
  shows "\<exists>r'. catch_and_respond nd M e r = (Val (), r') \<and> answered r'
     \<and> responseCode r' = Some (case e of Json_error what \<Rightarrow> C_bad_request | _ \<Rightarrow> C_internal_server_error)
     \<and> response r' = Some (case e of Json_error what \<Rightarrow> what | _ \<Rightarrow> ''internal server error'')"
  using assms
  by (cases e) (simp_all add: catch_and_respond_def respond_static_none respond_string_none answered_def)

lemma hook_continue_contract:
  assumes "\<And>body. mhd_create (mhd S) body" and "rstate r = Completed" and "has_body (rmethod r)"
    and "response r = None" and "hook_continue nd S k r w = (res, r', w')"
  shows "(\<exists>e. res = Throw e) \<or> res = Val () \<and> (rstate r' = Completed \<or> answered r')"
proof -
  obtain h peer where k: "k = Continue h peer" by (cases k)
  obtain res1 w1 where p: "process_content nd S h peer r w = (res1, w1)" by force
  with process_content_safe [OF assms(2,3), of nd S h peer w] have safe: "res1 \<noteq> Abort f" for f by simp
  show ?thesis
  proof (cases res1)
    case (Val x)
    show ?thesis
    proof (cases x)
      case None
      with Val p assms k show ?thesis by (simp add: hook_continue_def)
    next
      case (Some count)
      with Val p assms k show ?thesis
        by (auto simp add: hook_continue_def respond_static_none answered_def split: if_splits)
    qed
  next
    case (Throw e)
    with catch_and_respond_none [OF assms(4,1), where nd = nd and e = e] p assms k show ?thesis
      by (auto simp add: hook_continue_def)
  next
    case (Abort f)
    with safe [of f] show ?thesis by simp
  qed
qed

interpretation hh: request_handler "mhd S" "run_handler nd S time_text version" "hook_continue nd S"
  for S :: "('c, 'j) services" and nd time_text version
proof unfold_locales
  fix h c m path limit w res and r :: "'c hook_request" and w'
  assume "run_handler nd S time_text version h (fresh_request c m path limit) w = (res, r, w')"
  then show "(\<exists>e. res = Throw e) \<or> res = Val () \<and> (rstate r = Created \<or> awaiting limit r \<or> answered r)"
    by (cases h) (auto simp add: run_handler_def dest: status_page_contract hook_call_contract)
next
  fix r k w res and r' :: "'c hook_request" and w'
  assume "\<And>body. mhd_create (mhd S) body" "rstate r = Completed" "has_body (rmethod r)" "response r = None"
    "hook_continue nd S k r w = (res, r', w')"
  then show "(\<exists>e. res = Throw e) \<or> res = Val () \<and> (rstate r' = Completed \<or> answered r')"
    by (rule hook_continue_contract)
qed

end
