(* ===== verification/Example_Site.thy ===== *)
theory Example_Site
  imports Request_Handlers
begin

text \<open>
  A small concrete installation the witnesses of the request properties run on: a peer, a debug hook
  and a pipeline hook for the same path, and one pipeline event as the body of the request.
\<close>

section \<open>The libraries\<close>

text \<open>A connection is its list of headers; the peer is 10.0.0.1.\<close>

type_synonym headers = "(string \<times> string) list"

definition site_mhd :: "headers mhd" where
  "site_mhd =
     \<lparr>mhd_create = (\<lambda>_. True), mhd_queue = (\<lambda>_ _ _. True), mhd_header = map_of,
      mhd_argument = (\<lambda>_ _. None), mhd_client_addr = (\<lambda>_. Some (AF_INET [10, 0, 0, 1]))\<rparr>"

definition site_project :: jtree where
  "site_project = J_object
     [(''id'', J_number 15), (''name'', J_string ''Shop''), (''path_with_namespace'', J_string ''web/shop''),
      (''web_url'', J_string ''https://gitlab.example.com/web/shop'')]"

definition site_build :: "string \<Rightarrow> string \<Rightarrow> nat \<Rightarrow> jtree" where
  "site_build job state n =
     J_object [(''id'', J_number n), (''name'', J_string job), (''status'', J_string state)]"

definition site_doc :: jtree where
  "site_doc = J_object
     [(''object_attributes'', J_object
         [(''id'', J_number 31), (''ref'', J_string ''main''), (''sha'', J_string ''bcbb5ec3''),
          (''tag'', J_bool False), (''status'', J_string ''success'')]),
      (''project'', site_project),
      (''builds'', J_array [site_build ''test'' ''success'' 376, site_build ''build-this'' ''success'' 377,
                            site_build ''build-that'' ''failed'' 378])]"

definition site_text :: string where
  "site_text = ''pipeline event''"

definition site_json :: "jtree json_api" where
  "site_json = jtree_api site_text site_doc"

definition site :: "(headers, jtree) services" where
  "site = \<lparr>mhd = site_mhd, json = site_json, inet_ntop = (\<lambda>_. Some ''10.0.0.1'')\<rparr>"

section \<open>The hooks\<close>

definition site_data :: hook_data where
  "site_data = \<lparr>uri_path = ''/api/deploy'', hook_name = ''deploy'', mToken = ''secret'',
     mAllowedAddress = [], mCommand = ''/usr/bin/echo Hello, world!'', mEnvironment = [''LANG=C''],
     mTimeout = 60, mUserGroup = \<lparr>mUid = 65534, mGid = 65534\<rparr>\<rparr>"

definition site_debug :: hook where
  "site_debug = Hook (site_data\<lparr>hook_name := ''debug'', mCommand := []\<rparr>) Debug_hook None"

definition site_pipeline :: hook where
  "site_pipeline = Hook site_data (Pipeline_hook {''success''} {''build-this'', ''build-that''}) None"

definition site_chain :: hook where
  "site_chain = Hook (site_data\<lparr>hook_name := ''debug'', mCommand := []\<rparr>) Debug_hook (Some site_pipeline)"

definition site_handlers :: "string \<rightharpoonup> handler" where
  "site_handlers = [''/status'' \<mapsto> Status_handler 0, ''/api/deploy'' \<mapsto> Hook_handler site_chain]"

definition site_world :: world where
  "site_world = \<lparr>hooksRequests = 0, hooksGoodRequests = 0, hooksScheduled = 0, scheduler = initial_actions\<rparr>"

text \<open>The headers of a well-authorised event, and of one without the right token.\<close>

definition good_headers :: headers where
  "good_headers = [(''X-Gitlab-Token'', ''secret''), (''X-Gitlab-Event'', ''Pipeline Hook'')]"

definition bad_headers :: headers where
  "bad_headers = [(''X-Gitlab-Token'', ''guess''), (''X-Gitlab-Event'', ''Pipeline Hook'')]"

definition site_time :: "int \<Rightarrow> string" where
  "site_time t = int_to_string t"

section \<open>Evaluation\<close>

lemmas site_defs =
  site_def site_mhd_def site_json_def jtree_api_def site_doc_def site_project_def site_build_def
  site_text_def site_data_def site_debug_def site_pipeline_def site_chain_def site_world_def
  good_headers_def bad_headers_def

lemma site_create [simp]: "mhd_create (mhd site) body"
  by (simp add: site_def site_mhd_def)

lemma site_queue [simp]: "mhd_queue (mhd site) c code body"
  by (simp add: site_def site_mhd_def)

lemma site_peer [simp]: "peer_of site r = ''10.0.0.1''"
  by (simp add: peer_of_def addr_to_string_def req_peer_address_def site_def site_mhd_def c_str_def)

lemma site_token [simp]: "req_header (mhd site) key r = (case map_of (rconn r) key of None \<Rightarrow> [] | Some v \<Rightarrow> v)"
  by (simp add: req_header_def site_def site_mhd_def)

lemma site_find [simp]:
  "find_handler site_handlers ''/api/deploy'' = Val (Some (Hook_handler site_chain))"
  by (rule rt.search_exact) (simp_all add: site_handlers_def slash_def)

end
