(* ===== verification/Http_Facts.thy ===== *)
theory Http_Facts
  imports Example_Site
begin

text \<open>
  The properties of a whole HTTP request to the server with its registered handlers, from the first
  callback of the library to the queued response.
\<close>

section \<open>The server with its handlers\<close>

definition serve_hooks ::
  "bool \<Rightarrow> ('c, 'j) services \<Rightarrow> (int \<Rightarrow> string) \<Rightarrow> string \<Rightarrow> (string \<rightharpoonup> handler) \<Rightarrow> nat \<Rightarrow> 'c \<Rightarrow> string \<Rightarrow> string
     \<Rightarrow> string list \<Rightarrow> world \<Rightarrow> bool res \<times> ('c, continuation, world) connection" where
  "serve_hooks ndebug S time_text version handlers limit c path meth pieces w =
     serve ndebug (mhd S) (run_handler ndebug S time_text version) (hook_continue ndebug S)
       handlers limit c path meth pieces w"

text \<open>No hook stops the chain, so the loop always gives a count.\<close>

lemma execute_command_not_Stop: "execute_command J d js env w \<noteq> (Val Stop, w')"
  by (auto simp add: execute_command_def schedule_command_eq then_do_Val_iff split: prod.splits)

lemma pipeline_process_not_Stop: "pipeline_process J d statuses jobs event js w \<noteq> (Val Stop, w')"
  by (auto simp add: pipeline_process_def then_do_Val_iff execute_command_not_Stop split: if_splits)

lemma hook_process_not_Stop: "hook_process J l event js w \<noteq> (Val Stop, w')"
  by (cases "(J, l, event, js, w)" rule: hook_process.cases)
    (simp_all add: debug_process_def execute_function_def pipeline_process_not_Stop)

lemma chain_loop_counts: "chain_loop J t p event js ls count w \<noteq> (Val None, w')"
proof (induction ls arbitrary: count w)
  case (Cons l ls)
  then show ?case
    by (auto simp add: then_do_Val_iff hook_process_not_Stop split: outcome.splits)
qed simp

lemma process_content_counts: "process_content nd S h peer r w \<noteq> (Val None, w')"
  by (auto simp add: process_content_def Let_def then_do_Val_iff chain_loop_counts)

section \<open>The answer to an accepted request\<close>

text \<open>The response for the outcome of the \<open>try\<close> block.\<close>

fun reply :: "nat option res \<Rightarrow> http_code \<times> string" where
  "reply (Val (Some n)) = (if n = 0 then (C_no_content, ''ignored'') else (C_accepted, ''accepted''))"
| "reply (Throw (Json_error what)) = (C_bad_request, what)"
| "reply _ = (C_internal_server_error, ''internal server error'')"

lemma hook_continue_reply:
  assumes "\<And>body. mhd_create (mhd S) body" and "response r = None"
    and "process_content nd S h peer r w = (res, w')" and "\<And>f. res \<noteq> Abort f"
  shows "\<exists>r'. hook_continue nd S (Continue h peer) r w = (Val (), r', w') \<and> rstate r' = Responded
     \<and> responseCode r' = Some (fst (reply res)) \<and> response r' = Some (snd (reply res))"
proof (cases res)
  case (Val x)
  with process_content_counts [of nd S h peer r w w'] assms(3) obtain n where "x = Some n" by (cases x) auto
  with Val assms(1,2,3) show ?thesis by (simp add: hook_continue_def respond_static_none)
next
  case (Throw e)
  with assms(1,2,3) show ?thesis
    by (cases e) (simp_all add: hook_continue_def catch_and_respond_def respond_static_none respond_string_none)
next
  case (Abort f)
  with assms(4) [of f] show ?thesis by simp
qed

abbreviation post_request :: "'c \<Rightarrow> string \<Rightarrow> nat \<Rightarrow> 'c hook_request" where
  "post_request c path limit \<equiv> fresh_request c M_post path limit"

definition accepted_request :: "('c, 'j) services \<Rightarrow> hook \<Rightarrow> 'c \<Rightarrow> string \<Rightarrow> nat \<Rightarrow> string \<Rightarrow> 'c hook_request" where
  "accepted_request S h c path limit body =
     (post_request c path limit)
       \<lparr>rhandler := Some (Continue h (peer_of S (post_request c path limit))),
        content := body, rstate := Completed\<rparr>"

lemma peer_of_any: "peer_of S r = peer_of S r'" if "rconn r = rconn r'"
  using that by (simp add: peer_of_def req_peer_address_def)

lemma entry_accepts:
  assumes r0: "r0 = post_request c path limit" and "peer_of S r0 \<noteq> []" and "refusal S h (peer_of S r0) r0 = None"
  shows "run_handler nd S tt v (Hook_handler h) r0 w =
    (Val (), r0\<lparr>rhandler := Some (Continue h (peer_of S r0)), rstate := Accepted\<rparr>,
     w\<lparr>hooksRequests := hooksRequests w + 1\<rparr>)"
  using assms by (simp add: run_handler_def hook_call_eq Let_def)

lemma accepted_answer:
  assumes r0: "r0 = post_request c path limit" and "\<And>body. mhd_create (mhd S) body" and "\<And>code body. mhd_queue (mhd S) c code body"
    and "find_handler handlers path = Val (Some (Hook_handler h))"
    and "peer_of S r0 \<noteq> []" and "refusal S h (peer_of S r0) r0 = None"
    and "pieces_ok pieces" and "length (concat pieces) \<le> limit"
    and "process_content nd S h (peer_of S r0) (accepted_request S h c path limit (concat pieces))
           (w\<lparr>hooksRequests := hooksRequests w + 1\<rparr>) = (res, w')"
  shows "\<exists>s. serve_hooks nd S tt v handlers limit c path ''POST'' pieces w = (Val True, s)
     \<and> queued_responses s = [reply res] \<and> world s = w'"
proof -
  let ?r1 = "r0\<lparr>rhandler := Some (Continue h (peer_of S r0)), rstate := Accepted\<rparr>"
  let ?w1 = "w\<lparr>hooksRequests := hooksRequests w + 1\<rparr>"
  let ?body = "concat pieces"
  have entry: "run_handler nd S tt v (Hook_handler h) r0 w = (Val (), ?r1, ?w1)"
    by (rule entry_accepts [OF r0 assms(5,6)])
  have aw: "awaiting limit ?r1" by (simp add: r0 awaiting_def has_body_def)
  have m: "methodFrom ''POST'' = M_post" by (simp add: methodFrom_def)
  have load: "loaded ?r1 pieces = ?r1\<lparr>content := ?body\<rparr>"
    using assms(8) loaded_all [of ?r1 pieces] by (simp add: r0)
  have acc: "rstate (accepted_request S h c path limit ?body) = Completed"
    "has_body (rmethod (accepted_request S h c path limit ?body))"
    "response (accepted_request S h c path limit ?body) = None"
    by (simp_all add: accepted_request_def has_body_def)
  have safe: "res \<noteq> Abort f" for f
    using process_content_safe [OF acc(1,2), of nd S h "peer_of S r0" ?w1] assms(9) by simp
  from hook_continue_reply [OF assms(2) acc(3) assms(9) safe] obtain r'
    where k: "hook_continue nd S (Continue h (peer_of S r0)) (accepted_request S h c path limit ?body) ?w1 = (Val (), r', w')"
      "rstate r' = Responded" "responseCode r' = Some (fst (reply res))" "response r' = Some (snd (reply res))"
    by blast
  have "serve_hooks nd S tt v handlers limit c path ''POST'' pieces w =
      answerCb nd (mhd S) (run_handler nd S tt v) (hook_continue nd S) handlers limit c path ''POST'' []
        \<lparr>connCls = Some (?r1\<lparr>content := ?body\<rparr>), queued_responses = [], world = ?w1\<rparr>"
    unfolding serve_hooks_def load [symmetric]
    using hh.serve_accepted [OF m _ assms(4) entry [unfolded r0] aw [unfolded r0] assms(7), of nd] assms(2,8)
    by (simp add: r0)
  also have "\<dots> = (Val True, \<lparr>connCls = Some r', queued_responses = [reply res], world = w'\<rparr>)"
    using k assms(3)
    by (simp add: answerCb_def completeRequest_def after_completion_def queue_response_def accepted_request_def r0)
  finally show ?thesis by simp
qed

text \<open>
  (C9) A well-authorised POST request to a hook, whose body keeps to the content limit and arrives in pieces
  that are not empty, is answered exactly once, by the outcome of the hooks on the whole body: 202 if some
  hook scheduled its command or function, 204 if none did, 400 with the message of a JSON error, 500 for
  any other exception. It counts as one request and acts on the state exactly as the hooks do. It is
  assumed that the HTTP library can create and queue the response and knows the address of the peer.
\<close>

theorem hook_request_end_to_end:
  assumes r0: "r0 = post_request c path limit" and "\<And>body. mhd_create (mhd S) body" and "\<And>code body. mhd_queue (mhd S) c code body"
    and "find_handler handlers path = Val (Some (Hook_handler h))"
    and "peer_of S r0 \<noteq> []" and "refusal S h (peer_of S r0) r0 = None"
    and "pieces_ok pieces" and "length (concat pieces) \<le> limit"
    and "process_content nd S h (peer_of S r0) (accepted_request S h c path limit (concat pieces))
           (w\<lparr>hooksRequests := hooksRequests w + 1\<rparr>) = (res, w')"
  shows "\<exists>s. serve_hooks nd S tt v handlers limit c path ''POST'' pieces w = (Val True, s)
     \<and> queued_responses s = [reply res] \<and> world s = w'"
  using assms by (rule accepted_answer)

text \<open>The concrete event: both hooks of the chain schedule something.\<close>

lemma site_process:
  "process_content nd site site_chain ''10.0.0.1'' (accepted_request site site_chain good_headers ''/api/deploy'' limit site_text) w
     = (Val (Some 2), snd (process_content nd site site_chain ''10.0.0.1''
         (accepted_request site site_chain good_headers ''/api/deploy'' limit site_text) w))
   \<and> map it_name (actions (scheduler (snd (process_content nd site site_chain ''10.0.0.1''
         (accepted_request site site_chain good_headers ''/api/deploy'' limit site_text) w))))
     = map it_name (actions (scheduler w)) @ [''debug'', ''deploy'']"
  by (simp add: process_content_def accepted_request_def fresh_request_def req_content_def has_body_def
      site_defs req_header_def log_request_def string_of_key_def at_key_def selects_def debug_process_def
      execute_function_def pipeline_process_def pipeline_environment_def execute_command_def
      command_environment_def gitlabServerFrom_def server_of_url_def find_char_from_def find_first_of_def
      schedule_command_eq append_process_def append_function_def append_item_def Let_def split_beta)

lemma site_process_kinds:
  "map (\<lambda>i. it_process i \<noteq> None) (actions (scheduler (snd (process_content nd site site_chain ''10.0.0.1''
         (accepted_request site site_chain good_headers ''/api/deploy'' limit site_text) w))))
     = map (\<lambda>i. it_process i \<noteq> None) (actions (scheduler w)) @ [False, True]"
  by (simp add: process_content_def accepted_request_def fresh_request_def req_content_def has_body_def
      site_defs req_header_def log_request_def string_of_key_def at_key_def selects_def debug_process_def
      execute_function_def pipeline_process_def pipeline_environment_def execute_command_def
      command_environment_def gitlabServerFrom_def server_of_url_def find_char_from_def find_first_of_def
      schedule_command_eq append_process_def append_function_def append_item_def Let_def split_beta)

lemma site_accepts:
  "refusal site site_chain ''10.0.0.1'' (post_request good_headers ''/api/deploy'' limit) = None"
  by (simp add: refusal_def Let_def site_defs req_header_def selects_def fresh_request_def)

lemma site_schedules:
  "\<exists>s. serve_hooks False site site_time ''1.0'' site_handlers 65535 good_headers ''/api/deploy'' ''POST''
         [''pipeline'', '' event''] site_world = (Val True, s)
     \<and> queued_responses s = [(C_accepted, ''accepted'')]
     \<and> map it_name (actions (scheduler (world s))) = [''debug'', ''deploy'']"
proof -
  let ?r = "accepted_request site site_chain good_headers ''/api/deploy'' 65535 site_text"
  let ?w = "site_world\<lparr>hooksRequests := hooksRequests site_world + 1\<rparr>"
  let ?p = "process_content False site site_chain ''10.0.0.1'' ?r ?w"
  have p: "?p = (Val (Some 2), snd ?p)" using site_process by (rule conjunct1)
  have n: "map it_name (actions (scheduler (snd ?p))) = [''debug'', ''deploy'']"
    unfolding site_process [THEN conjunct2] by (simp add: site_world_def initial_actions_def)
  from accepted_answer [of "post_request good_headers ''/api/deploy'' 65535" good_headers
      "''/api/deploy''" 65535 site site_handlers site_chain "[''pipeline'', '' event'']" False
      site_world "Val (Some 2)" "snd ?p" site_time "''1.0''"] p n
  show ?thesis by (auto simp add: site_accepts pieces_ok_def site_text_def)
qed

theorem hook_request_end_to_end_witness:
  "\<exists>s. serve_hooks False site site_time ''1.0'' site_handlers 65535 good_headers ''/api/deploy'' ''POST''
         [''pipeline'', '' event''] site_world = (Val True, s)
     \<and> queued_responses s = [(C_accepted, ''accepted'')]
     \<and> map it_name (actions (scheduler (world s))) = [''debug'', ''deploy'']"
proof -
  let ?r = "accepted_request site site_chain good_headers ''/api/deploy'' 65535 site_text"
  let ?w = "site_world\<lparr>hooksRequests := hooksRequests site_world + 1\<rparr>"
  let ?p = "process_content False site site_chain ''10.0.0.1'' ?r ?w"
  have p: "?p = (Val (Some 2), snd ?p)" using site_process by (rule conjunct1)
  have n: "map it_name (actions (scheduler (snd ?p))) = [''debug'', ''deploy'']"
    unfolding site_process [THEN conjunct2] by (simp add: site_world_def initial_actions_def)
  from hook_request_end_to_end [of "post_request good_headers ''/api/deploy'' 65535" good_headers
      "''/api/deploy''" 65535 site site_handlers site_chain "[''pipeline'', '' event'']" False
      site_world "Val (Some 2)" "snd ?p" site_time "''1.0''"] p n
  show ?thesis by (auto simp add: site_accepts pieces_ok_def site_text_def)
qed

section \<open>Requests that are refused\<close>

text \<open>
  (C25) A request to a hook that fails one of the checks is answered at once with the code of the first
  failing check: 405 unless it is a POST, 404 unless the path is the configured one, 401 without a
  token, 403 unless some hook of the chain has that token and admits the peer. Nothing but the
  counter of requests changes.
\<close>

theorem refused_request_answered:
  assumes r0: "r0 = fresh_request c (methodFrom meth) path limit"
    and "\<And>body. mhd_create (mhd S) body" and "\<And>code body. mhd_queue (mhd S) c code body"
    and "methodFrom meth \<noteq> M_none"
    and "find_handler handlers path = Val (Some (Hook_handler h))"
    and "peer_of S r0 \<noteq> []" and "refusal S h (peer_of S r0) r0 = Some (code, body)"
  shows "\<exists>s. serve_hooks nd S tt v handlers limit c path meth pieces w = (Val True, s)
     \<and> queued_responses s = [(code, body)] \<and> world s = w\<lparr>hooksRequests := hooksRequests w + 1\<rparr>"
proof -
  have call: "hook_call nd S h r0 w = (Val (), r0\<lparr>response := Some body, responseCode := Some code,
      rstate := Responded\<rparr>, w\<lparr>hooksRequests := hooksRequests w + 1\<rparr>)"
    using assms by (simp add: hook_call_eq Let_def respond_static_none)
  show ?thesis
    using call assms(3-5)
    by (simp add: serve_hooks_def serve_def answerCb_def newRequest_def run_handler_def after_entry_def
        queue_response_def r0)
qed

theorem refused_request_answered_witness:
  "\<exists>s. serve_hooks False site site_time ''1.0'' site_handlers 65535 bad_headers ''/api/deploy'' ''POST''
         [''pipeline'', '' event''] site_world = (Val True, s)
     \<and> queued_responses s = [(C_forbidden, ''forbidden'')] \<and> scheduler (world s) = initial_actions"
proof -
  have "refusal site site_chain ''10.0.0.1'' (post_request bad_headers ''/api/deploy'' 65535)
      = Some (C_forbidden, ''forbidden'')"
    by (simp add: refusal_def Let_def site_defs req_header_def selects_def fresh_request_def)
  with refused_request_answered [of "post_request bad_headers ''/api/deploy'' 65535" bad_headers
      "''POST''" "''/api/deploy''" 65535 site site_handlers site_chain C_forbidden "''forbidden''" False
      site_time "''1.0''" "[''pipeline'', '' event'']" site_world]
  show ?thesis by (auto simp add: methodFrom_def site_world_def)
qed

section \<open>At most one response, and exactly one within the limit\<close>

text \<open>No request is answered twice, whatever the handlers do and however long its body is.\<close>

theorem answered_at_most_once:
  assumes "[] \<notin> set pieces"
  shows "length (queued_responses (snd (serve_hooks nd S tt v handlers limit c path meth pieces w))) \<le> 1"
  unfolding serve_hooks_def by (rule serve_queue [OF surjective_pairing assms])

theorem answered_at_most_once_witness:
  "length (queued_responses (snd (serve_hooks True site site_time ''1.0'' site_handlers 5 good_headers
     ''/api/deploy'' ''POST'' [''pipeline'', '' event''] site_world))) \<le> 1"
  by (rule answered_at_most_once) simp

text \<open>
  (C24) As long as the body of a request keeps within the content limit and responses can be created,
  the callbacks of the server end without a failed assertion or a terminated program, whatever the
  request is, and the request is either answered exactly once or closed without an answer.
\<close>

theorem requests_within_limit_answered:
  assumes "\<And>body. mhd_create (mhd S) body" and "pieces_ok pieces" and "length (concat pieces) \<le> limit"
  shows "\<exists>ok s. serve_hooks nd S tt v handlers limit c path meth pieces w = (Val ok, s)
     \<and> length (queued_responses s) = (if ok then 1 else 0)"
  unfolding serve_hooks_def using assms find_handler_total by (rule hh.served_once)

theorem requests_within_limit_answered_witness:
  "\<exists>ok s. serve_hooks False site site_time ''1.0'' site_handlers 65535 good_headers ''/status'' ''GET''
       [] site_world = (Val ok, s) \<and> length (queued_responses s) = (if ok then 1 else 0)"
  by (rule requests_within_limit_answered) (simp_all add: pieces_ok_def)

section \<open>Bodies beyond the limit\<close>

text \<open>
  (C29) In a build with assertions, a well-authorised request whose body exceeds the content limit takes
  the server down: \<open>addContent\<close> has already put the request into the state \<open>responded\<close> when
  \<open>completeRequest\<close> asserts that it is still \<open>accepted\<close>.
\<close>

theorem oversize_upload_aborts:
  assumes r0: "r0 = post_request c path limit" and "mhd_create (mhd S) []"
    and "find_handler handlers path = Val (Some (Hook_handler h))"
    and "peer_of S r0 \<noteq> []" and "refusal S h (peer_of S r0) r0 = None"
    and "pieces_ok pieces" and "limit < length (concat pieces)"
  shows "fst (serve_hooks False S tt v handlers limit c path ''POST'' pieces w) = Abort Assertion"
proof -
  have aw: "awaiting limit (r0\<lparr>rhandler := Some (Continue h (peer_of S r0)), rstate := Accepted\<rparr>)"
    by (simp add: r0 awaiting_def has_body_def)
  have m: "methodFrom ''POST'' = M_post" by (simp add: methodFrom_def)
  show ?thesis
    unfolding serve_hooks_def
    using hh.serve_oversize_aborts [OF m _ assms(3) entry_accepts [OF r0 assms(4,5), unfolded r0]
        aw [unfolded r0] assms(6,2,7)] by simp
qed

theorem oversize_upload_aborts_witness:
  "fst (serve_hooks False site site_time ''1.0'' site_handlers 5 good_headers ''/api/deploy'' ''POST''
     [''pipeline'', '' event''] site_world) = Abort Assertion"
  using oversize_upload_aborts [of "post_request good_headers ''/api/deploy'' 5" good_headers
      "''/api/deploy''" 5 site site_handlers site_chain "[''pipeline'', '' event'']"]
  by (simp add: site_accepts pieces_ok_def)

section \<open>Facts on every call of the access handler\<close>

lemma respond_static_code:
  "respond_static nd M code body r = (Val (), r') \<Longrightarrow> responseCode r' = Some code"
  by (auto simp add: respond_static_def split: res.splits if_splits)

lemma respond_string_code:
  "respond_string nd M code body r = (Val (), r') \<Longrightarrow> responseCode r' = Some code"
  by (auto simp add: respond_string_def split: res.splits dest: respond_static_code)

lemma catch_and_respond_code:
  "catch_and_respond nd M e r = (Val (), r') \<Longrightarrow>
     responseCode r' \<in> {Some C_bad_request, Some C_internal_server_error}"
  by (auto simp add: catch_and_respond_def split: exn.splits dest: respond_static_code respond_string_code)

text \<open>Every continuation that returns has chosen one of four codes, also after a refused body.\<close>

lemma hook_continue_codes:
  assumes "hook_continue nd S k r w = (Val (), r', w')"
  shows "responseCode r' \<in> {Some C_accepted, Some C_no_content, Some C_bad_request, Some C_internal_server_error}"
proof -
  obtain h peer where k: "k = Continue h peer" by (cases k)
  obtain res w1 where p: "process_content nd S h peer r w = (res, w1)" by force
  show ?thesis
  proof (cases res)
    case (Abort f)
    with assms k p show ?thesis by (simp add: hook_continue_def)
  next
    case (Throw e)
    with assms k p show ?thesis
      by (cases "catch_and_respond nd (mhd S) e r")
        (auto simp add: hook_continue_def res_simps dest: catch_and_respond_code)
  next
    case (Val x)
    with process_content_counts [of nd S h peer r w w1] p obtain n where x: "x = Some n" by (cases x) auto
    let ?answer = "if n \<noteq> 0 then respond_static nd (mhd S) C_accepted ''accepted'' r
        else respond_static nd (mhd S) C_no_content ''ignored'' r"
    obtain res2 r2 where a: "?answer = (res2, r2)" by force
    show ?thesis
    proof (cases res2)
      case (Val u)
      with a have "responseCode r2 \<in> {Some C_accepted, Some C_no_content}"
        by (auto dest: respond_static_code split: if_splits)
      with assms k p \<open>res = Val x\<close> x a Val show ?thesis by (auto simp add: hook_continue_def)
    next
      case (Throw e)
      with assms k p \<open>res = Val x\<close> x a show ?thesis
        by (cases "catch_and_respond nd (mhd S) e r2")
          (auto simp add: hook_continue_def res_simps dest: catch_and_respond_code)
    next
      case (Abort f)
      with assms k p \<open>res = Val x\<close> x a show ?thesis by (simp add: hook_continue_def)
    qed
  qed
qed

lemma refusal_codes: "refusal S h peer r = Some (code, body) \<Longrightarrow> code \<noteq> C_payload_too_large"
  by (auto simp add: refusal_def Let_def split: if_splits)

lemma run_handler_codes:
  assumes "run_handler nd S tt v h (fresh_request c m path limit) w = (Val (), r, w')"
  shows "responseCode r \<noteq> Some C_payload_too_large"
proof (cases h)
  case (Status_handler start)
  with assms show ?thesis
    by (auto simp add: run_handler_def status_page_def respond_static_none respond_string_none
        split: if_splits)
next
  case (Hook_handler hk)
  with assms show ?thesis
    by (auto simp add: run_handler_def hook_call_eq Let_def respond_static_none fresh_request_def
        split: if_splits option.splits prod.splits dest: refusal_codes)
qed

lemma queue_response_code:
  "queue_response M c code body out = (ok, out') \<Longrightarrow> (x, b) \<in> set out' \<Longrightarrow> code \<noteq> Some x \<Longrightarrow> (x, b) \<in> set out"
  by (auto simp add: queue_response_def split: option.splits if_splits)

lemma sendStaticResponse_code:
  "sendStaticResponse M c code body out = (ok, out') \<Longrightarrow> (x, b) \<in> set out' \<Longrightarrow> code \<noteq> x \<Longrightarrow> (x, b) \<in> set out"
  by (auto simp add: sendStaticResponse_def dest: queue_response_code split: if_splits)

text \<open>The answer 413 is never queued.\<close>

definition no_413 :: "('c, 'k, 'w) connection \<Rightarrow> bool" where
  "no_413 s \<longleftrightarrow> (\<forall>body. (C_payload_too_large, body) \<notin> set (queued_responses s))"

lemma newRequest_no_413:
  assumes "newRequest nd (mhd S) (run_handler nd S tt v) hs limit c path meth s = (res, s')" and "no_413 s"
  shows "no_413 s'"
proof (cases "methodFrom meth = M_none \<or> find_handler hs path = Val None")
  case True
  with assms show ?thesis
    by (auto simp add: newRequest_def no_413_def Let_def split: if_splits prod.splits
        dest: sendStaticResponse_code)
next
  case False
  then obtain h where h: "methodFrom meth \<noteq> M_none" "find_handler hs path = Val (Some h)"
    using find_handler_total [of hs path] by auto
  obtain res1 r w1 where e: "run_handler nd S tt v h (fresh_request c (methodFrom meth) path limit) (world s) = (res1, r, w1)"
    by (metis prod.exhaust)
  show ?thesis
  proof (cases res1)
    case (Val u)
    with e have "responseCode r \<noteq> Some C_payload_too_large" by (auto dest: run_handler_codes)
    with h e Val assms show ?thesis
      by (auto simp add: newRequest_def after_entry_def no_413_def Let_def res_simps cassert_def
          split: req_state.splits prod.splits if_splits
          dest: queue_response_code)
  qed (use h e assms in \<open>auto simp add: newRequest_def no_413_def Let_def\<close>)
qed

lemma completeRequest_no_413:
  assumes "completeRequest nd (mhd S) (hook_continue nd S) c r s = (res, s')" and "no_413 s"
  shows "no_413 s'"
proof (cases "rhandler r")
  case None
  with assms show ?thesis
    by (auto simp add: completeRequest_def no_413_def cassert_def Let_def split: if_splits)
next
  case (Some k)
  obtain res1 r1 w1 where e: "hook_continue nd S k (r\<lparr>rstate := Completed\<rparr>) (world s) = (res1, r1, w1)"
    by (metis prod.exhaust)
  show ?thesis
  proof (cases res1)
    case (Val u)
    with e have "responseCode r1 \<noteq> Some C_payload_too_large" by (auto dest: hook_continue_codes)
    with Some e Val assms show ?thesis
      by (auto simp add: completeRequest_def after_completion_def no_413_def Let_def res_simps cassert_def
          split: req_state.splits prod.splits if_splits
          dest: queue_response_code)
  qed (use Some e assms in \<open>auto simp add: completeRequest_def no_413_def Let_def cassert_def split: if_splits\<close>)
qed

lemma mhd_no_on_throw_state [simp]: "snd (mhd_no_on_throw p) = snd p"
  by (cases p rule: mhd_no_on_throw.cases) auto

lemma answerCb_step:
  assumes "answerCb nd M run_h run_k hs limit c path meth p s = (res, s')"
    and "\<And>res1. connCls s = None \<Longrightarrow> newRequest nd M run_h hs limit c path meth s = (res1, s') \<Longrightarrow> Q"
    and "\<And>r res1. connCls s = Some r \<Longrightarrow> completeRequest nd M run_k c r s = (res1, s') \<Longrightarrow> Q"
    and "\<And>r ok r'. connCls s = Some r \<Longrightarrow> addContent nd M p r = Val (ok, r') \<Longrightarrow> s' = s\<lparr>connCls := Some r'\<rparr> \<Longrightarrow> Q"
    and "s' = s \<Longrightarrow> Q"
  shows Q
proof (cases "connCls s")
  case None
  obtain r1 s1 where n: "newRequest nd M run_h hs limit c path meth s = (r1, s1)" by force
  with None assms(1) have "snd (mhd_no_on_throw (r1, s1)) = s'" by (simp add: answerCb_def)
  with assms(2) None n show ?thesis by simp
next
  case (Some r)
  show ?thesis
  proof (cases "p = []")
    case True
    obtain r1 s1 where n: "completeRequest nd M run_k c r s = (r1, s1)" by force
    with True Some assms(1) have "snd (mhd_no_on_throw (r1, s1)) = s'" by (simp add: answerCb_def)
    with assms(3) Some n show ?thesis by simp
  next
    case False
    show ?thesis
    proof (cases "addContent nd M p r")
      case (Val x)
      with False Some assms(1) have "s' = s\<lparr>connCls := Some (snd x)\<rparr>"
        by (auto simp add: answerCb_def split: prod.splits)
      with assms(4) [OF Some, of "fst x" "snd x"] Val show ?thesis by simp
    qed (use False Some assms(1,5) in \<open>auto simp add: answerCb_def\<close>)
  qed
qed

text \<open>
  (C30) The answer 413 "payload too large", which \<open>addContent\<close> prepares for a body beyond the limit, is
  never sent: whatever the request and the build, the response queued has another code. Without
  assertions the hooks run on what was stored of the body and overwrite the prepared answer.
\<close>

theorem payload_too_large_never_sent:
  "C_payload_too_large \<notin>
     fst ` set (queued_responses (snd (serve_hooks nd S tt v handlers limit c path meth pieces w)))"
proof -
  have "no_413 (snd (serve_hooks nd S tt v handlers limit c path meth pieces w))"
    unfolding serve_hooks_def
  proof (rule serve_inv)
    fix p and s s' :: "('a, continuation, world) connection" and res
    assume "no_413 s"
      and "answerCb nd (mhd S) (run_handler nd S tt v) (hook_continue nd S) handlers limit c path meth p s = (res, s')"
    then show "no_413 s'"
      by (elim answerCb_step)
        (auto dest: newRequest_no_413 completeRequest_no_413, simp add: no_413_def)
  qed (simp add: no_413_def)
  then show ?thesis by (auto simp add: no_413_def)
qed

section \<open>Only authorised requests schedule anything\<close>

text \<open>What a request has to show before a hook may act on it.\<close>

definition authorised :: "('c, 'j) services \<Rightarrow> (string \<rightharpoonup> handler) \<Rightarrow> 'c \<Rightarrow> string \<Rightarrow> string \<Rightarrow> bool" where
  "authorised S handlers c path meth \<longleftrightarrow>
     (\<exists>h. meth = ''POST'' \<and> find_handler handlers path = Val (Some (Hook_handler h))
        \<and> path = uri_path (hdata h)
        \<and> (\<exists>token peer. mhd_header (mhd S) c ''X-Gitlab-Token'' = Some token \<and> token \<noteq> [] \<and> peer \<noteq> []
             \<and> peer = addr_to_string (inet_ntop S) (mhd_client_addr (mhd S) c)
             \<and> (\<exists>l\<in>set (links h). selects token peer l)))"

lemma refusal_None_authorised:
  assumes "refusal S h (peer_of S r0) r0 = None" and "peer_of S r0 \<noteq> []"
    and "find_handler hs path = Val (Some (Hook_handler h))"
    and r0: "r0 = fresh_request c (methodFrom meth) path limit"
  shows "authorised S hs c path meth"
proof -
  have "methodFrom meth = M_post \<longleftrightarrow> meth = ''POST''" by (simp add: methodFrom_def)
  with assms show ?thesis
    by (auto simp add: refusal_def authorised_def Let_def req_header_def peer_of_def req_peer_address_def
        fresh_request_def split: if_splits option.splits)
qed

text \<open>The scheduler is untouched and no continuation is waiting, unless the request is authorised.\<close>

definition guarded :: "('c, 'j) services \<Rightarrow> (string \<rightharpoonup> handler) \<Rightarrow> 'c \<Rightarrow> string \<Rightarrow> string \<Rightarrow> callable action_state
     \<Rightarrow> ('c, continuation, world) connection \<Rightarrow> bool" where
  "guarded S hs c path meth s0 s \<longleftrightarrow> authorised S hs c path meth
     \<or> scheduler (world s) = s0 \<and> (\<forall>r. connCls s = Some r \<longrightarrow> rhandler r = None)"

lemma run_handler_guarded:
  assumes "run_handler nd S tt v h (fresh_request c (methodFrom meth) path limit) w = (res, r, w')"
    and "find_handler hs path = Val (Some h)" and "\<not> authorised S hs c path meth"
  shows "scheduler w' = scheduler w \<and> rhandler r = None"
proof (cases h)
  case (Status_handler start)
  with assms(1) show ?thesis
    by (auto simp add: run_handler_def status_page_def respond_static_none respond_string_none fresh_request_def
        split: if_splits)
next
  case (Hook_handler hk)
  let ?r0 = "fresh_request c (methodFrom meth) path limit :: 'a hook_request"
  have "refusal S hk (peer_of S ?r0) ?r0 \<noteq> None \<or> peer_of S ?r0 = []"
    using refusal_None_authorised [OF _ _ _ refl, of S hk c meth path limit hs] assms(2,3) Hook_handler by blast
  moreover have "rhandler ?r0 = None" by (simp add: fresh_request_def)
  ultimately show ?thesis
    using assms(1) Hook_handler
    by (auto simp add: run_handler_def hook_call_eq Let_def respond_static_none split: if_splits option.splits)
qed

lemma newRequest_guarded:
  assumes "newRequest nd (mhd S) (run_handler nd S tt v) hs limit c path meth s = (res, s')"
    and "guarded S hs c path meth s0 s"
  shows "guarded S hs c path meth s0 s'"
proof (cases "authorised S hs c path meth")
  case True
  then show ?thesis by (simp add: guarded_def)
next
  case False
  with assms(2) have g: "scheduler (world s) = s0" "\<forall>r. connCls s = Some r \<longrightarrow> rhandler r = None"
    by (simp_all add: guarded_def)
  show ?thesis
  proof (cases "methodFrom meth = M_none \<or> find_handler hs path = Val None")
    case True
    with assms(1) g show ?thesis
      by (auto simp add: newRequest_def guarded_def Let_def split: if_splits prod.splits)
  next
    case other: False
    then obtain h where h: "methodFrom meth \<noteq> M_none" "find_handler hs path = Val (Some h)"
      using find_handler_total [of hs path] by auto
    obtain res1 r w1 where e: "run_handler nd S tt v h (fresh_request c (methodFrom meth) path limit) (world s) = (res1, r, w1)"
      by (metis prod.exhaust)
    from run_handler_guarded [OF e h(2) False] have "scheduler w1 = s0" "rhandler r = None" using g by simp_all
    with h e assms(1) g show ?thesis
      by (auto simp add: newRequest_def guarded_def Let_def split: res.splits prod.splits)
  qed
qed

lemma completeRequest_guarded:
  assumes "completeRequest nd M run_k c r s = (res, s')" and "connCls s = Some r"
    and "guarded S hs c path meth s0 s"
  shows "guarded S hs c path meth s0 s'"
proof (cases "authorised S hs c path meth")
  case True
  then show ?thesis by (simp add: guarded_def)
next
  case False
  with assms show ?thesis
    by (auto simp add: completeRequest_def guarded_def cassert_def Let_def split: if_splits)
qed

lemma addContent_handler: "addContent nd M p r = Val (ok, r') \<Longrightarrow> rhandler r' = rhandler r"
  by (auto simp add: addContent_def res_simps split: if_splits)

text \<open>
  Only authorised requests schedule anything: if serving a request changes the action list, it was
  a POST whose path is the configured path of the hook found for it, with a token that is not empty,
  and some hook of the chain has that token and admits the address of the peer. This holds for every
  method, path, body and build.
\<close>

theorem only_authorised_requests_schedule:
  assumes "scheduler (world (snd (serve_hooks nd S tt v handlers limit c path meth pieces w))) \<noteq> scheduler w"
  shows "authorised S handlers c path meth"
proof -
  have "guarded S handlers c path meth (scheduler w) (snd (serve_hooks nd S tt v handlers limit c path meth pieces w))"
    unfolding serve_hooks_def
  proof (rule serve_inv)
    fix p and s s' :: "('a, continuation, world) connection" and res
    assume g: "guarded S handlers c path meth (scheduler w) s"
      and "answerCb nd (mhd S) (run_handler nd S tt v) (hook_continue nd S) handlers limit c path meth p s = (res, s')"
    from this(2) show "guarded S handlers c path meth (scheduler w) s'"
    proof (rule answerCb_step)
      fix r ok r'
      assume "connCls s = Some r" "addContent nd (mhd S) p r = Val (ok, r')" "s' = s\<lparr>connCls := Some r'\<rparr>"
      with g addContent_handler [of nd "mhd S" p r ok r'] show ?thesis by (auto simp add: guarded_def)
    qed (use g in \<open>auto dest: newRequest_guarded completeRequest_guarded\<close>)
  qed (simp add: guarded_def)
  with assms show ?thesis by (simp add: guarded_def)
qed

theorem only_authorised_requests_schedule_witness:
  "authorised site site_handlers good_headers ''/api/deploy'' ''POST''"
proof -
  obtain s where s: "serve_hooks False site site_time ''1.0'' site_handlers 65535 good_headers ''/api/deploy''
         ''POST'' [''pipeline'', '' event''] site_world = (Val True, s)"
    and n: "map it_name (actions (scheduler (world s))) = [''debug'', ''deploy'']"
    using site_schedules by (elim exE conjE) (rule that)
  have "actions (scheduler site_world) = []" by (simp add: site_world_def initial_actions_def)
  with n have "scheduler (world s) \<noteq> scheduler site_world" by (cases "scheduler (world s) = scheduler site_world") simp_all
  then show ?thesis
    by (intro only_authorised_requests_schedule [where nd = False and tt = site_time and v = "''1.0''" and limit = 65535
          and pieces = "[''pipeline'', '' event'']" and w = site_world]) (simp only: s snd_conv not_False_eq_True)
qed

end
