(* ===== verification/Hook_Facts.thy ===== *)
theory Hook_Facts
  imports Example_Site
begin

text \<open>
  The chain of hooks of one path: what one hook decides on an event, and which hooks of the chain are
  asked, in which order, and with which effect on the action list and the counters.
\<close>

section \<open>The decision of one hook\<close>

text \<open>What \<open>process\<close> returns does not depend on the state; an accepting hook appends one item.\<close>

definition decision :: "'j json_api \<Rightarrow> string \<Rightarrow> 'j \<Rightarrow> hook_data \<times> hook_kind \<Rightarrow> outcome res" where
  "decision J event js l = fst (hook_process J l event js site_world)"

definition one_more :: "string \<Rightarrow> world \<Rightarrow> world \<Rightarrow> bool" where
  "one_more name w w' \<longleftrightarrow>
     map it_name (actions (scheduler w')) = map it_name (actions (scheduler w)) @ [name]
     \<and> hooksScheduled w' = hooksScheduled w + 1
     \<and> hooksRequests w' = hooksRequests w \<and> hooksGoodRequests w' = hooksGoodRequests w"

definition acts_as :: "outcome res \<Rightarrow> string \<Rightarrow> world \<Rightarrow> outcome res \<times> world \<Rightarrow> bool" where
  "acts_as r name w p \<longleftrightarrow> fst p = r
     \<and> (if r = Val Accepted_outcome then one_more name w (snd p) else snd p = w)"

lemma execute_function_acts: "acts_as (Val Accepted_outcome) (hook_name d) w (execute_function d f w)"
  by (simp add: execute_function_def acts_as_def one_more_def append_function_def append_item_def Let_def)

lemma execute_command_acts:
  "acts_as (fst (execute_command J d js env w0)) (hook_name d) w (execute_command J d js env w)"
proof (cases "mCommand d = []")
  case True
  then show ?thesis by (simp add: execute_command_def acts_as_def)
next
  case False
  then show ?thesis
    by (cases "command_environment J js (mEnvironment d) env"; cases "split_command (mCommand d)")
      (simp_all add: execute_command_def acts_as_def one_more_def schedule_command_eq append_process_def
        append_item_def Let_def)
qed

lemma acts_as_then_do:
  assumes "\<And>x. acts_as (fst (f x w0)) name w (f x w)"
  shows "acts_as (fst (then_do (r, w0) f)) name w (then_do (r, w) f)"
  using assms by (cases r) (simp_all add: acts_as_def)

lemma pipeline_process_acts:
  "acts_as (fst (pipeline_process J d statuses jobs event js w0)) (hook_name d) w
     (pipeline_process J d statuses jobs event js w)"
proof -
  have ign: "acts_as (Val Ignored) (hook_name d) w (Val Ignored, w)" by (simp add: acts_as_def)
  show ?thesis
    unfolding pipeline_process_def
    by (auto simp add: ign execute_command_acts split: prod.split intro!: acts_as_then_do)
qed

lemma hook_process_acts: "acts_as (decision J event js l) (hook_name (fst l)) w (hook_process J l event js w)"
proof (cases "(J, l, event, js, w)" rule: hook_process.cases)
  case (1 J d event js w)
  then show ?thesis
    using execute_function_acts [of d w "Print_event event (j_dump J js)"]
    by (simp add: decision_def debug_process_def execute_function_def)
next
  case (2 J d statuses jobs event js w)
  then show ?thesis using pipeline_process_acts by (simp add: decision_def)
qed

section \<open>The chain\<close>

text \<open>The hooks of a chain that are asked, up to the first one that throws, and those that accept.\<close>

definition asked :: "'j json_api \<Rightarrow> string \<Rightarrow> string \<Rightarrow> string \<Rightarrow> 'j \<Rightarrow> (hook_data \<times> hook_kind) list
    \<Rightarrow> (hook_data \<times> hook_kind) list" where
  "asked J token peer event js ls =
     takeWhile (\<lambda>l. \<exists>oc. decision J event js l = Val oc) (filter (selects token peer) ls)"

definition accepting :: "'j json_api \<Rightarrow> string \<Rightarrow> 'j \<Rightarrow> (hook_data \<times> hook_kind) list
    \<Rightarrow> (hook_data \<times> hook_kind) list" where
  "accepting J event js ls = filter (\<lambda>l. decision J event js l = Val Accepted_outcome) ls"

text \<open>The first failure among the hooks the request selects.\<close>

fun first_failure :: "outcome res list \<Rightarrow> exn option" where
  "first_failure [] = None"
| "first_failure (Throw e # rs) = Some e"
| "first_failure (r # rs) = first_failure rs"

lemma decision_not_Abort: "decision J event js l \<noteq> Abort f"
  using hook_process_safe [of J l event js site_world] by (simp add: decision_def safe_def)

lemma decision_not_Stop: "decision J event js l \<noteq> Val Stop"
proof (cases "(J, l, event, js, site_world)" rule: hook_process.cases)
  case (1 J d event js w)
  then show ?thesis by (simp add: decision_def debug_process_def execute_function_def)
next
  case (2 J d statuses jobs event js w)
  have "execute_command J d js env w \<noteq> (Val Stop, w')" for env w w'
    by (auto simp add: execute_command_def schedule_command_eq then_do_Val_iff split: prod.splits)
  then have "pipeline_process J d statuses jobs event js w \<noteq> (Val Stop, w')" for w'
    by (auto simp add: pipeline_process_def then_do_Val_iff split: if_splits)
  with 2 show ?thesis
    by (cases "pipeline_process J d statuses jobs event js w") (auto simp add: decision_def)
qed

lemma chain_loop_decisions:
  assumes "chain_loop J token peer event js ls count w = (res, w')"
  shows "map it_name (actions (scheduler w')) = map it_name (actions (scheduler w))
           @ map (\<lambda>l. hook_name (fst l)) (accepting J event js (asked J token peer event js ls))
     \<and> hooksScheduled w' = hooksScheduled w + of_nat (length (accepting J event js (asked J token peer event js ls)))
     \<and> res = (case first_failure (map (decision J event js) (filter (selects token peer) ls)) of
                None \<Rightarrow> Val (Some (count + length (accepting J event js (asked J token peer event js ls))))
              | Some e \<Rightarrow> Throw e)"
  using assms
proof (induction ls arbitrary: count w)
  case Nil
  then show ?case by (simp add: asked_def accepting_def)
next
  case (Cons l ls)
  show ?case
  proof (cases "selects token peer l")
    case False
    with Cons.prems Cons.IH [of count w] show ?thesis by (simp add: asked_def split: option.split)
  next
    case True
    obtain r w1 where p: "hook_process J l event js w = (r, w1)" by force
    with hook_process_acts [of J event js l w] have r: "r = decision J event js l"
      and w1: "if r = Val Accepted_outcome then one_more (hook_name (fst l)) w w1 else w1 = w"
      by (auto simp add: acts_as_def split: if_splits)
    show ?thesis
    proof (cases r)
      case (Val oc)
      show ?thesis
      proof (cases oc)
        case Stop
        with Val r decision_not_Stop [of J event js l] show ?thesis by simp
      next
        case Ignored
        with Val True p r w1 Cons.prems Cons.IH [of count w] show ?thesis
          by (simp add: asked_def accepting_def split: option.splits)
      next
        case Accepted_outcome
        with Val True p r w1 Cons.prems Cons.IH [of "count + 1" w1] show ?thesis
          by (simp add: asked_def accepting_def one_more_def split: option.splits)
      qed
    next
      case (Throw e)
      then have "decision J event js l = Throw e" using r by simp
      with True p Throw w1 Cons.prems show ?thesis by (simp add: asked_def accepting_def)
    next
      case (Abort f)
      with r decision_not_Abort [of J event js l f] show ?thesis by simp
    qed
  qed
qed

text \<open>
  (C17) Every hook of the chain that has the token of the request and admits the peer is asked, in the
  order of the chain, until one of them throws; the accepting ones among those asked are scheduled, in
  that order, and counted. An exception of a later hook is the result of the loop, so the request is
  answered with an error, although the hooks in front of it stay scheduled.
\<close>

theorem chain_runs_matching_hooks:
  assumes "chain_loop J token peer event js (links h) 0 w = (res, w')"
  shows "map it_name (actions (scheduler w')) = map it_name (actions (scheduler w))
           @ map (\<lambda>l. hook_name (fst l)) (accepting J event js (asked J token peer event js (links h)))
     \<and> hooksScheduled w' = hooksScheduled w + of_nat (length (accepting J event js (asked J token peer event js (links h))))
     \<and> res = (case first_failure (map (decision J event js) (filter (selects token peer) (links h))) of
                None \<Rightarrow> Val (Some (length (accepting J event js (asked J token peer event js (links h)))))
              | Some e \<Rightarrow> Throw e)"
  using chain_loop_decisions [OF assms] by (simp split: option.split)

text \<open>A pipeline event without builds: the debug hook is scheduled, the pipeline hook throws.\<close>

definition broken_doc :: jtree where
  "broken_doc = J_object
     [(''object_attributes'', J_object [(''status'', J_string ''success'')]), (''project'', site_project)]"

lemma broken_decisions:
  "map (decision site_json ''Pipeline Hook'' broken_doc) (filter (selects ''secret'' ''10.0.0.1'') (links site_chain))
     = [Val Accepted_outcome, Throw (Json_error ''key not found: builds'')]"
  by (simp add: decision_def site_defs broken_doc_def selects_def debug_process_def execute_function_def
      pipeline_process_def string_of_key_def at_key_def)

theorem chain_runs_matching_hooks_witness:
  "\<exists>w'. chain_loop site_json ''secret'' ''10.0.0.1'' ''Pipeline Hook'' broken_doc (links site_chain) 0 site_world
       = (Throw (Json_error ''key not found: builds''), w')
     \<and> map it_name (actions (scheduler w')) = [''debug'']"
proof -
  obtain res w' where c: "chain_loop site_json ''secret'' ''10.0.0.1'' ''Pipeline Hook'' broken_doc
      (links site_chain) 0 site_world = (res, w')" by force
  have s: "filter (selects ''secret'' ''10.0.0.1'') (links site_chain) = links site_chain"
    by (simp add: site_defs selects_def)
  have d: "decision site_json ''Pipeline Hook'' broken_doc (hdata site_debug, Debug_hook) = Val Accepted_outcome"
    "decision site_json ''Pipeline Hook'' broken_doc (hdata site_pipeline, hkind site_pipeline)
       = Throw (Json_error ''key not found: builds'')"
    using broken_decisions unfolding s by (simp_all add: site_chain_def site_pipeline_def site_debug_def)
  have l: "links site_chain = [(hdata site_debug, Debug_hook), (hdata site_pipeline, hkind site_pipeline)]"
    by (simp add: site_chain_def site_pipeline_def site_debug_def)
  have "accepting site_json ''Pipeline Hook'' broken_doc
      (asked site_json ''secret'' ''10.0.0.1'' ''Pipeline Hook'' broken_doc (links site_chain))
      = [(hdata site_debug, Debug_hook)]"
    unfolding accepting_def asked_def s unfolding l by (simp add: d)
  with chain_runs_matching_hooks [OF c] broken_decisions c show ?thesis
    by (simp add: site_world_def initial_actions_def site_debug_def site_data_def)
qed

end
