(* ===== verification/Pipeline_Facts.thy ===== *)
theory Pipeline_Facts
  imports Example_Site
begin

text \<open>
  The properties of the pipeline hook: for which events it schedules its command, which jobs it reports,
  and the program, the arguments, the environment and the identity the command is started with.
\<close>

section \<open>The matching jobs\<close>

text \<open>A build matches when its name is configured and its status is \<open>success\<close>.\<close>

definition job_matches :: "'j json_api \<Rightarrow> string set \<Rightarrow> 'j \<Rightarrow> bool" where
  "job_matches J wanted job \<longleftrightarrow> (\<exists>n. string_of_key J job ''name'' = Val n \<and> n \<in> wanted)
     \<and> string_of_key J job ''status'' = Val ''success''"

definition job_name :: "'j json_api \<Rightarrow> 'j \<Rightarrow> string" where
  "job_name J job = (case string_of_key J job ''name'' of Val n \<Rightarrow> n | _ \<Rightarrow> [])"

definition uint64_of_key :: "'j json_api \<Rightarrow> 'j \<Rightarrow> string \<Rightarrow> 64 word res" where
  "uint64_of_key J v key = bnd (at_key J v key) (\<lambda>x. json_res (j_uint64 J x))"

definition number_text :: "64 word res \<Rightarrow> string" where
  "number_text r = (case r of Val n \<Rightarrow> nat_to_string (unat n) | _ \<Rightarrow> [])"

lemma job_loop_result:
  assumes "job_loop J wanted jobs names ids = Val (names', ids')"
  shows "names' = names @ map (job_name J) (filter (job_matches J wanted) jobs)
     \<and> ids' = ids @ map (\<lambda>job. number_text (uint64_of_key J job ''id'')) (filter (job_matches J wanted) jobs)
     \<and> (\<forall>job\<in>set (filter (job_matches J wanted) jobs). \<exists>n. uint64_of_key J job ''id'' = Val n)"
  using assms
proof (induction jobs arbitrary: names ids)
  case Nil
  then show ?case by simp
next
  case (Cons job jobs)
  from Cons.prems obtain n where n: "string_of_key J job ''name'' = Val n"
    by (auto simp only: job_loop.simps bnd_Val_iff)
  show ?case
  proof (cases "n \<in> wanted")
    case False
    with n have "\<not> job_matches J wanted job" by (simp add: job_matches_def)
    with False n Cons show ?thesis by simp
  next
    case True
    with n Cons.prems obtain st where st: "string_of_key J job ''status'' = Val st"
      by (auto simp only: job_loop.simps bnd.simps if_True bnd_Val_iff)
    show ?thesis
    proof (cases "st = ''success''")
      case False
      with st have "\<not> job_matches J wanted job" by (simp add: job_matches_def)
      with False True n st Cons show ?thesis by simp
    next
      case ok: True
      with st True n have m: "job_matches J wanted job" by (simp add: job_matches_def)
      from ok st True n Cons.prems obtain i where i: "uint64_of_key J job ''id'' = Val i"
        "job_loop J wanted jobs (names @ [n]) (ids @ [nat_to_string (unat i)]) = Val (names', ids')"
        by (auto simp add: uint64_of_key_def bnd_Val_iff)
      from Cons.IH [OF i(2)] m i(1) n show ?thesis by (simp add: job_name_def number_text_def)
    qed
  qed
qed

text \<open>
  The two lists a pipeline hook passes on are the names and the ids of exactly the matching builds, in
  the order of the event, and every id can be read back as the number it had in the event.
\<close>

theorem job_lists_report_matching_builds:
  assumes "job_loop J wanted jobs [] [] = Val (names, ids)"
  shows "names = map (job_name J) (filter (job_matches J wanted) jobs)
     \<and> map (\<lambda>i. Val (word_of_nat (decimal_value i))) ids
         = map (\<lambda>job. uint64_of_key J job ''id'') (filter (job_matches J wanted) jobs)"
proof -
  note r = job_loop_result [OF assms]
  let ?ms = "filter (job_matches J wanted) jobs"
  have "Val (word_of_nat (decimal_value (number_text (uint64_of_key J job ''id'')))) = uint64_of_key J job ''id''"
    if "job \<in> set ?ms" for job
  proof -
    from r that obtain n where "uint64_of_key J job ''id'' = Val n" by blast
    then show ?thesis by (simp add: number_text_def decimal_value_nat_to_string)
  qed
  then have "map (\<lambda>i. Val (word_of_nat (decimal_value i))) (map (\<lambda>job. number_text (uint64_of_key J job ''id'')) ?ms)
      = map (\<lambda>job. uint64_of_key J job ''id'') ?ms"
    by (simp only: map_map o_def cong: map_cong)
  with r show ?thesis by simp
qed

lemma site_jobs:
  "job_loop site_json {''build-this'', ''build-that''}
     [site_build ''test'' ''success'' 376, site_build ''build-this'' ''success'' 377, site_build ''build-that'' ''failed'' 378] [] []
   = Val ([''build-this''], [''377''])"
  by code_simp

theorem job_lists_report_matching_builds_witness:
  "[''build-this''] = map (job_name site_json) (filter (job_matches site_json {''build-this'', ''build-that''})
     [site_build ''test'' ''success'' 376, site_build ''build-this'' ''success'' 377, site_build ''build-that'' ''failed'' 378])"
  using job_lists_report_matching_builds [OF site_jobs] by (rule conjunct1)

section \<open>When the command is scheduled\<close>

definition builds_of :: "'j json_api \<Rightarrow> 'j \<Rightarrow> 'j list res" where
  "builds_of J js = bnd (at_key J js ''builds'') (\<lambda>x. json_res (j_array J x))"

definition status_of :: "'j json_api \<Rightarrow> 'j \<Rightarrow> string res" where
  "status_of J js = bnd (at_key J js ''object_attributes'') (\<lambda>attrs. string_of_key J attrs ''status'')"

lemma execute_command_outcome:
  "execute_command J d js env w = (Val oc, w') \<Longrightarrow> oc = (if mCommand d = [] then Ignored else Accepted_outcome)"
  by (cases "split_command (mCommand d)")
    (auto simp add: execute_command_def schedule_command_eq then_do_Val_iff split: if_splits)

text \<open>When an event that is processed without an exception is accepted.\<close>

lemma pipeline_outcome_iff:
  assumes "pipeline_process J d statuses jobs event js w = (Val oc, w')"
  shows "oc = Accepted_outcome \<longleftrightarrow> event = ''Pipeline Hook''
     \<and> (\<exists>status. status_of J js = Val status \<and> (statuses = {} \<or> status \<in> statuses))
     \<and> (\<exists>builds. builds_of J js = Val builds \<and> (\<exists>job\<in>set builds. job_matches J jobs job))
     \<and> mCommand d \<noteq> []"
proof (cases "event = ''Pipeline Hook''")
  case False
  with assms show ?thesis by (auto simp add: pipeline_process_def)
next
  case True
  with assms obtain status where status: "status_of J js = Val status"
    by (auto simp add: pipeline_process_def then_do_Val_iff status_of_def)
  show ?thesis
  proof (cases "statuses = {} \<or> status \<in> statuses")
    case False
    with True status assms show ?thesis by (auto simp add: pipeline_process_def status_of_def)
  next
    case st: True
    with True status assms obtain builds names ids where b: "builds_of J js = Val builds"
      "job_loop J jobs builds [] [] = Val (names, ids)"
      by (auto simp add: pipeline_process_def then_do_Val_iff status_of_def builds_of_def split: if_splits)
    from job_loop_result [OF b(2)] have names: "names = [] \<longleftrightarrow> \<not> (\<exists>job\<in>set builds. job_matches J jobs job)"
      by (auto simp add: filter_empty_conv)
    show ?thesis
    proof (cases "names = []")
      case True
      with names \<open>event = ''Pipeline Hook''\<close> status st b assms show ?thesis
        by (auto simp add: pipeline_process_def status_of_def builds_of_def)
    next
      case False
      with \<open>event = ''Pipeline Hook''\<close> status st b assms obtain env where
        "execute_command J d js env w = (Val oc, w')"
        by (auto simp add: pipeline_process_def then_do_Val_iff status_of_def builds_of_def split: if_splits)
      with names False \<open>event = ''Pipeline Hook''\<close> status st b show ?thesis
        by (auto dest: execute_command_outcome)
    qed
  qed
qed

lemma site_pipeline_runs:
  "\<exists>w'. pipeline_process site_json site_data {''success''} {''build-this'', ''build-that''} ''Pipeline Hook'' site_doc w
     = (Val Accepted_outcome, w')"
  by (simp add: site_defs pipeline_process_def pipeline_environment_def execute_command_def string_of_key_def
      at_key_def command_environment_def gitlabServerFrom_def server_of_url_def find_char_from_def
      find_first_of_def schedule_command_eq Let_def split_beta)

end
