(* ===== verification/Command_Facts.thy ===== *)
theory Command_Facts
  imports Pipeline_Facts
begin

text \<open>
  What a scheduled command is started with: the words of the configured command line, the environment
  the event determines, and the identity of the configured user.
\<close>

section \<open>Environments as bindings\<close>

fun binding :: "string \<times> string \<Rightarrow> string" where
  "binding (n, v) = n @ [CHR ''=''] @ v"

definition good_name :: "string \<Rightarrow> bool" where
  "good_name n \<longleftrightarrow> CHR ''='' \<notin> set n \<and> CHR 0x00 \<notin> set n"

lemma env_set_binding: "env_set es n v = es @ map binding [(n, v)]"
  by (simp add: env_set_def)

lemma env_get_append: "getenv (env_get (e # es)) var
    = (case getenv (env_get [e]) var of Some v \<Rightarrow> Some v | None \<Rightarrow> getenv (env_get es) var)"
  using getenv_append [of "[e]" es var] by simp

lemma getenv_bindings:
  assumes "good_name var" and "\<forall>(n, v)\<in>set bs. good_name n"
  shows "getenv (env_get (map binding bs @ rest)) var =
    (case map_of bs var of Some v \<Rightarrow> Some (c_str v) | None \<Rightarrow> getenv (env_get rest) var)"
  using assms(2)
proof (induction bs)
  case Nil
  then show ?case by simp
next
  case (Cons b bs)
  obtain n v where b: "b = (n, v)" by (cases b)
  have "getenv (env_get [n @ [CHR ''=''] @ v]) var = (if n = var then Some (c_str v) else None)"
    using getenv_one [of var n v] assms(1) Cons.prems b by (simp add: good_name_def env_set_def)
  with Cons b show ?case
    using env_get_append [of "n @ [CHR ''=''] @ v" "map binding bs @ rest" var] by simp
qed

lemma foldl_entries: "foldl env_set_entry env entries = env @ entries"
  by (induction entries arbitrary: env) (simp_all add: env_set_entry_def)

text \<open>The variables the two functions set, in order.\<close>

lemma pipeline_environment_bindings:
  assumes "pipeline_environment J js names ids = Val env" and "names \<noteq> []" and "ids \<noteq> []"
  shows "\<exists>attrs ref sha pid tag. at_key J js ''object_attributes'' = Val attrs
     \<and> string_of_key J attrs ''ref'' = Val ref \<and> string_of_key J attrs ''sha'' = Val sha
     \<and> uint64_of_key J attrs ''id'' = Val pid \<and> fst ` set tag \<subseteq> {''CI_COMMIT_TAG''}
     \<and> env = map binding ([(''CI_JOB_IDS'', join_words ids), (''CI_JOB_NAMES'', join_words names),
          (''CI_COMMIT_REF_NAME'', ref), (''CI_COMMIT_SHA'', sha),
          (''CI_PIPELINE_ID'', nat_to_string (unat pid))] @ tag)"
proof -
  from assms(1) obtain attrs ref sha pid where a: "at_key J js ''object_attributes'' = Val attrs"
    "string_of_key J attrs ''ref'' = Val ref" "string_of_key J attrs ''sha'' = Val sha"
    "uint64_of_key J attrs ''id'' = Val pid"
    by (auto simp add: pipeline_environment_def bnd_Val_iff uint64_of_key_def Let_def)
  let ?base = "map binding [(''CI_JOB_IDS'', join_words ids), (''CI_JOB_NAMES'', join_words names),
          (''CI_COMMIT_REF_NAME'', ref), (''CI_COMMIT_SHA'', sha),
          (''CI_PIPELINE_ID'', nat_to_string (unat pid))]"
  have "env = ?base \<or> (\<exists>tag. env = ?base @ map binding [(''CI_COMMIT_TAG'', tag)])"
    using assms a
    by (auto simp add: pipeline_environment_def env_set_list_join env_set_binding uint64_of_key_def
        bnd_Val_iff Let_def split: if_splits)
  then show ?thesis
  proof
    assume "env = ?base"
    with a show ?thesis
      by (intro exI [of _ attrs] exI [of _ ref] exI [of _ sha] exI [of _ pid] exI [of _ "[]"]) simp
  next
    assume "\<exists>tag. env = ?base @ map binding [(''CI_COMMIT_TAG'', tag)]"
    then obtain tag where "env = ?base @ map binding [(''CI_COMMIT_TAG'', tag)]" by blast
    with a show ?thesis
      by (intro exI [of _ attrs] exI [of _ ref] exI [of _ sha] exI [of _ pid]
          exI [of _ "[(''CI_COMMIT_TAG'', tag)]"]) simp
  qed
qed

lemma command_environment_bindings:
  assumes "command_environment J js entries env = Val env'"
  shows "\<exists>project n path title url server. at_key J js ''project'' = Val project
     \<and> string_of_key J project ''path_with_namespace'' = Val path
     \<and> string_of_key J project ''name'' = Val title
     \<and> string_of_key J project ''web_url'' = Val url \<and> server_of_url url = Val server
     \<and> env' = env @ map binding [(''CI_PROJECT_ID'', n), (''CI_PROJECT_PATH'', path),
          (''CI_PROJECT_TITLE'', title), (''CI_PROJECT_URL'', url), (''CI_SERVER_URL'', server)] @ entries"
  using assms
  by (auto simp add: command_environment_def gitlabServerFrom_def bnd_Val_iff Let_def foldl_entries
      env_set_binding)

section \<open>The process object of a scheduled command\<close>

text \<open>The object of the item appended last.\<close>

definition scheduled_process :: "world \<Rightarrow> completion impl option" where
  "scheduled_process w =
     (if actions (scheduler w) = [] then None
      else case it_process (last (actions (scheduler w))) of
             None \<Rightarrow> None
           | Some a \<Rightarrow> mem (procs (scheduler w)) a)"

lemma execute_command_schedules:
  assumes "execute_command J d js env w = (Val Accepted_outcome, w')"
  shows "\<exists>p env'. command_environment J js (mEnvironment d) env = Val env' \<and> mCommand d \<noteq> []
     \<and> scheduled_process w' = Some p \<and> (p_program p, p_args p) = split_command (mCommand d)
     \<and> p_env p = env' \<and> p_user p = mUserGroup d
     \<and> it_timeout (last (actions (scheduler w'))) = Some (mTimeout d)"
proof -
  obtain program args where sp: "split_command (mCommand d) = (program, args)" by force
  have mem_frame: "mem (procs (append_item i s)) = mem (procs s)" for i and s :: "callable action_state"
    by (simp add: append_item_def Let_def)
  have last_frame: "actions (append_item i s) = actions s @ [i]" for i and s :: "callable action_state"
    by (simp add: append_item_def Let_def)
  from assms sp show ?thesis
    by (auto simp add: execute_command_def schedule_command_eq then_do_Val_iff scheduled_process_def
        append_process_def mem_frame last_frame split: if_splits)
qed

lemma pipeline_process_schedules:
  assumes "pipeline_process J d statuses jobs event js w = (Val Accepted_outcome, w')"
  shows "\<exists>builds names ids env w1. builds_of J js = Val builds \<and> job_loop J jobs builds [] [] = Val (names, ids)
     \<and> names \<noteq> [] \<and> pipeline_environment J js names ids = Val env
     \<and> execute_command J d js env w1 = (Val Accepted_outcome, w')"
  using assms
  by (auto simp add: pipeline_process_def then_do_Val_iff builds_of_def split: if_splits)

text \<open>A variable of the started program holds a string of the event.\<close>

definition carries :: "'j json_api \<Rightarrow> completion impl \<Rightarrow> string \<Rightarrow> 'j \<Rightarrow> string \<Rightarrow> bool" where
  "carries J p var v key \<longleftrightarrow>
     (\<exists>s. string_of_key J v key = Val s \<and> getenv (env_get (p_env p)) var = Some (c_str s))"

lemma env_var:
  assumes "es = map binding bs @ rest" and "good_name var" and "\<forall>(n, v)\<in>set bs. good_name n"
    and "map_of bs var = Some v"
  shows "getenv (env_get es) var = Some (c_str v)"
  using getenv_bindings [OF assms(2,3), of rest] assms(1,4) by simp

text \<open>All variables of the started command, in the order of the environment block.\<close>

lemma scheduled_bindings:
  assumes "pipeline_process J d statuses jobs event js w = (Val Accepted_outcome, w')"
  shows "\<exists>builds names ids attrs ref sha pid tag p project n path title url server.
       builds_of J js = Val builds \<and> job_loop J jobs builds [] [] = Val (names, ids)
     \<and> at_key J js ''object_attributes'' = Val attrs \<and> string_of_key J attrs ''ref'' = Val ref
     \<and> string_of_key J attrs ''sha'' = Val sha \<and> uint64_of_key J attrs ''id'' = Val pid
     \<and> fst ` set tag \<subseteq> {''CI_COMMIT_TAG''}
     \<and> scheduled_process w' = Some p \<and> (p_program p, p_args p) = split_command (mCommand d)
     \<and> p_user p = mUserGroup d
     \<and> at_key J js ''project'' = Val project \<and> string_of_key J project ''path_with_namespace'' = Val path
     \<and> string_of_key J project ''name'' = Val title \<and> string_of_key J project ''web_url'' = Val url
     \<and> server_of_url url = Val server
     \<and> p_env p = map binding ([(''CI_JOB_IDS'', join_words ids), (''CI_JOB_NAMES'', join_words names),
          (''CI_COMMIT_REF_NAME'', ref), (''CI_COMMIT_SHA'', sha), (''CI_PIPELINE_ID'', nat_to_string (unat pid))]
        @ tag @ [(''CI_PROJECT_ID'', n), (''CI_PROJECT_PATH'', path), (''CI_PROJECT_TITLE'', title),
          (''CI_PROJECT_URL'', url), (''CI_SERVER_URL'', server)]) @ mEnvironment d"
proof -
  obtain builds names ids env w1 where run: "builds_of J js = Val builds"
    "job_loop J jobs builds [] [] = Val (names, ids)" "names \<noteq> []" "pipeline_environment J js names ids = Val env"
    "execute_command J d js env w1 = (Val Accepted_outcome, w')"
    using pipeline_process_schedules [OF assms] by (elim exE conjE) (rule that)
  have "ids \<noteq> []" using run(3) job_loop_result [OF run(2)] by auto
  from pipeline_environment_bindings [OF run(4,3) this] obtain attrs ref sha pid tag
    where attrs: "at_key J js ''object_attributes'' = Val attrs" "string_of_key J attrs ''ref'' = Val ref"
      "string_of_key J attrs ''sha'' = Val sha" "uint64_of_key J attrs ''id'' = Val pid" "fst ` set tag \<subseteq> {''CI_COMMIT_TAG''}"
      and env: "env = map binding ([(''CI_JOB_IDS'', join_words ids), (''CI_JOB_NAMES'', join_words names),
          (''CI_COMMIT_REF_NAME'', ref), (''CI_COMMIT_SHA'', sha),
          (''CI_PIPELINE_ID'', nat_to_string (unat pid))] @ tag)" by (elim exE conjE) (rule that)
  from execute_command_schedules [OF run(5)] obtain p env'
    where ce: "command_environment J js (mEnvironment d) env = Val env'" and cmd: "mCommand d \<noteq> []"
      and p: "scheduled_process w' = Some p" "(p_program p, p_args p) = split_command (mCommand d)" "p_env p = env'"
        "p_user p = mUserGroup d" "it_timeout (last (actions (scheduler w'))) = Some (mTimeout d)"
    by (elim exE conjE) (rule that)
  from command_environment_bindings [OF ce] obtain project n path title url server
    where project: "at_key J js ''project'' = Val project" "string_of_key J project ''path_with_namespace'' = Val path"
      "string_of_key J project ''name'' = Val title" "string_of_key J project ''web_url'' = Val url"
      "server_of_url url = Val server"
      and env': "env' = env @ map binding [(''CI_PROJECT_ID'', n), (''CI_PROJECT_PATH'', path),
          (''CI_PROJECT_TITLE'', title), (''CI_PROJECT_URL'', url), (''CI_SERVER_URL'', server)] @ mEnvironment d"
    by (elim exE conjE) (rule that)
  show ?thesis
    by (intro exI conjI) (rule run(1,2) attrs p(1,2,4) project | simp add: p(3) env env')+
qed

text \<open>
  When a pipeline hook schedules its command, the new process object carries the words of the command
  line and the hook's user, and \<open>getenv\<close> in the started program finds the names and ids of the matching
  builds, the commit, the pipeline's id, the project of the event and the server in the project's
  URL, whatever the configured extra entries are.
\<close>

theorem scheduled_command_environment:
  assumes "pipeline_process J d statuses jobs event js w = (Val Accepted_outcome, w')"
  shows "\<exists>p attrs project builds pid url server.
       scheduled_process w' = Some p \<and> p_user p = mUserGroup d
     \<and> (p_program p, p_args p) = split_command (mCommand d)
     \<and> at_key J js ''object_attributes'' = Val attrs \<and> at_key J js ''project'' = Val project
     \<and> builds_of J js = Val builds
     \<and> getenv (env_get (p_env p)) ''CI_JOB_NAMES''
         = Some (c_str (join_words (map (job_name J) (filter (job_matches J jobs) builds))))
     \<and> getenv (env_get (p_env p)) ''CI_JOB_IDS''
         = Some (c_str (join_words (map (\<lambda>job. number_text (uint64_of_key J job ''id''))
             (filter (job_matches J jobs) builds))))
     \<and> carries J p ''CI_COMMIT_REF_NAME'' attrs ''ref'' \<and> carries J p ''CI_COMMIT_SHA'' attrs ''sha''
     \<and> uint64_of_key J attrs ''id'' = Val pid
     \<and> getenv (env_get (p_env p)) ''CI_PIPELINE_ID'' = Some (c_str (nat_to_string (unat pid)))
     \<and> carries J p ''CI_PROJECT_PATH'' project ''path_with_namespace''
     \<and> carries J p ''CI_PROJECT_TITLE'' project ''name'' \<and> carries J p ''CI_PROJECT_URL'' project ''web_url''
     \<and> string_of_key J project ''web_url'' = Val url \<and> server_of_url url = Val server
     \<and> getenv (env_get (p_env p)) ''CI_SERVER_URL'' = Some (c_str server)"
proof -
  obtain builds names ids attrs ref sha pid tag p project n path title url server
    where builds: "builds_of J js = Val builds" and lists: "job_loop J jobs builds [] [] = Val (names, ids)"
      and attrs: "at_key J js ''object_attributes'' = Val attrs" "string_of_key J attrs ''ref'' = Val ref"
        "string_of_key J attrs ''sha'' = Val sha" "uint64_of_key J attrs ''id'' = Val pid"
      and tag: "fst ` set tag \<subseteq> {''CI_COMMIT_TAG''}"
      and p: "scheduled_process w' = Some p" "(p_program p, p_args p) = split_command (mCommand d)" "p_user p = mUserGroup d"
      and project: "at_key J js ''project'' = Val project" "string_of_key J project ''path_with_namespace'' = Val path"
        "string_of_key J project ''name'' = Val title" "string_of_key J project ''web_url'' = Val url"
        "server_of_url url = Val server"
      and es: "p_env p = map binding ([(''CI_JOB_IDS'', join_words ids), (''CI_JOB_NAMES'', join_words names),
          (''CI_COMMIT_REF_NAME'', ref), (''CI_COMMIT_SHA'', sha), (''CI_PIPELINE_ID'', nat_to_string (unat pid))]
        @ tag @ [(''CI_PROJECT_ID'', n), (''CI_PROJECT_PATH'', path), (''CI_PROJECT_TITLE'', title),
          (''CI_PROJECT_URL'', url), (''CI_SERVER_URL'', server)]) @ mEnvironment d"
    using scheduled_bindings [OF assms] by (elim exE conjE) (rule that)
  have tag_good: "good_name n" if "(n, v) \<in> set tag" for n v
    using that tag by (force simp add: good_name_def)
  have no_tag: "map_of tag var = None" if "var \<noteq> ''CI_COMMIT_TAG''" for var
    using that tag by (auto simp add: map_of_eq_None_iff)
  have vars: "getenv (env_get (p_env p)) ''CI_JOB_IDS'' = Some (c_str (join_words ids))"
    "getenv (env_get (p_env p)) ''CI_JOB_NAMES'' = Some (c_str (join_words names))"
    "getenv (env_get (p_env p)) ''CI_COMMIT_REF_NAME'' = Some (c_str ref)"
    "getenv (env_get (p_env p)) ''CI_COMMIT_SHA'' = Some (c_str sha)"
    "getenv (env_get (p_env p)) ''CI_PIPELINE_ID'' = Some (c_str (nat_to_string (unat pid)))"
    "getenv (env_get (p_env p)) ''CI_PROJECT_PATH'' = Some (c_str path)"
    "getenv (env_get (p_env p)) ''CI_PROJECT_TITLE'' = Some (c_str title)"
    "getenv (env_get (p_env p)) ''CI_PROJECT_URL'' = Some (c_str url)"
    "getenv (env_get (p_env p)) ''CI_SERVER_URL'' = Some (c_str server)"
    by (rule env_var [OF es]; force simp add: good_name_def no_tag map_add_def dest: tag_good)+
  with builds attrs p project job_loop_result [OF lists] show ?thesis
    by (intro exI [of _ p] exI [of _ attrs] exI [of _ project] exI [of _ builds] exI [of _ pid]
        exI [of _ url] exI [of _ server]) (simp add: carries_def)
qed

theorem scheduled_command_environment_witness:
  "\<exists>p w'. scheduled_process w' = Some p \<and> getenv (env_get (p_env p)) ''CI_JOB_NAMES'' = Some ''build-this''
     \<and> (p_program p, p_args p) = (''/usr/bin/echo'', [''Hello,'', ''world!''])"
proof -
  obtain w' where run: "pipeline_process site_json site_data {''success''} {''build-this'', ''build-that''}
      ''Pipeline Hook'' site_doc site_world = (Val Accepted_outcome, w')"
    using site_pipeline_runs [of site_world] by (elim exE) (rule that)
  have b: "builds_of site_json site_doc = Val [site_build ''test'' ''success'' 376,
      site_build ''build-this'' ''success'' 377, site_build ''build-that'' ''failed'' 378]"
    by (simp add: builds_of_def site_json_def jtree_api_def site_doc_def at_key_def)
  have names: "map (job_name site_json) (filter (job_matches site_json {''build-this'', ''build-that''})
      [site_build ''test'' ''success'' 376, site_build ''build-this'' ''success'' 377,
       site_build ''build-that'' ''failed'' 378]) = [''build-this'']"
    using job_loop_result [OF site_jobs] by simp
  have command: "split_command (mCommand site_data) = (''/usr/bin/echo'', [''Hello,'', ''world!''])"
    unfolding site_data_def by code_simp
  from scheduled_command_environment [OF run] obtain p builds where "scheduled_process w' = Some p"
    "(p_program p, p_args p) = split_command (mCommand site_data)" "builds_of site_json site_doc = Val builds"
    "getenv (env_get (p_env p)) ''CI_JOB_NAMES'' = Some (c_str (join_words (map (job_name site_json)
       (filter (job_matches site_json {''build-this'', ''build-that''}) builds))))"
    by (elim exE conjE) (rule that)
  with b names command show ?thesis by (auto simp add: c_str_def)
qed

section \<open>The words of the command line\<close>

text \<open>
  (C36) The command line of a hook is cut into its words: for a configured command with at least one byte
  that is no white space, program and arguments are the maximal runs of bytes other than blank and
  tab, none of them empty, and nothing else of the text is lost.
\<close>

theorem command_line_words:
  assumes "trimmed text \<noteq> []"
  shows "case split_command (trimmed text) of (program, args) \<Rightarrow>
       program # args = tokens (trimmed text)
     \<and> (\<forall>word\<in>set (program # args). word \<noteq> [] \<and> set word \<inter> set blanks = {})
     \<and> concat (program # args) = filter (\<lambda>c. c \<notin> set blanks) (trimmed text)"
proof -
  have t: "tokens (trimmed text) = fst (split_command (trimmed text)) # snd (split_command (trimmed text))"
    using assms trimmed_no_blank_front by (intro split_command_tokens) auto
  have "\<forall>word\<in>set (tokens (trimmed text)). word \<noteq> [] \<and> set word \<inter> set blanks = {}"
    using tokens_words by (auto simp add: disjoint_iff)
  then show ?thesis
    using t tokens_concat [of "trimmed text"] by (simp add: case_prod_beta)
qed

theorem command_line_words_witness:
  "split_command (trimmed ''  /usr/bin/echo Hello,   world! '') = (''/usr/bin/echo'', [''Hello,'', ''world!''])
   \<and> ''/usr/bin/echo'' # [''Hello,'', ''world!''] = tokens (trimmed ''  /usr/bin/echo Hello,   world! '')"
proof -
  have ne: "trimmed ''  /usr/bin/echo Hello,   world! '' \<noteq> []" by code_simp
  have s: "split_command (trimmed ''  /usr/bin/echo Hello,   world! '') = (''/usr/bin/echo'', [''Hello,'', ''world!''])"
    by code_simp
  from command_line_words [OF ne] s show ?thesis by simp
qed

section \<open>The identity of a command\<close>

text \<open>
  A child process executes its program only as the user and group of its hook: if the hook has an
  identity, the program runs with exactly that user and group id, or the child exits with -1 before
  any program is executed.
\<close>

theorem child_runs_as_configured_user:
  assumes "credential_contract sys uid_of gid_of" and "user_group_bool (p_user p)"
    and "start_child nd db sys exec_ok p c = Execve program args env c'"
  shows "uid_of c' = mUid (p_user p) \<and> gid_of c' = mGid (p_user p)
     \<and> program = c_str (p_program p) \<and> env = env_get (p_env p)"
  using assms impersonate_sets_identity [OF assms(1), of nd db "p_user p" c c']
  by (auto simp add: start_child_def split: res.splits if_splits)

definition example_db :: user_db where
  "example_db = \<lparr>getpwnam = [''nobody'' \<mapsto> \<lparr>pw_name = ''nobody'', pw_uid = 65534, pw_gid = 65534\<rparr>],
     getpwuid = [65534 \<mapsto> \<lparr>pw_name = ''nobody'', pw_uid = 65534, pw_gid = 65534\<rparr>],
     getgrnam = Map.empty\<rparr>"

theorem child_runs_as_configured_user_witness:
  "\<exists>program args env c'. start_child False example_db simple_calls (\<lambda>_. True)
       (fresh_impl\<lparr>p_program := ''/bin/true'', p_user := \<lparr>mUid = 65534, mGid = 65534\<rparr>\<rparr> :: completion impl)
       \<lparr>c_uid = 0, c_gid = 0, c_groups = []\<rparr> = Execve program args env c'
     \<and> c_uid c' = 65534 \<and> c_gid c' = 65534"
proof -
  let ?p = "fresh_impl\<lparr>p_program := ''/bin/true'', p_user := \<lparr>mUid = 65534, mGid = 65534\<rparr>\<rparr> :: completion impl"
  obtain program args env c' where e: "start_child False example_db simple_calls (\<lambda>_. True) ?p
      \<lparr>c_uid = 0, c_gid = 0, c_groups = []\<rparr> = Execve program args env c'"
    by (simp add: start_child_def impersonate_def example_db_def simple_calls_def sys_call_def
        user_group_bool_def invalid_id_def)
  have "user_group_bool (p_user ?p)" by (simp add: user_group_bool_def invalid_id_def)
  from child_runs_as_configured_user [OF simple_calls_contract this e] e show ?thesis by auto
qed

end
