(* ===== verification/Hook_Config.thy ===== *)
theory Hook_Config
  imports Hook_Core Text_Scan
begin

text \<open>
  Hooks made from the configuration: which entries they need, what their members hold, and whose
  identity a command gets when the server runs as root.
\<close>

section \<open>Entries of a hook\<close>

text \<open>
  The value an optional entry stands for: the default when the entry is missing, and otherwise what its text
  or number converts to.
\<close>

definition entry_value :: "'t toml \<Rightarrow> 't \<Rightarrow> string \<Rightarrow> 'a \<Rightarrow> ('t \<Rightarrow> 'a res) \<Rightarrow> 'a \<Rightarrow> bool" where
  "entry_value T v key dflt conv x \<longleftrightarrow>
     (item_contains T v key = Val False \<and> x = dflt)
     \<or> (item_contains T v key = Val True \<and> (\<exists>c. item_key T v key = Val c \<and> conv c = Val x))"

lemma optional_entry_value: "optional_entry T v key dflt conv = Val x \<Longrightarrow> entry_value T v key dflt conv x"
  by (auto simp add: optional_entry_def entry_value_def bnd_Val_iff split: if_splits)

lemmas optional_entry_Val = optional_entry_value [unfolded entry_value_def]

text \<open>
  The ids an entry \<open>run_as\<close> stands for: the user's, and the group's when a group is named, otherwise the
  user's own group.
\<close>

definition run_as_ids :: "'t toml \<Rightarrow> user_db \<Rightarrow> 't \<Rightarrow> uid_t \<Rightarrow> uid_t \<Rightarrow> bool" where
  "run_as_ids T db v uid gid \<longleftrightarrow> (\<exists>run_as user info. item_key T v ''run_as'' = Val run_as
     \<and> string_at T run_as ''user'' = Val user \<and> getpwnam db user = Some info \<and> uid = pw_uid info
     \<and> (item_contains T run_as ''group'' = Val False \<and> gid = pw_gid info
        \<or> item_contains T run_as ''group'' = Val True
          \<and> (\<exists>grp. string_at T run_as ''group'' = Val grp \<and> getgrnam db grp = Some gid)))"

text \<open>The identity of a hook whose command needs one when \<open>needed\<close> is true.\<close>

definition configured_identity :: "'t toml \<Rightarrow> user_db \<Rightarrow> bool \<Rightarrow> 't \<Rightarrow> user_group \<Rightarrow> bool" where
  "configured_identity T db needed v g \<longleftrightarrow> (\<exists>b. item_contains T v ''run_as'' = Val b
     \<and> (if b \<or> needed then run_as_ids T db v (mUid g) (mGid g) else g = null_user_group))"

lemma hook_base_parts:
  assumes "hook_base T db uid v = Val d"
  shows "string_at T v ''uri_path'' = Val (uri_path d) \<and> string_at T v ''name'' = Val (hook_name d)
    \<and> string_view_at T v ''token'' = Val (mToken d)
    \<and> optional_entry T v ''peer_address'' [] (item_to_string_view T) = Val (mAllowedAddress d)
    \<and> optional_entry T v ''command'' [] (\<lambda>c. bnd (item_to_string_view T c) (\<lambda>s. Val (trimmed s))) = Val (mCommand d)
    \<and> optional_entry T v ''environment'' [] (string_list_from T) = Val (mEnvironment d)
    \<and> optional_entry T v ''timeout'' 60 (item_to T T_int64) = Val (mTimeout d)
    \<and> (\<exists>b. item_contains T v ''run_as'' = Val b
      \<and> (if b \<or> mCommand d \<noteq> [] \<and> uid = 0
          then bnd (item_key T v ''run_as'') (user_group_from T db) else Val null_user_group) = Val (mUserGroup d))"
  using assms unfolding hook_base_def Let_def by (elim bnd_ValE) (clarsimp split: if_splits)

lemmas hook_base_Val =
  hook_base_parts [THEN conjunct1]
  hook_base_parts [THEN conjunct2, THEN conjunct1]
  hook_base_parts [THEN conjunct2, THEN conjunct2, THEN conjunct1]
  hook_base_parts [THEN conjunct2, THEN conjunct2, THEN conjunct2, THEN conjunct1]
  hook_base_parts [THEN conjunct2, THEN conjunct2, THEN conjunct2, THEN conjunct2, THEN conjunct1]
  hook_base_parts [THEN conjunct2, THEN conjunct2, THEN conjunct2, THEN conjunct2, THEN conjunct2, THEN conjunct1]
  hook_base_parts [THEN conjunct2, THEN conjunct2, THEN conjunct2, THEN conjunct2, THEN conjunct2, THEN conjunct2,
    THEN conjunct1]
  hook_base_parts [THEN conjunct2, THEN conjunct2, THEN conjunct2, THEN conjunct2, THEN conjunct2, THEN conjunct2,
    THEN conjunct2]

lemma user_group_from_ids:
  assumes "user_group_from T db e = Val g" and "item_key T v ''run_as'' = Val e"
  shows "run_as_ids T db v (mUid g) (mGid g)"
proof -
  from assms(1) obtain b where b: "item_contains T e ''group'' = Val b" by (auto simp add: user_group_from_def bnd_Val_iff)
  show ?thesis
  proof (cases b)
    case True
    with assms(1) b obtain user grp where u: "string_at T e ''user'' = Val user" "string_at T e ''group'' = Val grp"
      "user_group_of_names db user grp = Val g" by (auto simp add: user_group_from_def bnd_Val_iff)
    then obtain info where "getpwnam db user = Some info" "mUid g = pw_uid info" "getgrnam db grp = Some (mGid g)"
      by (auto simp add: user_group_of_names_def split: option.splits)
    with assms(2) b True u show ?thesis
      unfolding run_as_ids_def by (intro exI [of _ e] exI [of _ user] exI [of _ info]) simp
  next
    case False
    with assms(1) b obtain user where u: "string_at T e ''user'' = Val user" "user_group_of_user db user = Val g"
      by (auto simp add: user_group_from_def bnd_Val_iff)
    then obtain info where "getpwnam db user = Some info" "mUid g = pw_uid info" "mGid g = pw_gid info"
      by (auto simp add: user_group_of_user_def split: option.splits)
    with assms(2) b False u show ?thesis
      unfolding run_as_ids_def by (intro exI [of _ e] exI [of _ user] exI [of _ info]) simp
  qed
qed

lemma hook_base_identity:
  assumes "hook_base T db uid v = Val d"
  shows "configured_identity T db (mCommand d \<noteq> [] \<and> uid = 0) v (mUserGroup d)"
proof -
  from hook_base_Val(8) [OF assms] obtain b where b: "item_contains T v ''run_as'' = Val b"
    "(if b \<or> mCommand d \<noteq> [] \<and> uid = 0
      then bnd (item_key T v ''run_as'') (user_group_from T db) else Val null_user_group) = Val (mUserGroup d)" by blast
  have "run_as_ids T db v (mUid (mUserGroup d)) (mGid (mUserGroup d))" if "b \<or> mCommand d \<noteq> [] \<and> uid = 0"
    using b(2) that by (auto simp add: bnd_Val_iff intro: user_group_from_ids)
  with b show ?thesis unfolding configured_identity_def by (intro exI [of _ b]) auto
qed

text \<open>The kinds of hooks, with the entries each is made from.\<close>

lemma create_kind_entries:
  assumes "create T db uid v = Val h"
  shows "mChain h = None \<and> hook_base T db uid v = Val (hdata h)
     \<and> (string_view_at T v ''type'' = Val ''debug'' \<and> hkind h = Debug_hook \<and> item_contains T v ''command'' = Val False
        \<or> string_view_at T v ''type'' = Val ''pipeline''
          \<and> (\<exists>c jobs statuses. hkind h = Pipeline_hook statuses jobs \<and> item_key T v ''job_name'' = Val c
               \<and> string_set_from T c = Val jobs \<and> entry_value T v ''status'' {} (string_set_from T) statuses))"
  using assms
  by (auto simp add: create_def debug_hook_def pipeline_hook_def bnd_Val_iff split: if_splits intro: optional_entry_value)

lemma create_kinds:
  assumes "create T db uid v = Val h"
  shows "mChain h = None \<and> hook_base T db uid v = Val (hdata h)
     \<and> (hkind h = Debug_hook \<and> item_contains T v ''command'' = Val False
        \<or> (\<exists>c jobs statuses. hkind h = Pipeline_hook statuses jobs \<and> item_key T v ''job_name'' = Val c
             \<and> string_set_from T c = Val jobs))"
  using create_kind_entries [OF assms] by auto

text \<open>
  (C38) A hook is created only with what the configuration says, in every member: path, name and token are
  mandatory strings; the address of the peer, the command without surrounding white space, the list of
  variables, the timeout and the statuses are the configured ones, or the defaults where the entry is
  missing (a timeout of 60 seconds, otherwise empty); the kind is the configured type, with the
  mandatory job names of a pipeline hook, and without a command in a debug hook; the identity is the one
  named under \<open>run_as\<close>, which may be missing only where no command runs as root. The timeout is always a
  64-bit number, and the new hook has no chain.
\<close>

theorem created_hook_matches_configuration:
  assumes "create T db uid v = Val h"
  shows "mChain h = None
     \<and> string_at T v ''uri_path'' = Val (uri_path (hdata h)) \<and> string_at T v ''name'' = Val (hook_name (hdata h))
     \<and> string_view_at T v ''token'' = Val (mToken (hdata h))
     \<and> entry_value T v ''peer_address'' [] (item_to_string_view T) (mAllowedAddress (hdata h))
     \<and> entry_value T v ''command'' [] (\<lambda>c. bnd (item_to_string_view T c) (\<lambda>s. Val (trimmed s))) (mCommand (hdata h))
     \<and> entry_value T v ''environment'' [] (string_list_from T) (mEnvironment (hdata h))
     \<and> entry_value T v ''timeout'' 60 (item_to T T_int64) (mTimeout (hdata h))
     \<and> configured_identity T db (mCommand (hdata h) \<noteq> [] \<and> uid = 0) v (mUserGroup (hdata h))
     \<and> (string_view_at T v ''type'' = Val ''debug'' \<and> hkind h = Debug_hook
        \<or> string_view_at T v ''type'' = Val ''pipeline''
          \<and> (\<exists>c jobs statuses. hkind h = Pipeline_hook statuses jobs \<and> item_key T v ''job_name'' = Val c
               \<and> string_set_from T c = Val jobs \<and> entry_value T v ''status'' {} (string_set_from T) statuses))
     \<and> trimmed (mCommand (hdata h)) = mCommand (hdata h)
     \<and> - (2 ^ 63) \<le> mTimeout (hdata h) \<and> mTimeout (hdata h) < 2 ^ 63
     \<and> (item_contains T v ''timeout'' = Val False \<longrightarrow> mTimeout (hdata h) = 60)
     \<and> (hkind h = Debug_hook \<longrightarrow> mCommand (hdata h) = [])"
proof -
  let ?d = "hdata h"
  note k = create_kind_entries [OF assms]
  then have base: "hook_base T db uid v = Val ?d" by blast
  note b = hook_base_Val [OF base]
  have "trimmed (mCommand ?d) = mCommand ?d"
    using optional_entry_Val [OF b(5)] by (auto simp add: bnd_Val_iff trimmed_Nil_iff) (metis trimmed_idem)
  moreover have "- (2 ^ 63) \<le> mTimeout ?d \<and> mTimeout ?d < 2 ^ 63
      \<and> (item_contains T v ''timeout'' = Val False \<longrightarrow> mTimeout ?d = 60)"
    using optional_entry_Val [OF b(7)] item_to_bounds [of T T_int64 _ "mTimeout ?d"] by force
  moreover have "hkind h = Debug_hook \<longrightarrow> mCommand ?d = []"
    using k optional_entry_Val [OF b(5)] by auto
  moreover have "string_view_at T v ''type'' = Val ''debug'' \<and> hkind h = Debug_hook
        \<or> string_view_at T v ''type'' = Val ''pipeline''
          \<and> (\<exists>c jobs statuses. hkind h = Pipeline_hook statuses jobs \<and> item_key T v ''job_name'' = Val c
               \<and> string_set_from T c = Val jobs \<and> entry_value T v ''status'' {} (string_set_from T) statuses)"
    using k by blast
  ultimately show ?thesis
    using k b(1-3) hook_base_identity [OF base] b(4-7) [THEN optional_entry_value] by (intro conjI) simp_all
qed

section \<open>Concrete configurations\<close>

definition example_users :: user_db where
  "example_users = \<lparr>getpwnam = [''nobody'' \<mapsto> \<lparr>pw_name = ''nobody'', pw_uid = 65534, pw_gid = 65534\<rparr>],
     getpwuid = [65534 \<mapsto> \<lparr>pw_name = ''nobody'', pw_uid = 65534, pw_gid = 65534\<rparr>],
     getgrnam = Map.empty\<rparr>"

text \<open>The hook of the README's example; the entry for the job names as an argument.\<close>

definition readme_hook :: "string \<Rightarrow> toml_tree" where
  "readme_hook jobs_entry = T_table
     [(''type'', T_string ''pipeline''), (''name'', T_string ''deploy my artifact''),
      (''uri_path'', T_string ''/api/deploy''), (''token'', T_string ''t0p$ecre4''),
      (jobs_entry, T_array [T_string ''build-this'', T_string ''build-that'']),
      (''status'', T_string ''success''), (''command'', T_string ''/usr/bin/echo Hello, world!''),
      (''run_as'', T_table [(''user'', T_string ''nobody'')])]"

lemmas config_eval =
  readme_hook_def tree_toml_def create_def debug_hook_def pipeline_hook_def hook_base_def string_at_def
  string_view_at_def optional_entry_def item_key_def item_contains_def item_to_string_def item_size_def
  item_index_def item_is_string_def string_set_from_def string_list_from_def user_group_from_def
  user_group_of_user_def example_users_def

lemma readme_created: "\<exists>h. create tree_toml example_users 0 (readme_hook ''job_name'') = Val h
    \<and> mUid (mUserGroup (hdata h)) = 65534 \<and> uri_path (hdata h) = ''/api/deploy''"
  by (simp add: config_eval Let_def)

theorem created_hook_matches_configuration_witness:
  "\<exists>h. create tree_toml example_users 0 (readme_hook ''job_name'') = Val h \<and> mTimeout (hdata h) = 60
     \<and> run_as_ids tree_toml example_users (readme_hook ''job_name'') (mUid (mUserGroup (hdata h))) (mGid (mUserGroup (hdata h)))"
proof -
  obtain h where h: "create tree_toml example_users 0 (readme_hook ''job_name'') = Val h"
    using readme_created by (elim exE conjE) (rule that)
  have "item_contains tree_toml (readme_hook ''job_name'') ''timeout'' = Val False"
    "item_contains tree_toml (readme_hook ''job_name'') ''run_as'' = Val True"
    by (simp_all add: item_contains_def tree_toml_def readme_hook_def)
  with created_hook_matches_configuration [OF h] h show ?thesis by (auto simp add: configured_identity_def)
qed

lemma root_command_user:
  assumes "create T db 0 v = Val h" and "mCommand (hdata h) \<noteq> []"
  shows "\<exists>entry user info. item_key T v ''run_as'' = Val entry \<and> string_at T entry ''user'' = Val user
     \<and> getpwnam db user = Some info \<and> mUid (mUserGroup (hdata h)) = pw_uid info"
proof -
  from create_kinds [OF assms(1)] have "hook_base T db 0 v = Val (hdata h)" by blast
  from hook_base_identity [OF this] assms(2)
  have "run_as_ids T db v (mUid (mUserGroup (hdata h))) (mGid (mUserGroup (hdata h)))"
    by (auto simp add: configured_identity_def)
  then show ?thesis unfolding run_as_ids_def by (elim exE conjE) (intro exI conjI)
qed

text \<open>
  (C19) Commands of a server that runs as root need a user: a hook with a command is created under user id 0
  only if the configuration names a user under \<open>run_as\<close> whom the user database knows, and the hook's
  user id is that user's.
\<close>

theorem root_command_needs_user:
  assumes "create T db 0 v = Val h" and "mCommand (hdata h) \<noteq> []"
  shows "\<exists>entry user info. item_key T v ''run_as'' = Val entry \<and> string_at T entry ''user'' = Val user
     \<and> getpwnam db user = Some info \<and> mUid (mUserGroup (hdata h)) = pw_uid info"
  using assms by (rule root_command_user)

theorem root_command_needs_user_witness:
  "\<exists>h entry user. create tree_toml example_users 0 (readme_hook ''job_name'') = Val h
     \<and> item_key tree_toml (readme_hook ''job_name'') ''run_as'' = Val entry
     \<and> string_at tree_toml entry ''user'' = Val user"
proof -
  obtain h where h: "create tree_toml example_users 0 (readme_hook ''job_name'') = Val h"
    "mCommand (hdata h) \<noteq> []"
  proof -
    obtain h where h: "create tree_toml example_users 0 (readme_hook ''job_name'') = Val h"
      using readme_created by (elim exE conjE) (rule that)
    have t: "trimmed ''/usr/bin/echo Hello, world!'' \<noteq> []" by code_simp
    have "hook_base tree_toml example_users 0 (readme_hook ''job_name'') = Val (hdata h)"
      using create_kinds [OF h] by (elim conjE)
    from hook_base_Val(5) [OF this] have "mCommand (hdata h) = trimmed ''/usr/bin/echo Hello, world!''"
      by (simp add: config_eval)
    with t h that show ?thesis by simp
  qed
  from root_command_needs_user [OF h] h(1) show ?thesis by fastforce
qed

text \<open>
  A pipeline hook must have an entry \<open>job_name\<close>: without it no hook is created, whatever the other
  entries are. The README's example calls the entry \<open>jobname\<close>, so the server refuses it.
\<close>

theorem pipeline_hook_needs_job_name:
  assumes "string_view_at T v ''type'' = Val ''pipeline''" and "item_contains T v ''job_name'' = Val False"
  shows "\<nexists>h. create T db uid v = Val h"
proof
  assume "\<exists>h. create T db uid v = Val h"
  then obtain h where "create T db uid v = Val h" by blast
  with assms(1) obtain c where "item_key T v ''job_name'' = Val c"
    by (auto simp add: create_def pipeline_hook_def bnd_Val_iff)
  with item_key_contains [OF this] assms(2) show False by simp
qed

theorem pipeline_hook_needs_job_name_witness:
  "\<nexists>h. create tree_toml example_users 0 (readme_hook ''jobname'') = Val h"
  by (rule pipeline_hook_needs_job_name)
    (simp_all add: readme_hook_def tree_toml_def string_view_at_def item_key_def item_to_string_def item_contains_def)

end
