(* ===== verification/Hook_Setup.thy ===== *)
theory Hook_Setup
  imports Request_Handlers Hook_Config
begin

text \<open>
  The set-up of handlers and hooks in \<open>main\<close> (\<open>src/main.cpp\<close>). The handlers table refers to the status
  page and to the hook objects (\<open>std::ref\<close>), so a hook that is chained later is seen through the
  reference: a reference is an index into the vector of hooks here. The properties state where a
  configured hook ends up, and what happens to a third hook of one path.
\<close>

section \<open>Registration\<close>

datatype handler_ref = Ref_status | Ref_hook nat

text \<open>\<open>std::find_if(hooks.rbegin(), hooks.rend(), ...)\<close>: the last hook with the path.\<close>

fun find_same :: "string \<Rightarrow> hook list \<Rightarrow> nat option" where
  "find_same path [] = None"
| "find_same path (h # hs) =
     (case find_same path hs of
        Some j \<Rightarrow> Some (Suc j)
      | None \<Rightarrow> if path = uri_path (hdata h) then Some 0 else None)"

definition register_hook ::
  "bool \<Rightarrow> hook \<Rightarrow> (string \<rightharpoonup> handler_ref) \<times> hook list \<Rightarrow> ((string \<rightharpoonup> handler_ref) \<times> hook list) res" where
  "register_hook ndebug nhook st =
     (case st of (table, hooks) \<Rightarrow>
        case find_same (uri_path (hdata nhook)) hooks of
          None \<Rightarrow>
            bnd (add_handler table (uri_path (hdata nhook)) (Ref_hook (length hooks))) (\<lambda>table.
            Val (table, hooks @ [nhook]))
        | Some j \<Rightarrow> bnd (chain ndebug (hooks ! j) nhook) (\<lambda>h. Val (table, hooks[j := h])))"

fun register_loop ::
  "bool \<Rightarrow> 't toml \<Rightarrow> user_db \<Rightarrow> uid_t \<Rightarrow> 't \<Rightarrow> nat list
     \<Rightarrow> (string \<rightharpoonup> handler_ref) \<times> hook list \<Rightarrow> ((string \<rightharpoonup> handler_ref) \<times> hook list) res" where
  "register_loop ndebug T db uid cfg [] st = Val st"
| "register_loop ndebug T db uid cfg (i # is) st =
     bnd (item_index T cfg i) (\<lambda>c.
     bnd (create T db uid c) (\<lambda>nhook.
     bnd (register_hook ndebug nhook st) (register_loop ndebug T db uid cfg is)))"

definition setup_handlers ::
  "bool \<Rightarrow> 't toml \<Rightarrow> user_db \<Rightarrow> uid_t \<Rightarrow> 't \<Rightarrow> ((string \<rightharpoonup> handler_ref) \<times> hook list) res" where
  "setup_handlers ndebug T db uid root =
     bnd (add_handler Map.empty ''/status'' Ref_status) (\<lambda>table.
     bnd (item_key T root ''hooks'') (\<lambda>cfg.
     bnd (item_size T cfg) (\<lambda>endi.
     register_loop ndebug T db uid cfg [0..<endi] (table, []))))"

text \<open>The handlers the server calls once the set-up is done.\<close>

definition resolve :: "int \<Rightarrow> (string \<rightharpoonup> handler_ref) \<times> hook list \<Rightarrow> string \<rightharpoonup> handler" where
  "resolve start st path =
     (case fst st path of
        None \<Rightarrow> None
      | Some Ref_status \<Rightarrow> Some (Status_handler start)
      | Some (Ref_hook j) \<Rightarrow> Some (Hook_handler (snd st ! j)))"

section \<open>Invariant of the registration\<close>

definition setup_inv :: "(string \<rightharpoonup> handler_ref) \<times> hook list \<Rightarrow> bool" where
  "setup_inv st \<longleftrightarrow>
     (\<forall>j < length (snd st). fst st (stored_path (uri_path (hdata (snd st ! j)))) = Some (Ref_hook j))
   \<and> (\<forall>q j. fst st q = Some (Ref_hook j) \<longrightarrow> j < length (snd st))
   \<and> (\<forall>h\<in>set (snd st). \<exists>r. uri_path (hdata h) = slash # r)
   \<and> distinct (map (\<lambda>h. uri_path (hdata h)) (snd st))"

lemma find_same_Some:
  "find_same path hs = Some j \<Longrightarrow> j < length hs \<and> uri_path (hdata (hs ! j)) = path"
  by (induction hs arbitrary: j) (auto split: option.splits if_splits)

lemma find_same_None: "find_same path hs = None \<longleftrightarrow> (\<forall>h\<in>set hs. uri_path (hdata h) \<noteq> path)"
  by (induction hs) (auto split: option.splits)

lemma links_nonempty: "links h = (hdata h, hkind h) # (case mChain h of None \<Rightarrow> [] | Some h' \<Rightarrow> links h')"
  by (cases h rule: links.cases) auto

lemma chain_Val:
  "chain nd h other = Val h' \<longleftrightarrow> (nd \<or> mChain h = None) \<and> h' = Hook (hdata h) (hkind h) (Some other)"
  by (auto simp add: chain_def res_simps)

lemma register_hook_inv:
  assumes "register_hook nd nhook st = Val st'" and "setup_inv st"
  shows "setup_inv st'"
proof -
  obtain table hooks where st: "st = (table, hooks)" by (cases st)
  let ?p = "uri_path (hdata nhook)"
  show ?thesis
  proof (cases "find_same ?p hooks")
    case None
    with assms(1) st obtain table' where a: "add_handler table ?p (Ref_hook (length hooks)) = Val table'"
      and st': "st' = (table', hooks @ [nhook])"
      by (auto simp add: register_hook_def bnd_Val_iff)
    from rt.add_law [OF a] have t: "?p \<noteq> []" "hd ?p = slash" "table (stored_path ?p) = None"
      "table' = table(stored_path ?p \<mapsto> Ref_hook (length hooks))" by auto
    have "\<exists>r. ?p = slash # r" using t(1,2) by (cases ?p) auto
    moreover have "\<forall>h\<in>set hooks. uri_path (hdata h) \<noteq> ?p" using None by (simp add: find_same_None)
    moreover have "stored_path (uri_path (hdata (hooks ! j))) \<noteq> stored_path ?p" if "j < length hooks" for j
      using that assms(2) t(3) st by (force simp add: setup_inv_def)
    ultimately show ?thesis
      using assms(2) st st' t(4) by (auto simp add: setup_inv_def nth_append less_Suc_eq)
  next
    case (Some j)
    with assms(1) st obtain h where c: "chain nd (hooks ! j) nhook = Val h" and st': "st' = (table, hooks[j := h])"
      by (auto simp add: register_hook_def bnd_Val_iff)
    from c have h: "hdata h = hdata (hooks ! j)" by (simp add: chain_Val)
    have j: "j < length hooks" using find_same_Some [OF Some] by simp
    have paths: "map (\<lambda>h. uri_path (hdata h)) (hooks[j := h]) = map (\<lambda>h. uri_path (hdata h)) hooks"
      using h j by (simp add: map_update list_update_same_conv)
    have nth: "uri_path (hdata (hooks[j := h] ! i)) = uri_path (hdata (hooks ! i))" for i
      using h j by (cases "i = j") auto
    have "\<exists>r. uri_path (hdata g) = slash # r" if "g \<in> set (hooks[j := h])" for g
    proof -
      from that have "uri_path (hdata g) \<in> (\<lambda>h. uri_path (hdata h)) ` set hooks"
        using paths by (metis image_eqI list.set_map)
      with assms(2) st show ?thesis by (auto simp add: setup_inv_def)
    qed
    with assms(2) st st' paths nth show ?thesis by (simp add: setup_inv_def)
  qed
qed

lemma register_loop_inv: "register_loop nd T db uid cfg is st = Val st' \<Longrightarrow> setup_inv st \<Longrightarrow> setup_inv st'"
  by (induction "is" arbitrary: st) (auto simp add: bnd_Val_iff dest: register_hook_inv)

text \<open>A hook is present when some object of the vector with its path has it in its chain.\<close>

definition present :: "hook \<Rightarrow> (string \<rightharpoonup> handler_ref) \<times> hook list \<Rightarrow> bool" where
  "present h st \<longleftrightarrow> (\<exists>j < length (snd st). uri_path (hdata (snd st ! j)) = uri_path (hdata h)
     \<and> (hdata h, hkind h) \<in> set (links (snd st ! j)))"

lemma register_hook_present:
  assumes "register_hook False nhook st = Val st'"
  shows "present nhook st'" and "present h st \<Longrightarrow> present h st'"
proof -
  obtain table hooks where st: "st = (table, hooks)" by (cases st)
  have self: "(hdata g, hkind g) \<in> set (links g)" for g using links_nonempty [of g] by simp
  have "present nhook st' \<and> (present h st \<longrightarrow> present h st')"
  proof (cases "find_same (uri_path (hdata nhook)) hooks")
    case None
    with assms st obtain table' where st': "st' = (table', hooks @ [nhook])"
      by (auto simp add: register_hook_def bnd_Val_iff)
    have "present nhook st'" using st' self by (auto simp add: present_def intro!: exI [of _ "length hooks"])
    moreover have "present h st'" if "present h st"
      using that st st' by (auto simp add: present_def nth_append intro: less_SucI)
    ultimately show ?thesis by blast
  next
    case (Some j)
    with assms st obtain g where c: "chain False (hooks ! j) nhook = Val g" and st': "st' = (table, hooks[j := g])"
      by (auto simp add: register_hook_def bnd_Val_iff)
    from c have g: "hdata g = hdata (hooks ! j)" "links (hooks ! j) = [(hdata g, hkind g)]"
      "links g = (hdata g, hkind g) # links nhook"
      using links_nonempty [of "hooks ! j"] by (simp_all add: chain_Val)
    note j = find_same_Some [OF Some]
    have "present nhook st'"
      using j g st' self [of nhook] by (auto simp add: present_def intro!: exI [of _ j])
    moreover have "present h st'" if "present h st"
    proof -
      from that st obtain i where i: "i < length hooks" "uri_path (hdata (hooks ! i)) = uri_path (hdata h)"
        "(hdata h, hkind h) \<in> set (links (hooks ! i))" by (auto simp add: present_def)
      have "set (links (hooks ! j)) \<subseteq> set (links g)" using g(2,3) by simp
      then have "(hdata h, hkind h) \<in> set (links (hooks[j := g] ! i))" using i(1,3) by (cases "i = j") auto
      moreover have "uri_path (hdata (hooks[j := g] ! i)) = uri_path (hdata h)"
        using i(1,2) g(1) by (cases "i = j") simp_all
      ultimately show ?thesis using i(1) st' by (auto simp add: present_def)
    qed
    ultimately show ?thesis by blast
  qed
  then show "present nhook st'" and "present h st \<Longrightarrow> present h st'" by blast+
qed

lemma register_loop_present:
  assumes "register_loop False T db uid cfg is st = Val st'"
  shows "(present h st \<longrightarrow> present h st')
     \<and> (i \<in> set is \<longrightarrow> bnd (item_index T cfg i) (create T db uid) = Val h \<longrightarrow> present h st')"
  using assms
proof (induction "is" arbitrary: st)
  case Nil
  then show ?case by simp
next
  case (Cons k ks)
  from Cons.prems obtain c nhook st1 where c: "item_index T cfg k = Val c" "create T db uid c = Val nhook"
    "register_hook False nhook st = Val st1" "register_loop False T db uid cfg ks st1 = Val st'"
    by (auto simp add: bnd_Val_iff)
  note IH = Cons.IH [OF c(4)]
  show ?case
    using IH register_hook_present [OF c(3)] c(1,2) by (cases "i = k") auto
qed

lemma setup_handlers_Val:
  assumes "setup_handlers nd T db uid root = Val st" and "item_key T root ''hooks'' = Val cfg"
    and "item_size T cfg = Val n"
  shows "setup_inv st \<and> register_loop nd T db uid cfg [0..<n] ([''/status'' \<mapsto> Ref_status], []) = Val st"
proof -
  have "add_handler Map.empty ''/status'' Ref_status = Val [''/status'' \<mapsto> Ref_status]"
    by (simp add: add_handler_def stored_path_def slash_def)
  with assms have r: "register_loop nd T db uid cfg [0..<n] ([''/status'' \<mapsto> Ref_status], []) = Val st"
    by (simp add: setup_handlers_def)
  moreover have "setup_inv ([''/status'' \<mapsto> Ref_status], [])" by (simp add: setup_inv_def)
  ultimately show ?thesis using register_loop_inv [OF r] by simp
qed

section \<open>Properties\<close>

text \<open>
  (C22) Every configured hook is reachable: if a build with assertions gets through the set-up, a request
  for the path of any configured hook finds a handler whose chain contains that hook, provided the
  path does not end in a slash. (Without assertions a third hook of a path replaces the second, which is then
  not reachable.)
\<close>

theorem configured_hooks_reachable:
  assumes "setup_handlers False T db uid root = Val st" and "item_key T root ''hooks'' = Val cfg"
    and "item_size T cfg = Val n" and "i < n"
    and "bnd (item_index T cfg i) (create T db uid) = Val nhook"
    and "stored_path (uri_path (hdata nhook)) = uri_path (hdata nhook)"
  shows "\<exists>h. find_handler (resolve start st) (uri_path (hdata nhook)) = Val (Some (Hook_handler h))
     \<and> uri_path (hdata h) = uri_path (hdata nhook) \<and> (hdata nhook, hkind nhook) \<in> set (links h)"
proof -
  from setup_handlers_Val [OF assms(1-3)] have inv: "setup_inv st"
    and loop: "register_loop False T db uid cfg [0..<n] ([''/status'' \<mapsto> Ref_status], []) = Val st" by auto
  from register_loop_present [OF loop, of nhook i] assms(4,5) have "present nhook st" by simp
  then obtain j where j: "j < length (snd st)" "uri_path (hdata (snd st ! j)) = uri_path (hdata nhook)"
    "(hdata nhook, hkind nhook) \<in> set (links (snd st ! j))" by (auto simp add: present_def)
  from inv j(1,2) assms(6) have "fst st (uri_path (hdata nhook)) = Some (Ref_hook j)"
    by (auto simp add: setup_inv_def)
  then have "resolve start st (uri_path (hdata nhook)) = Some (Hook_handler (snd st ! j))"
    by (simp add: resolve_def)
  moreover have "snd st ! j \<in> set (snd st)" using j(1) by simp
  with inv have "\<exists>r. uri_path (hdata (snd st ! j)) = slash # r" by (simp add: setup_inv_def)
  then have "uri_path (hdata nhook) \<noteq> [] \<and> hd (uri_path (hdata nhook)) = slash" using j(2) by auto
  ultimately have "find_handler (resolve start st) (uri_path (hdata nhook)) = Val (Some (Hook_handler (snd st ! j)))"
    by (intro rt.search_exact) auto
  with j show ?thesis by blast
qed

definition readme_root :: toml_tree where
  "readme_root = T_table [(''hooks'', T_array [readme_hook ''job_name'', readme_hook ''job_name''])]"

theorem configured_hooks_reachable_witness:
  "\<exists>st h. setup_handlers False tree_toml example_users 0 readme_root = Val st
     \<and> find_handler (resolve 0 st) ''/api/deploy'' = Val (Some (Hook_handler h)) \<and> mChain h \<noteq> None"
proof -
  obtain nhook where n: "create tree_toml example_users 0 (readme_hook ''job_name'') = Val nhook"
    "uri_path (hdata nhook) = ''/api/deploy''"
    using readme_created by (elim exE conjE) (rule that)
  let ?cfg = "T_array [readme_hook ''job_name'', readme_hook ''job_name'']"
  have root: "item_key tree_toml readme_root ''hooks'' = Val ?cfg" "item_size tree_toml ?cfg = Val 2"
    by (simp_all add: readme_root_def tree_toml_def item_key_def item_size_def)
  have idx: "item_index tree_toml ?cfg 0 = Val (readme_hook ''job_name'')"
    "item_index tree_toml ?cfg (Suc 0) = Val (readme_hook ''job_name'')"
    by (simp_all add: tree_toml_def item_index_def)
  have c: "mChain nhook = None" using create_kinds [OF n(1)] by (rule conjunct1)
  let ?t1 = "[''/status'' \<mapsto> Ref_status]"
  let ?t2 = "[''/status'' \<mapsto> Ref_status, ''/api/deploy'' \<mapsto> Ref_hook 0]"
  have add0: "add_handler Map.empty ''/status'' Ref_status = Val ?t1"
    by (simp add: add_handler_def stored_path_def slash_def)
  have add: "add_handler ?t1 ''/api/deploy'' (Ref_hook 0) = Val ?t2"
    by (simp add: add_handler_def stored_path_def slash_def)
  have reg1: "register_hook False nhook (?t1, []) = Val (?t2, [nhook])"
    using add by (simp add: register_hook_def n(2))
  have reg2: "register_hook False nhook (?t2, [nhook]) = Val (?t2, [Hook (hdata nhook) (hkind nhook) (Some nhook)])"
    using c by (simp add: register_hook_def chain_def)
  have range: "[0..<2] = [0, Suc 0]" by (simp add: numeral_2_eq_2)
  have st: "setup_handlers False tree_toml example_users 0 readme_root
      = Val (?t2, [Hook (hdata nhook) (hkind nhook) (Some nhook)])"
    unfolding setup_handlers_def add0 root bnd.simps range register_loop.simps idx n(1) reg1 reg2 by (rule refl)
  have "stored_path (uri_path (hdata nhook)) = uri_path (hdata nhook)"
    by (simp add: n(2) stored_path_def slash_def)
  from configured_hooks_reachable [OF st root, of 0 nhook 0] this idx(1) n obtain h
    where "find_handler (resolve 0 ([''/status'' \<mapsto> Ref_status, ''/api/deploy'' \<mapsto> Ref_hook 0],
             [Hook (hdata nhook) (hkind nhook) (Some nhook)])) ''/api/deploy'' = Val (Some (Hook_handler h))"
    by (simp only: bnd.simps n) auto
  moreover have "find_handler (resolve 0 ([''/status'' \<mapsto> Ref_status, ''/api/deploy'' \<mapsto> Ref_hook 0],
             [Hook (hdata nhook) (hkind nhook) (Some nhook)])) ''/api/deploy''
      = Val (Some (Hook_handler (Hook (hdata nhook) (hkind nhook) (Some nhook))))"
    by (rule rt.search_exact) (simp_all add: resolve_def slash_def)
  ultimately show ?thesis using st by auto
qed

text \<open>
  (C31) A third hook of one path breaks the set-up: with assertions the server aborts; without them the
  third hook replaces the second one in the chain, which is never asked again, although the README
  promises that all matching hooks are checked.
\<close>

theorem third_hook_of_a_path:
  assumes "find_same path (snd st) = None"
    and "uri_path (hdata h1) = path" and "uri_path (hdata h2) = path" and "uri_path (hdata h3) = path"
    and "mChain h1 = None" and "mChain h3 = None"
    and "register_hook nd h1 st = Val st1" and "register_hook nd h2 st1 = Val st2"
  shows "if nd then \<exists>st3. register_hook nd h3 st2 = Val st3
           \<and> links (last (snd st3)) = [(hdata h1, hkind h1), (hdata h3, hkind h3)]
         else register_hook nd h3 st2 = Abort Assertion"
proof -
  obtain table hooks where st: "st = (table, hooks)" by (cases st)
  have app: "find_same path (hs @ [h]) = Some (length hs)" if "uri_path (hdata h) = path" for hs h
    using that by (induction hs) auto
  from assms(1,2,7) st obtain table' where st1: "st1 = (table', hooks @ [h1])"
    by (auto simp add: register_hook_def bnd_Val_iff)
  with assms(2,3,5,8) app [OF assms(2), of hooks] have st2: "st2 = (table', hooks @ [Hook (hdata h1) (hkind h1) (Some h2)])"
    by (auto simp add: register_hook_def bnd_Val_iff chain_Val)
  let ?h = "Hook (hdata h1) (hkind h1) (Some h2)"
  have "find_same path (hooks @ [?h]) = Some (length hooks)" using assms(2) by (intro app) simp
  with st2 assms(4,6) show ?thesis
    using links_nonempty [of h3] by (simp add: register_hook_def chain_def cassert_def)
qed

definition path_hook :: "string \<Rightarrow> hook" where
  "path_hook nm = Hook \<lparr>uri_path = ''/x'', hook_name = nm, mToken = ''t'', mAllowedAddress = [], mCommand = [],
     mEnvironment = [], mTimeout = 60, mUserGroup = null_user_group\<rparr> Debug_hook None"

theorem third_hook_of_a_path_witness:
  "\<exists>st1 st2. register_hook False (path_hook ''a'') (Map.empty, []) = Val st1
     \<and> register_hook False (path_hook ''b'') st1 = Val st2
     \<and> register_hook False (path_hook ''c'') st2 = Abort Assertion"
proof -
  obtain st1 where st1: "register_hook False (path_hook ''a'') (Map.empty, []) = Val st1"
    "st1 = ([''/x'' \<mapsto> Ref_hook 0], [path_hook ''a''])"
    by (simp add: register_hook_def path_hook_def add_handler_def stored_path_def slash_def)
  obtain st2 where st2: "register_hook False (path_hook ''b'') st1 = Val st2"
    unfolding st1(2) by (simp add: register_hook_def path_hook_def chain_def)
  from third_hook_of_a_path [of "''/x''" "(Map.empty, [])" "path_hook ''a''" "path_hook ''b''" "path_hook ''c''"
      False, OF _ _ _ _ _ _ st1(1) st2]
  have "register_hook False (path_hook ''c'') st2 = Abort Assertion" by (simp add: path_hook_def)
  with st1(1) st2 show ?thesis by blast
qed

end
