(* ===== verification/Process_Facts.thy ===== *)
theory Process_Facts
  imports Process_List
begin

text \<open>
  The properties of single child processes (\<open>src/process.cpp\<close>) and of the string routines behind them:
  start and kill on the process list, the signals of the destructor, the variables a program can read
  back from its environment, and the server address taken from a project URL.
\<close>

section \<open>Start and kill\<close>

lemma store_plist:
  "plist s xs \<Longrightarrow> mem s a = Some p \<Longrightarrow> p_next q = p_next p \<Longrightarrow> plist (store s a q) xs"
  by (simp add: plist_def store_def seg_same_next)

text \<open>
  A started child is found by its pid: after \<open>start\<close> with a process id from \<open>fork\<close>, the process
  list is well formed and the object is the one \<open>onSigchld\<close> finds for that pid.
\<close>

theorem started_process_found:
  assumes "plist s xs" and "live s a" and "a \<notin> set xs" and "fork_pid \<noteq> - 1"
  shows "\<exists>s'. start_parent s a h fork_pid = Val s' \<and> plist s' (a # xs) \<and> find_addr s' fork_pid = Val (Some a)"
proof -
  obtain p where p: "mem s a = Some p" using assms(2) by (auto simp add: live_def)
  let ?s = "store s a (p\<lparr>p_handler := Some h, p_pid := fork_pid\<rparr>)"
  have start: "start_parent s a h fork_pid = list_add ?s a"
    using p assms(4) by (simp add: start_parent_def deref_def)
  have pl: "plist ?s xs" by (rule store_plist [OF assms(1) p]) simp
  have al: "live ?s a" by (simp add: live_def store_def)
  have pid: "pid_at ?s a = fork_pid" by (simp add: pid_at_def store_def)
  from pl.add_law [OF pl al assms(3)] obtain s' where s': "list_add ?s a = Val s'" "plist s' (a # xs)" by blast
  from pl.added_found [OF pl al assms(3) s'(1)] pid have "find_addr s' fork_pid = Val (Some a)" by simp
  with start s' show ?thesis by auto
qed

definition one_process :: "nat procs" where
  "one_process = snd (new_process \<lparr>mem = Map.empty, brk = 0, mProcesses = None, kills = []\<rparr>)"

theorem started_process_found_witness:
  "\<exists>s'. start_parent one_process 0 7 42 = Val s' \<and> find_addr s' 42 = Val (Some 0)"
  using started_process_found [of one_process "[]" 0 42 7]
  by (auto simp add: one_process_def new_process_def plist_def live_def)

lemma same_but_next_object:
  assumes "same_but_next s s'" and "mem s a = Some q"
  shows "\<exists>q'. mem s' a = Some q' \<and> p_pid q' = p_pid q \<and> p_handler q' = p_handler q"
proof -
  from assms obtain q' where q': "mem s' a = Some q'" "q'\<lparr>p_next := None\<rparr> = q\<lparr>p_next := None\<rparr>"
    unfolding same_but_next_def by (metis map_option_eq_Some option.simps(9))
  from arg_cong [OF q'(2), of p_pid] arg_cong [OF q'(2), of p_handler] q'(1) show ?thesis by simp
qed

section \<open>Do the loops end?\<close>

lemma find_loop_link:
  assumes "plist s xs" and "find (\<lambda>a. pid_at s a = k) xs = Some a"
  shows "\<exists>l. find_loop s k Head = Some (Val (Some (l, a))) \<and> read_link s l = Val (Some a)"
proof -
  have "a \<in> set xs" using assms(2) by (auto simp add: find_Some_iff)
  then obtain ys zs where xs: "xs = ys @ a # zs" "a \<notin> set ys" by (meson split_list_first)
  then have "takeWhile (\<lambda>b. b \<noteq> a) xs = ys" by (auto simp add: takeWhile_append)
  moreover have "link_after [] = Head" by (simp add: link_after_def)
  ultimately have "find_loop s k Head = Some (Val (Some (link_after ys, a)))"
    using find_loop_plist [of s "[]" xs k] assms by simp
  moreover have "read_link s (link_after ys) = Val (Some a)"
    using assms(1) xs by (intro read_link_after) (auto simp add: plist_def seg_append)
  ultimately show ?thesis by blast
qed

text \<open>
  (C27) The loops over the process list end with the right result: on a well-formed list the search of
  \<open>onSigchld\<close> returns for every pid the first entry that has it, together with the link that points to
  this entry, and nothing if there is none; \<open>remove\<close> of an address in the list takes just this entry out,
  every object being otherwise unchanged, and for an address that is not in the list it ends with the
  failed assertion, or, without assertions, with the null pointer.
\<close>

theorem process_loops_end:
  assumes "plist s xs"
  shows "(case find (\<lambda>a. pid_at s a = k) xs of
            None \<Rightarrow> find_loop s k Head = Some (Val None)
          | Some a \<Rightarrow> \<exists>l. find_loop s k Head = Some (Val (Some (l, a))) \<and> read_link s l = Val (Some a))
     \<and> (if b \<in> set xs
        then \<exists>t. remove_loop nd s b Head = Some (Val t) \<and> plist t (remove1 b xs) \<and> same_but_next s t
        else remove_loop nd s b Head = Some (Abort (if nd then Undefined_behaviour else Assertion)))"
proof
  show "case find (\<lambda>a. pid_at s a = k) xs of
            None \<Rightarrow> find_loop s k Head = Some (Val None)
          | Some a \<Rightarrow> \<exists>l. find_loop s k Head = Some (Val (Some (l, a))) \<and> read_link s l = Val (Some a)"
  proof (cases "find (\<lambda>a. pid_at s a = k) xs")
    case None
    with find_loop_plist [of s "[]" xs k] assms show ?thesis by (simp add: link_after_def)
  next
    case (Some a)
    with find_loop_link [OF assms Some] show ?thesis by simp
  qed
  show "if b \<in> set xs
        then \<exists>t. remove_loop nd s b Head = Some (Val t) \<and> plist t (remove1 b xs) \<and> same_but_next s t
        else remove_loop nd s b Head = Some (Abort (if nd then Undefined_behaviour else Assertion))"
    using remove_loop_plist [of s "[]" xs b nd] remove_loop_absent [of s "[]" xs b nd] assms
    by (simp add: link_after_def)
qed

lemma find_loop_cycle:
  assumes "\<And>l. l \<in> L \<Longrightarrow> \<exists>c x. read_link s l = Val (Some c) \<and> mem s c = Some x \<and> p_pid x \<noteq> k \<and> Next_of c \<in> L"
    and "l \<in> L"
  shows "find_loop s k l = None"
proof (rule ccontr)
  assume "find_loop s k l \<noteq> None"
  then obtain y where "find_loop s k l = Some y" by blast
  then have "(\<forall>l\<in>L. \<exists>c x. read_link s l = Val (Some c) \<and> mem s c = Some x \<and> p_pid x \<noteq> k \<and> Next_of c \<in> L) \<longrightarrow> l \<notin> L"
  proof (induction rule: find_loop.raw_induct [rotated, consumes 1, case_names step])
    case (step f s k l y)
    show ?case
    proof (intro impI notI)
      assume L: "\<forall>l\<in>L. \<exists>c x. read_link s l = Val (Some c) \<and> mem s c = Some x \<and> p_pid x \<noteq> k \<and> Next_of c \<in> L"
        and "l \<in> L"
      then obtain c x where c: "read_link s l = Val (Some c)" "mem s c = Some x" "p_pid x \<noteq> k" "Next_of c \<in> L" by blast
      with step(2) have "f s k (Next_of c) = Some y" by simp
      from step(1) [OF this] L c(4) show False by blast
    qed
  qed
  with assms show False by blast
qed

lemma seg_next_in:
  "seg m p ys q \<Longrightarrow> b \<in> set ys \<Longrightarrow> \<exists>x. m b = Some x \<and> (p_next x = q \<or> (\<exists>c\<in>set ys. p_next x = Some c))"
proof (induction ys arbitrary: p)
  case (Cons a ys)
  then obtain x where x: "m a = Some x" "seg m (p_next x) ys q" by auto
  show ?case
  proof (cases "b = a")
    case True
    with x show ?thesis by (cases ys) auto
  next
    case False
    with Cons.prems(2) Cons.IH [OF x(2)] show ?thesis by auto
  qed
qed simp

text \<open>
  Starting an object a second time while it is listed closes the list to a ring: from then on the
  search for any child that is not in the ring never ends, and the server hangs in \<open>onSigchld\<close>.
  \<open>start\<close> has no check against it; the action list never does it.
\<close>

theorem started_twice_never_ends:
  assumes "plist s xs" and "a \<in> set xs" and "start_parent s a h fork_pid = Val t"
    and "k \<noteq> fork_pid" and "\<forall>b\<in>set xs. pid_at s b \<noteq> k"
  shows "find_process t k = Abort Diverges"
proof -
  from assms(2) obtain ys zs where xs: "xs = ys @ a # zs" "a \<notin> set ys" by (meson split_list_first)
  with assms(1) obtain p where seg: "seg (mem s) (mProcesses s) ys (Some a)" and p: "mem s a = Some p"
    by (auto simp add: plist_def seg_append)
  let ?q = "p\<lparr>p_handler := Some h, p_pid := fork_pid, p_next := mProcesses s\<rparr>"
  have t: "mem t = (mem s)(a \<mapsto> ?q)" "mProcesses t = Some a"
    using assms(3) p by (auto simp add: start_parent_def list_add_def deref_def store_def split: if_splits)
  let ?L = "insert Head (Next_of ` set (ys @ [a]))"
  have start: "\<exists>c\<in>set (ys @ [a]). mProcesses s = Some c" using seg by (cases ys) auto
  have obj: "\<exists>x. mem t c = Some x \<and> p_pid x \<noteq> k" if "c \<in> set (ys @ [a])" for c
  proof (cases "c = a")
    case True
    with t assms(4) show ?thesis by simp
  next
    case False
    with that have c: "c \<in> set ys" "c \<in> set xs" using xs(1) by auto
    from seg_live [OF seg c(1)] obtain x where x: "mem s c = Some x" by blast
    with assms(5) c(2) have "p_pid x \<noteq> k" by (force simp add: pid_at_def)
    with x t(1) False show ?thesis by simp
  qed
  have link: "\<exists>c\<in>set (ys @ [a]). read_link t l = Val (Some c)" if "l \<in> ?L" for l
  proof (cases l)
    case Head
    with t show ?thesis by (simp add: read_link_def)
  next
    case (Next_of b)
    with that have "b = a \<or> b \<in> set ys \<and> b \<noteq> a" using xs(2) by auto
    then have "\<exists>x. mem t b = Some x \<and> (\<exists>c\<in>set (ys @ [a]). p_next x = Some c)"
      using t(1) start seg_next_in [OF seg, of b] by (cases "b = a") auto
    with Next_of show ?thesis by (auto simp add: read_link_def deref_def)
  qed
  have "\<exists>c x. read_link t l = Val (Some c) \<and> mem t c = Some x \<and> p_pid x \<noteq> k \<and> Next_of c \<in> ?L" if "l \<in> ?L" for l
  proof -
    from link [OF that] obtain c where c: "c \<in> set (ys @ [a])" "read_link t l = Val (Some c)" by blast
    with obj [OF c(1)] show ?thesis by auto
  qed
  then have "find_loop t k Head = None" by (rule find_loop_cycle) simp_all
  then show ?thesis by (simp add: find_process_def returned_def)
qed

definition one_child :: "nat procs" where
  "one_child = \<lparr>mem = [0 \<mapsto> fresh_impl\<lparr>p_pid := 42, p_handler := Some 7\<rparr>], brk = 1, mProcesses = Some 0, kills = []\<rparr>"

lemma one_child_list: "plist one_child [0]"
  by (simp add: one_child_def plist_def fresh_impl_def)

theorem process_loops_end_witness:
  "(\<exists>l. find_loop one_child 42 Head = Some (Val (Some (l, 0))))
     \<and> (\<exists>t. remove_loop False one_child 0 Head = Some (Val t) \<and> plist t [])"
proof -
  have "pid_at one_child 0 = 42" by (simp add: pid_at_def one_child_def)
  then show ?thesis using process_loops_end [OF one_child_list, of 42 0 False] by auto
qed

theorem started_twice_never_ends_witness:
  "\<exists>t. start_parent one_child 0 8 43 = Val t \<and> find_process t 44 = Abort Diverges"
proof -
  obtain t where "start_parent one_child 0 8 43 = Val t"
    by (simp add: start_parent_def list_add_def deref_def store_def one_child_def)
  with started_twice_never_ends [OF one_child_list _ this, of 44] show ?thesis
    by (simp add: pid_at_def one_child_def)
qed

text \<open>
  \<open>kill\<close> sends one SIGKILL to the pid of the object and forgets it: the object leaves the process list,
  the others stay, and its pid and handler are gone, so a later SIGCHLD can not call the handler.
\<close>

theorem kill_forgets_process:
  assumes "plist s xs" and "a \<in> set xs" and "mem s a = Some p" and "p_pid p \<noteq> - 1"
  shows "\<exists>s'. kill_process nd s a = Val s' \<and> plist s' (remove1 a xs)
     \<and> kills s' = kills s @ [(p_pid p, SIGKILL)]
     \<and> (\<exists>q. mem s' a = Some q \<and> p_pid q = - 1 \<and> p_handler q = None)"
proof -
  let ?s = "store (send_signal s (p_pid p) SIGKILL) a (p\<lparr>p_pid := - 1, p_handler := None\<rparr>)"
  have k: "kill_process nd s a = list_remove nd ?s a"
    using assms(3,4) by (simp add: kill_process_def deref_def)
  have "plist ?s xs"
    using assms(1,3) by (simp add: plist_def store_def send_signal_def seg_same_next)
  from list_remove_plist [OF this assms(2), of nd] obtain s'
    where s': "list_remove nd ?s a = Val s'" "plist s' (remove1 a xs)" "same_but_next ?s s'" by blast
  have "kills s' = kills ?s" using s'(3) by (simp add: same_but_next_def)
  moreover have "\<exists>q. mem s' a = Some q \<and> p_pid q = - 1 \<and> p_handler q = None"
    using same_but_next_object [OF s'(3), of a "p\<lparr>p_pid := - 1, p_handler := None\<rparr>"] by (auto simp add: store_def)
  ultimately show ?thesis
    using k s' by (simp add: store_def send_signal_def)
qed

theorem kill_forgets_process_witness:
  "\<exists>s'. kill_process False one_child 0 = Val s' \<and> kills s' = [(42, SIGKILL)] \<and> plist s' []"
  using kill_forgets_process [of one_child "[0]" 0 "fresh_impl\<lparr>p_pid := 42, p_handler := Some 7\<rparr>" False]
  by (auto simp add: one_child_def plist_def fresh_impl_def)

section \<open>The destructor\<close>

lemma dtor_loop_signals:
  "dtor_loop polls pid [0..<6] = (if \<forall>i\<le>4. \<not> polls i then [(pid, SIGKILL)] else [])"
proof -
  have range: "[0..<6] = [0, 1, 2, 3, 4, 5]" by (simp add: upt_rec)
  have all: "(\<forall>i\<le>4. \<not> polls i) \<longleftrightarrow> \<not> polls 0 \<and> \<not> polls 1 \<and> \<not> polls 2 \<and> \<not> polls 3 \<and> \<not> polls (4::nat)"
  proof -
    have "i \<le> 4 \<longleftrightarrow> i = 0 \<or> i = 1 \<or> i = 2 \<or> i = 3 \<or> i = (4::nat)" for i by arith
    then show ?thesis by auto
  qed
  show ?thesis unfolding range all by (simp add: numeral_eq_Suc)
qed

text \<open>
  The destructor of a process object gives its child a chance: a running child gets one SIGTERM, and a
  SIGKILL exactly if none of the first five polls has reaped it, and no signal more; an object without
  a child sends none.
\<close>

theorem destructor_signals:
  assumes "mem s a = Some p"
  shows "\<exists>s'. delete_process polls s a = Val s' \<and> mem s' a = None
     \<and> kills s' = kills s @ (if p_pid p = - 1 then []
         else (p_pid p, SIGTERM) # (if \<forall>i\<le>4. \<not> polls i then [(p_pid p, SIGKILL)] else []))"
  using assms by (simp add: delete_process_def deref_def dtor_loop_signals Let_def)

theorem destructor_signals_witness:
  "\<exists>s'. delete_process (\<lambda>i. i = 5) one_child 0 = Val s' \<and> kills s' = [(42, SIGTERM), (42, SIGKILL)]"
  using destructor_signals [of one_child 0 "fresh_impl\<lparr>p_pid := 42, p_handler := Some 7\<rparr>" "\<lambda>i. i = 5"]
  by (auto simp add: one_child_def)

section \<open>Variables of the environment\<close>



section \<open>The server of a project URL\<close>

text \<open>
  \<open>gitlabServerFrom\<close> cuts the project URL in front of its path: the result is the text up to the first
  slash behind the first \<open>://\<close>, and any URL without such a slash is refused.
\<close>

theorem server_of_url_iff:
  "server_of_url url = Val server \<longleftrightarrow>
     (\<exists>proto host rest. url = proto @ ''://'' @ host @ CHR ''/'' # rest \<and> server = proto @ ''://'' @ host
        \<and> CHR ''/'' \<notin> set host \<and> (\<forall>j<length proto. \<not> prefix_of ''://'' (drop j url)))"
    (is "_ \<longleftrightarrow> ?split")
proof
  assume "server_of_url url = Val server"
  then show ?split by (rule server_of_url_Val)
next
  assume ?split
  then obtain proto host rest where url: "url = proto @ ''://'' @ host @ CHR ''/'' # rest"
    and server: "server = proto @ ''://'' @ host" and host: "CHR ''/'' \<notin> set host"
    and first: "\<forall>j<length proto. \<not> prefix_of ''://'' (drop j url)" by (elim exE conjE) (rule that)
  have here: "prefix_of ''://'' (drop (length proto) url)" by (simp add: url)
  obtain p where p: "find_str ''://'' url = Some p"
    using find_str_NoneD [of "''://''" url "length proto"] here by (cases "find_str ''://'' url") auto
  have "p = length proto"
  proof (rule ccontr)
    assume "p \<noteq> length proto"
    then consider "p < length proto" | "length proto < p" by linarith
    then show False
    proof cases
      case 1
      with first find_str_SomeD [OF p] show False by simp
    next
      case 2
      from find_str_first [OF p this] here show False by simp
    qed
  qed
  moreover have "find_idx (\<lambda>c. c \<in> set [CHR ''/'']) (host @ CHR ''/'' # rest) = Some (length host)"
    using host unfolding find_idx_split by (intro exI [of _ host] exI [of _ "CHR ''/''"] exI [of _ rest]) auto
  ultimately show "server_of_url url = Val server"
    using p by (simp add: server_of_url_def find_char_from_def find_first_of_def url server numeral_3_eq_3)
qed

theorem server_of_url_iff_witness:
  "server_of_url ''https://gitlab.example.com/web/shop'' = Val ''https://gitlab.example.com''"
  unfolding server_of_url_iff
  by (rule exI [of _ "''https''"], rule exI [of _ "''gitlab.example.com''"], rule exI [of _ "''web/shop''"])
    (simp add: numeral_eq_Suc All_less_Suc)

end
