(* ===== verification/Server_Config.thy ===== *)
theory Server_Config
  imports Config_Item
begin

text \<open>
  The configuration and the start of the HTTP server: the setters, the option array and the listening
  timer of \<open>src/http_server.cpp\<close>, and the class \<open>http_server\<close> of \<open>src/main.cpp\<close> that calls the setters
  with the entries of the section \<open>httpd\<close>.
\<close>

section \<open>The server object\<close>

text \<open>
  The members of \<open>http::server::impl\<close> except the handlers; \<open>daemon\<close> says whether the pointer is set.
\<close>

record server =
  daemon :: bool
  localCert :: string
  privateKey :: string
  address :: "32 word option"
  port :: int
  maxConns :: int
  maxConnsPerIp :: int
  connTimeout :: int
  memLimit :: int
  contentSizeLimit :: nat

definition fresh_server :: server where
  "fresh_server = \<lparr>daemon = False, localCert = [], privateKey = [], address = None, port = 80, maxConns = 0,
     maxConnsPerIp = 0, connTimeout = 0, memLimit = 0, contentSizeLimit = 2 ^ 64 - 1\<rparr>"

definition is_running :: "server \<Rightarrow> bool" where
  [simp]: "is_running m = daemon m"

text \<open>The setters; \<open>inet_aton\<close> is a parameter, \<open>None\<close> for a text it does not accept.\<close>

definition set_ip :: "bool \<Rightarrow> (string \<Rightarrow> 32 word option) \<Rightarrow> string \<Rightarrow> server \<Rightarrow> server res" where
  "set_ip ndebug aton addr m =
     bnd (cassert ndebug (\<not> daemon m)) (\<lambda>_.
     case aton addr of
       None \<Rightarrow> Throw (Invalid_argument ''invalid HTTP server IP address'')
     | Some a \<Rightarrow> Val (m\<lparr>address := Some a\<rparr>))"

definition set_port :: "bool \<Rightarrow> int \<Rightarrow> server \<Rightarrow> server res" where
  "set_port ndebug p m = bnd (cassert ndebug (\<not> daemon m)) (\<lambda>_. Val (m\<lparr>port := p\<rparr>))"

definition set_local_cert :: "bool \<Rightarrow> string \<Rightarrow> server \<Rightarrow> server res" where
  "set_local_cert ndebug certificate m =
     bnd (cassert ndebug (certificate \<noteq> [])) (\<lambda>_. Val (m\<lparr>localCert := certificate\<rparr>))"

definition set_private_key :: "string \<Rightarrow> server \<Rightarrow> server res" where
  "set_private_key key m = Val (m\<lparr>privateKey := key\<rparr>)"

definition set_max_connections :: "bool \<Rightarrow> int \<Rightarrow> server \<Rightarrow> server res" where
  "set_max_connections ndebug number m =
     bnd (cassert ndebug (\<not> daemon m)) (\<lambda>_.
     bnd (cassert ndebug (1 \<le> number)) (\<lambda>_. Val (m\<lparr>maxConns := number\<rparr>)))"

definition set_max_connections_per_ip :: "bool \<Rightarrow> int \<Rightarrow> server \<Rightarrow> server res" where
  "set_max_connections_per_ip ndebug number m =
     bnd (cassert ndebug (\<not> daemon m)) (\<lambda>_.
     bnd (cassert ndebug (1 \<le> number)) (\<lambda>_. Val (m\<lparr>maxConnsPerIp := number\<rparr>)))"

definition intptr_max :: nat where
  "intptr_max = 2 ^ 63 - 1"

definition set_memory_limit :: "bool \<Rightarrow> nat \<Rightarrow> server \<Rightarrow> server res" where
  "set_memory_limit ndebug bytes m =
     bnd (cassert ndebug (\<not> daemon m)) (\<lambda>_.
     let bytes = (if intptr_max < bytes then intptr_max else bytes) in
     Val (m\<lparr>memLimit := int bytes\<rparr>))"

definition set_content_size_limit :: "bool \<Rightarrow> nat \<Rightarrow> server \<Rightarrow> server res" where
  "set_content_size_limit ndebug bytes m =
     bnd (cassert ndebug (\<not> daemon m)) (\<lambda>_. Val (m\<lparr>contentSizeLimit := bytes\<rparr>))"

definition set_connection_timeout :: "bool \<Rightarrow> int \<Rightarrow> server \<Rightarrow> server res" where
  "set_connection_timeout ndebug seconds m =
     bnd (cassert ndebug (\<not> daemon m)) (\<lambda>_.
     bnd (cassert ndebug (0 \<le> seconds \<and> seconds \<le> 300)) (\<lambda>_. Val (m\<lparr>connTimeout := seconds\<rparr>)))"

section \<open>The section httpd\<close>

text \<open>
  The file system as \<open>load_file\<close> uses it: whether a path is relative, the path in the directory of
  another file, and the bytes of a file (\<open>None\<close>: it cannot be opened).
\<close>

record files =
  is_relative :: "string \<Rightarrow> bool"
  beside :: "string \<Rightarrow> string \<Rightarrow> string"
  read_file :: "string \<Rightarrow> string option"

definition load_file :: "'t toml \<Rightarrow> files \<Rightarrow> 't \<Rightarrow> string res" where
  "load_file T F cfg =
     bnd (item_to_string T cfg) (\<lambda>filepath.
     let filepath = (if is_relative F filepath then beside F (tv_file_name T cfg) filepath else filepath) in
     case read_file F filepath of
       None \<Rightarrow> Throw (System_error filepath)
     | Some buffer \<Rightarrow> if buffer = [] then Throw (System_error filepath) else Val buffer)"

text \<open>A setter that is called only if the section has the entry.\<close>

definition if_entry :: "'t toml \<Rightarrow> 't \<Rightarrow> string \<Rightarrow> ('t \<Rightarrow> 'a res) \<Rightarrow> ('a \<Rightarrow> server \<Rightarrow> server res) \<Rightarrow> server \<Rightarrow> server res" where
  "if_entry T cfg key conv setter m =
     bnd (item_contains T cfg key) (\<lambda>present.
     if present then bnd (bnd (item_key T cfg key) conv) (\<lambda>x. setter x m) else Val m)"

definition http_server ::
  "bool \<Rightarrow> 't toml \<Rightarrow> files \<Rightarrow> (string \<Rightarrow> 32 word option) \<Rightarrow> 't \<Rightarrow> server res" where
  "http_server ndebug T F aton cfg =
     bnd (string_at T cfg ''ip'') (\<lambda>ip.
     bnd (set_ip ndebug aton ip fresh_server) (\<lambda>m.
     bnd (bnd (item_key T cfg ''port'') (item_to T T_uint16)) (\<lambda>p.
     bnd (set_port ndebug p m) (\<lambda>m.
     bnd (set_connection_timeout ndebug 30 m) (\<lambda>m.
     bnd (if_entry T cfg ''certificate'' (load_file T F) (set_local_cert ndebug) m) (\<lambda>m.
     bnd (if_entry T cfg ''private_key'' (load_file T F) set_private_key m) (\<lambda>m.
     bnd (if_entry T cfg ''max_connections'' (item_to T T_int) (set_max_connections ndebug) m) (\<lambda>m.
     bnd (if_entry T cfg ''max_connections_per_ip'' (item_to T T_int) (set_max_connections_per_ip ndebug) m) (\<lambda>m.
     bnd (if_entry T cfg ''memory_limit'' (\<lambda>c. item_to_int_range T c 0 (2 ^ 63 - 1))
            (\<lambda>bytes. set_memory_limit ndebug (nat bytes)) m) (\<lambda>m.
     if_entry T cfg ''content_size_limit'' (item_to T T_uint)
            (\<lambda>bytes. set_content_size_limit ndebug (nat bytes)) m))))))))))"

section \<open>start and listen\<close>

text \<open>
  \<open>server_options<8>\<close>: an array filled from the front; behind its end a store is out of bounds.
\<close>

datatype mhd_option =
    Sock_addr "32 word" int
  | Connection_limit int
  | Per_ip_connection_limit int
  | Connection_memory_limit int
  | Connection_timeout int
  | Https_mem_cert string
  | Https_mem_key string
  | Option_end

definition capacity :: nat where
  "capacity = 8"

definition option_set :: "bool \<Rightarrow> mhd_option \<Rightarrow> mhd_option list \<Rightarrow> mhd_option list res" where
  "option_set ndebug opt data =
     bnd (cassert ndebug (length data < capacity)) (\<lambda>_.
     if length data < capacity then Val (data @ [opt]) else Abort Undefined_behaviour)"

definition option_if :: "bool \<Rightarrow> bool \<Rightarrow> mhd_option \<Rightarrow> mhd_option list \<Rightarrow> mhd_option list res" where
  "option_if ndebug c opt data = (if c then option_set ndebug opt data else Val data)"

definition server_options :: "bool \<Rightarrow> server \<Rightarrow> mhd_option list res" where
  "server_options ndebug m =
     bnd (case address m of None \<Rightarrow> Val [] | Some a \<Rightarrow> option_set ndebug (Sock_addr a (port m)) []) (\<lambda>data.
     bnd (option_if ndebug (maxConns m \<noteq> 0) (Connection_limit (maxConns m)) data) (\<lambda>data.
     bnd (option_if ndebug (maxConnsPerIp m \<noteq> 0) (Per_ip_connection_limit (maxConnsPerIp m)) data) (\<lambda>data.
     bnd (option_if ndebug (memLimit m \<noteq> 0) (Connection_memory_limit (memLimit m)) data) (\<lambda>data.
     bnd (option_if ndebug (connTimeout m \<noteq> 0) (Connection_timeout (connTimeout m)) data) (\<lambda>data.
     bnd (option_if ndebug (localCert m \<noteq> []) (Https_mem_cert (localCert m)) data) (\<lambda>data.
     bnd (option_if ndebug (privateKey m \<noteq> []) (Https_mem_key (privateKey m)) data) (\<lambda>data.
     option_set ndebug Option_end data)))))))"

text \<open>
  \<open>start\<close>: \<open>mhd_start\<close> says whether \<open>MHD_start_daemon\<close> succeeds for the TLS flag, the port and the
  options, \<open>epoll\<close> whether the daemon has an epoll descriptor.
\<close>

definition start_server ::
  "bool \<Rightarrow> (bool \<Rightarrow> int \<Rightarrow> mhd_option list \<Rightarrow> bool) \<Rightarrow> bool \<Rightarrow> server \<Rightarrow> server res" where
  "start_server ndebug mhd_start epoll m =
     bnd (cassert ndebug (\<not> daemon m)) (\<lambda>_.
     bnd (server_options ndebug m) (\<lambda>options.
     if \<not> mhd_start (localCert m \<noteq> []) (port m) options
     then Throw (Runtime_error ''failed to start HTTP server'')
     else if \<not> epoll then Throw (Runtime_error ''HTTP server library does not support epoll'')
     else Val (m\<lparr>daemon := True\<rparr>)))"

definition stop_server :: "server \<Rightarrow> server" where
  "stop_server m = (if daemon m then m\<lparr>daemon := False\<rparr> else m)"

definition destroy_server :: "server \<Rightarrow> server" where
  "destroy_server m = stop_server m"

lemma running_until_stopped:
  "start_server ndebug mhd_start epoll m = Val m' \<Longrightarrow> is_running m'" "\<not> is_running (destroy_server m)"
  by (auto simp add: start_server_def stop_server_def destroy_server_def bnd_Val_iff split: if_splits)

text \<open>\<open>listen\<close>: the timeout in milliseconds the library asks for (\<open>None\<close>: no timeout) as a \<open>timeval\<close>.\<close>

record timeval =
  tv_sec :: int
  tv_usec :: int

definition listen_timeout :: "64 word option \<Rightarrow> timeval" where
  "listen_timeout answer =
     (let msecs = (case answer of None \<Rightarrow> 1000 | Some t \<Rightarrow> t);
          sec = msecs div 1000
      in \<lparr>tv_sec = sint sec, tv_usec = sint ((msecs - sec * 1000) * 1000)\<rparr>)"

section \<open>Properties\<close>

lemma option_set_fits: "length data < 8 \<Longrightarrow> option_set nd opt data = Val (data @ [opt])"
  by (simp add: option_set_def capacity_def)

lemma option_if_fits:
  "length data < 8 \<Longrightarrow> \<exists>data'. option_if nd c opt data = Val data' \<and> length data' \<le> Suc (length data)"
  by (auto simp add: option_if_def option_set_fits)

lemma server_options_Val:
  "\<exists>data. server_options nd m = Val data \<and> length data \<le> capacity \<and> last data = Option_end"
proof -
  obtain d1 where d1: "(case address m of None \<Rightarrow> Val [] | Some a \<Rightarrow> option_set nd (Sock_addr a (port m)) []) = Val d1"
    "length d1 \<le> 1" by (cases "address m") (auto simp add: option_set_fits)
  obtain d2 where d2: "option_if nd (maxConns m \<noteq> 0) (Connection_limit (maxConns m)) d1 = Val d2" "length d2 \<le> 2"
    using option_if_fits [of d1] d1(2) by fastforce
  obtain d3 where d3: "option_if nd (maxConnsPerIp m \<noteq> 0) (Per_ip_connection_limit (maxConnsPerIp m)) d2 = Val d3"
    "length d3 \<le> 3" using option_if_fits [of d2] d2(2) by fastforce
  obtain d4 where d4: "option_if nd (memLimit m \<noteq> 0) (Connection_memory_limit (memLimit m)) d3 = Val d4" "length d4 \<le> 4"
    using option_if_fits [of d3] d3(2) by fastforce
  obtain d5 where d5: "option_if nd (connTimeout m \<noteq> 0) (Connection_timeout (connTimeout m)) d4 = Val d5" "length d5 \<le> 5"
    using option_if_fits [of d4] d4(2) by fastforce
  obtain d6 where d6: "option_if nd (localCert m \<noteq> []) (Https_mem_cert (localCert m)) d5 = Val d6" "length d6 \<le> 6"
    using option_if_fits [of d5] d5(2) by fastforce
  obtain d7 where d7: "option_if nd (privateKey m \<noteq> []) (Https_mem_key (privateKey m)) d6 = Val d7" "length d7 \<le> 7"
    using option_if_fits [of d6] d6(2) by fastforce
  show ?thesis
    using d1 d2 d3 d4 d5 d6 d7 by (simp add: server_options_def option_set_fits capacity_def)
qed

text \<open>
  (C39) The option array is large enough: for every configuration the options and the end marker fit into
  its eight elements, so no assertion fails and nothing is stored out of bounds, and the marker is
  the last element.
\<close>

theorem server_options_fit:
  "\<exists>data. server_options nd m = Val data \<and> length data \<le> capacity \<and> last data = Option_end"
  by (rule server_options_Val)

text \<open>
  The listening timer waits exactly as long as the library asks for, one second if it asks for nothing,
  and is a proper \<open>timeval\<close> with less than a million microseconds.
\<close>

theorem listen_timeout_exact:
  "tv_sec (listen_timeout answer) * 1000000 + tv_usec (listen_timeout answer)
     = 1000 * uint (case answer of None \<Rightarrow> 1000 | Some t \<Rightarrow> t)
   \<and> 0 \<le> tv_usec (listen_timeout answer) \<and> tv_usec (listen_timeout answer) < 1000000"
proof -
  define m where "m = (case answer of None \<Rightarrow> 1000 | Some t \<Rightarrow> t)"
  have u: "uint m < 2 ^ 64" using uint_lt2p [of m] by simp
  have sec: "uint (m div 1000) = uint m div 1000" by (simp add: uint_div)
  have rest: "m - m div 1000 * 1000 = m mod 1000" by (simp add: minus_div_mult_eq_mod)
  have r: "uint (m mod 1000) = uint m mod 1000" by (simp add: uint_mod)
  have rb: "uint m mod 1000 < 1000" by simp
  have usec: "uint ((m mod 1000) * 1000) = uint m mod 1000 * 1000"
    using rb by (simp add: r uint_word_ariths(3))
  have s1: "sint (m div 1000) = uint m div 1000"
    using u sec by (simp add: small_sint)
  have s2: "sint ((m mod 1000) * 1000) = uint m mod 1000 * 1000"
    using rb usec by (simp add: small_sint)
  have "listen_timeout answer = \<lparr>tv_sec = uint m div 1000, tv_usec = uint m mod 1000 * 1000\<rparr>"
    by (simp only: listen_timeout_def m_def [symmetric] Let_def rest s1 s2)
  moreover have "uint m div 1000 * 1000000 + uint m mod 1000 * 1000 = 1000 * uint m" by presburger
  ultimately show ?thesis
    using rb by (simp add: m_def [symmetric])
qed

text \<open>
  A configured limit of connections below one is not refused with an error but ends a build with
  assertions: \<open>to<int>()\<close> accepts any \<open>int\<close>, and the setter asserts that the number is at least one.
\<close>

theorem bad_connection_limit_aborts:
  assumes "item_key T cfg ''max_connections'' = Val c" and "tv_integer T c = Inr n" and "- (2 ^ 31) \<le> n"
    and "n < 1" and "\<not> daemon m"
  shows "if_entry T cfg ''max_connections'' (item_to T T_int) (set_max_connections False) m = Abort Assertion"
  using assms item_key_contains [OF assms(1)]
  by (simp add: if_entry_def item_to_def item_to_int_range_def set_max_connections_def cassert_def)

theorem bad_connection_limit_aborts_witness:
  "if_entry tree_toml (T_table [(''max_connections'', T_integer 0)]) ''max_connections'' (item_to tree_toml T_int)
     (set_max_connections False) fresh_server = Abort Assertion"
  by (rule bad_connection_limit_aborts [where c = "T_integer 0" and n = 0])
    (simp_all add: item_key_def tree_toml_def fresh_server_def)

end
