(* ===== verification/Log_Watchdog.thy ===== *)
theory Log_Watchdog
  imports Server_Config
begin

text \<open>
  Logging (\<open>src/log.h\<close>, \<open>src/log.cpp\<close>) with the options of the command line that control it
  (\<open>src/main.cpp\<close>), and the watchdog timer (\<open>src/watchdog.cpp\<close>).
\<close>

section \<open>Log messages\<close>

datatype log_severity = Sev_fatal | Sev_error | Sev_warning | Sev_info | Sev_debug

text \<open>The values of the enumerators, by which the severities are compared.\<close>

fun severity_value :: "log_severity \<Rightarrow> nat" where
  "severity_value Sev_fatal = 1"
| "severity_value Sev_error = 2"
| "severity_value Sev_warning = 3"
| "severity_value Sev_info = 4"
| "severity_value Sev_debug = 5"

text \<open>The order of the enumerators, for the comparison in \<open>write_log_message\<close>.\<close>

lemma severity_value_inj: "severity_value a = severity_value b \<Longrightarrow> a = b"
  by (cases a; cases b) simp_all

instantiation log_severity :: linorder
begin

definition less_eq_log_severity :: "log_severity \<Rightarrow> log_severity \<Rightarrow> bool" where
  "less_eq_log_severity a b \<longleftrightarrow> severity_value a \<le> severity_value b"

definition less_log_severity :: "log_severity \<Rightarrow> log_severity \<Rightarrow> bool" where
  "less_log_severity a b \<longleftrightarrow> severity_value a < severity_value b"

instance
  by standard (auto simp add: less_eq_log_severity_def less_log_severity_def dest: severity_value_inj)

end

record log_state =
  log_level :: log_severity
  log_systemd :: bool

definition initial_log :: log_state where
  "initial_log = \<lparr>log_level = Sev_warning, log_systemd = False\<rparr>"

definition set_log_level :: "log_severity \<Rightarrow> log_state \<Rightarrow> log_state" where
  "set_log_level severity s = s\<lparr>log_level := severity\<rparr>"

definition set_log_systemd :: "bool \<Rightarrow> log_state \<Rightarrow> log_state" where
  "set_log_systemd enabled s = s\<lparr>log_systemd := enabled\<rparr>"

text \<open>The texts of \<open>SD_CRIT\<close>, \<open>SD_ERR\<close>, \<open>SD_WARNING\<close>, \<open>SD_NOTICE\<close> and \<open>SD_DEBUG\<close> are a parameter.\<close>

definition message_front :: "(log_severity \<Rightarrow> string) \<Rightarrow> log_state \<Rightarrow> log_severity \<Rightarrow> string" where
  "message_front sd s severity =
     (if log_systemd s then sd severity else [])
     @ (case severity of
          Sev_fatal \<Rightarrow> ''fatal error: ''
        | Sev_error \<Rightarrow> ''error: ''
        | Sev_warning \<Rightarrow> ''warning: ''
        | Sev_info \<Rightarrow> []
        | Sev_debug \<Rightarrow> [])"

text \<open>
  \<open>write_log_message\<close>: \<open>text\<close> is the formatted message, of which \<open>vsnprintf\<close> keeps what fits into the buffer
  of 1024 bytes in front of the final NUL. The result is what is written to \<open>stderr\<close>.
\<close>

definition write_log_message ::
  "(log_severity \<Rightarrow> string) \<Rightarrow> log_state \<Rightarrow> log_severity \<Rightarrow> string \<Rightarrow> string" where
  "write_log_message sd s severity text =
     (if log_level s < severity then []
      else message_front sd s severity @ take 1023 text @ [CHR 0x0A])"

text \<open>The functions for the severities, and \<open>log_fatal\<close>, which also exits.\<close>

definition log_error :: "(log_severity \<Rightarrow> string) \<Rightarrow> log_state \<Rightarrow> string \<Rightarrow> string" where
  "log_error sd s text = write_log_message sd s Sev_error text"

definition log_warning :: "(log_severity \<Rightarrow> string) \<Rightarrow> log_state \<Rightarrow> string \<Rightarrow> string" where
  "log_warning sd s text = write_log_message sd s Sev_warning text"

definition log_info :: "(log_severity \<Rightarrow> string) \<Rightarrow> log_state \<Rightarrow> string \<Rightarrow> string" where
  "log_info sd s text = write_log_message sd s Sev_info text"

definition log_debug :: "(log_severity \<Rightarrow> string) \<Rightarrow> log_state \<Rightarrow> string \<Rightarrow> string" where
  "log_debug sd s text = write_log_message sd s Sev_debug text"

definition log_fatal :: "(log_severity \<Rightarrow> string) \<Rightarrow> log_state \<Rightarrow> string \<Rightarrow> unit res \<times> string" where
  "log_fatal sd s text = (Abort (Exit_process (- 1)), write_log_message sd s Sev_fatal text)"

section \<open>The command line\<close>

text \<open>The options as \<open>boost::program_options\<close> delivers them; \<open>--verbose\<close> without a value is 0.\<close>

record options =
  opt_help :: bool
  opt_version :: bool
  opt_systemd :: bool
  opt_verbose :: "int option"
  opt_config :: string

definition command_line :: "options \<Rightarrow> log_state \<Rightarrow> (string \<times> log_severity) res \<times> log_state" where
  "command_line vm s =
     (let verbosity = (case opt_verbose vm of None \<Rightarrow> - 1 | Some n \<Rightarrow> n) in
      if opt_help vm then (Abort (Exit_process 0), s)
      else if opt_version vm then (Abort (Exit_process 0), s)
      else (Val (opt_config vm,
                 if verbosity < 0 then Sev_warning else if verbosity = 0 then Sev_info else Sev_debug),
            if opt_systemd vm then set_log_systemd True s else s))"

text \<open>The first two statements of \<open>main\<close>.\<close>

definition start_logging :: "options \<Rightarrow> string res \<times> log_state" where
  "start_logging vm =
     then_do (command_line vm initial_log) (\<lambda>(config, level) s. (Val config, set_log_level level s))"

text \<open>
  The verbosity decides which messages are written: warnings and worse always, informational messages
  exactly with \<open>--verbose\<close>, debug messages exactly with a verbosity above zero; a message that is
  written is one line with at most 1023 bytes of its text.
\<close>

theorem verbosity_selects_messages:
  assumes "start_logging vm = (Val config, s)"
  shows "((write_log_message sd s severity text \<noteq> []) \<longleftrightarrow>
       (case severity of
          Sev_info \<Rightarrow> (\<exists>n. opt_verbose vm = Some n \<and> 0 \<le> n)
        | Sev_debug \<Rightarrow> (\<exists>n. opt_verbose vm = Some n \<and> 0 < n)
        | _ \<Rightarrow> True))
     \<and> length (write_log_message sd s severity text) \<le> length (message_front sd s severity) + 1024"
proof -
  have level: "log_level s = (case opt_verbose vm of None \<Rightarrow> Sev_warning
      | Some n \<Rightarrow> if n < 0 then Sev_warning else if n = 0 then Sev_info else Sev_debug)"
    using assms
    by (auto simp add: start_logging_def command_line_def Let_def set_log_level_def initial_log_def
        set_log_systemd_def split: option.splits if_splits)
  then show ?thesis
    unfolding write_log_message_def
    by (cases severity; cases "opt_verbose vm") (auto simp add: less_log_severity_def)
qed

definition quiet_options :: options where
  "quiet_options = \<lparr>opt_help = False, opt_version = False, opt_systemd = True, opt_verbose = None,
     opt_config = ''config.ini''\<rparr>"

theorem verbosity_selects_messages_witness:
  "\<exists>config s. start_logging quiet_options = (Val config, s)
     \<and> write_log_message (\<lambda>_. ''<6>'') s Sev_info ''started gitlab-hook'' = []"
proof -
  obtain config s where s: "start_logging quiet_options = (Val config, s)"
    by (simp add: start_logging_def command_line_def quiet_options_def Let_def)
  from verbosity_selects_messages [OF s, of "\<lambda>_. ''<6>''" Sev_info "''started gitlab-hook''"] s show ?thesis
    by (auto simp add: quiet_options_def)
qed

section \<open>The watchdog\<close>

text \<open>
  The constructor computes the \<open>timeval\<close> of its timer from the interval in microseconds that
  \<open>sd_watchdog_enabled\<close> reports. The conversion to \<open>long\<close> keeps the 64 bits.
\<close>

definition watchdog_timeout :: "64 word \<Rightarrow> timeval" where
  "watchdog_timeout usec =
     (let sec = sint (usec mod 1000000)
      in \<lparr>tv_sec = sec, tv_usec = sint (usec - word_of_int sec * 1000000)\<rparr>)"

text \<open>
  (C40) The watchdog's timer is wrong for every interval of whole seconds, such as the five seconds of the
  service file: the seconds are computed with a remainder instead of a division, so there are none,
  and all microseconds end up in a field that must hold less than a million.
\<close>

theorem watchdog_timeout_not_normalised:
  assumes "1 \<le> n" and "n * 1000000 < 2 ^ 63"
  shows "tv_sec (watchdog_timeout (word_of_nat (n * 1000000))) = 0
     \<and> tv_usec (watchdog_timeout (word_of_nat (n * 1000000))) = int n * 1000000
     \<and> 1000000 \<le> tv_usec (watchdog_timeout (word_of_nat (n * 1000000)))"
proof -
  let ?w = "word_of_nat (n * 1000000) :: 64 word"
  have u: "uint ?w = int (n * 1000000)"
  proof -
    have "n * 1000000 < 2 ^ LENGTH(64)" by (rule order_less_trans [OF assms(2)]) simp
    then have "unat ?w = n * 1000000" by (simp only: unat_of_nat mod_less)
    then show ?thesis by (simp only: uint_nat)
  qed
  have "uint (?w mod 1000000) = 0" using u by (simp add: uint_mod)
  then have z: "?w mod 1000000 = 0" by (simp add: word_uint_eq_iff)
  have "sint ?w = int (n * 1000000)" using u assms(2) by (simp add: small_sint)
  with z assms(1) show ?thesis by (simp add: watchdog_timeout_def)
qed

theorem watchdog_timeout_not_normalised_witness:
  "tv_sec (watchdog_timeout 5000000) = 0 \<and> tv_usec (watchdog_timeout 5000000) = 5000000"
  using watchdog_timeout_not_normalised [of 5] by simp

text \<open>
  The object: its timer, if one is pending. \<open>evtimer_new\<close> makes an event without \<open>EV_PERSIST\<close>, which
  libevent removes before it calls the callback; \<open>enabled\<close> is the interval if \<open>sd_watchdog_enabled\<close>
  returns a positive number. The callback sends a text to systemd.
\<close>

definition new_watchdog :: "64 word option \<Rightarrow> timeval option" where
  "new_watchdog enabled = (case enabled of None \<Rightarrow> None | Some usec \<Rightarrow> Some (watchdog_timeout usec))"

definition watchdogCb :: "bool \<Rightarrow> string list" where
  "watchdogCb what = (if what then [''WATCHDOG=1'' @ [CHR 0x0A]] else [])"

fun watchdog_expires :: "timeval option \<Rightarrow> string list \<times> timeval option" where
  "watchdog_expires None = ([], None)"
| "watchdog_expires (Some tm) = (watchdogCb True, None)"

text \<open>What systemd has been sent after the time of the interval has passed \<open>n\<close> times.\<close>

fun watchdog_notifications :: "nat \<Rightarrow> timeval option \<Rightarrow> string list" where
  "watchdog_notifications 0 w = []"
| "watchdog_notifications (Suc n) w =
     (case watchdog_expires w of (sent, w') \<Rightarrow> sent @ watchdog_notifications n w')"

text \<open>
  The watchdog notifies systemd once and never again, however long the server runs; systemd expects it
  in every interval and kills the service when it does not come.
\<close>

theorem watchdog_notifies_once:
  "length (watchdog_notifications n (new_watchdog enabled)) = (if enabled = None \<or> n = 0 then 0 else 1)"
proof -
  have none: "watchdog_notifications k None = []" for k by (induction k) simp_all
  then show ?thesis by (cases n) (auto simp add: new_watchdog_def watchdogCb_def split: option.split)
qed

end
