(* ===== verification/Io_Events.thy ===== *)
theory Io_Events
  imports GH_Prelude
begin

text \<open>
  The event loop \<open>io_context\<close> (\<open>src/io_context.cpp\<close>) and the \<open>signal_listener\<close>
  (\<open>src/signal_listener.cpp\<close>). Libevent calls one callback after the other; which ones, and in which
  order, is the list of events given to the loop. \<open>stop\<close> makes the loop return after the callback that
  is running.
\<close>

section \<open>The event loop\<close>

text \<open>The only state of the context that the program acts on: whether \<open>event_base_loopbreak\<close> was called.\<close>

record io_context =
  loop_break :: bool

definition new_io_context :: io_context where
  "new_io_context = \<lparr>loop_break = False\<rparr>"

definition io_stop :: "io_context \<Rightarrow> io_context" where
  "io_stop io = io\<lparr>loop_break := True\<rparr>"

text \<open>
  \<open>event_base_loop\<close>: the callbacks of the events in order, until one of them has called \<open>stop\<close>. The
  result says whether the loop was left; otherwise it waits for the next event. \<open>get\<close> and \<open>put\<close> select
  the context in the state of the program.
\<close>

fun event_loop :: "('s \<Rightarrow> io_context) \<Rightarrow> ('e \<Rightarrow> 's \<Rightarrow> 's res) \<Rightarrow> 'e list \<Rightarrow> 's \<Rightarrow> (bool \<times> 's) res" where
  "event_loop get callback [] s = Val (False, s)"
| "event_loop get callback (e # es) s =
     bnd (callback e s) (\<lambda>s.
     if loop_break (get s) then Val (True, s) else event_loop get callback es s)"

text \<open>\<open>run\<close>: libevent forgets an earlier \<open>event_base_loopbreak\<close> when the loop is entered.\<close>

definition io_run ::
  "('s \<Rightarrow> io_context) \<Rightarrow> (io_context \<Rightarrow> 's \<Rightarrow> 's) \<Rightarrow> ('e \<Rightarrow> 's \<Rightarrow> 's res) \<Rightarrow> 'e list \<Rightarrow> 's \<Rightarrow> (bool \<times> 's) res" where
  "io_run get put callback es s =
     event_loop get callback es (put ((get s)\<lparr>loop_break := False\<rparr>) s)"

lemma event_loop_append:
  "event_loop get cb (es @ fs) s =
     bnd (event_loop get cb es s) (\<lambda>(left, t). if left then Val (True, t) else event_loop get cb fs t)"
proof (induction es arbitrary: s)
  case (Cons e es)
  then show ?case by (cases "cb e s") simp_all
qed simp

text \<open>What every callback preserves holds when the loop is left, or waits.\<close>

lemma event_loop_inv:
  assumes "event_loop get cb es s = Val (left, t)" and "I s"
    and "\<And>e s t. e \<in> set es \<Longrightarrow> I s \<Longrightarrow> cb e s = Val t \<Longrightarrow> I t"
  shows "I t"
  using assms
proof (induction es arbitrary: s)
  case (Cons e es)
  from Cons.prems(1) obtain u where u: "cb e s = Val u"
    and rest: "if loop_break (get u) then (left, t) = (True, u) else event_loop get cb es u = Val (left, t)"
    by (auto simp add: bnd_Val_iff split: if_splits)
  have "I u" using Cons.prems(2,3) u by auto
  with rest Cons.IH [of u] Cons.prems(3) show ?case by (auto split: if_splits)
qed simp

lemma event_loop_left: "event_loop get cb es s = Val (left, t) \<Longrightarrow> left \<Longrightarrow> loop_break (get t)"
  by (induction es arbitrary: s) (auto simp add: bnd_Val_iff split: if_splits)

lemma event_loop_waits:
  "event_loop get cb es s = Val (False, t) \<Longrightarrow> \<not> loop_break (get s) \<Longrightarrow> \<not> loop_break (get t)"
  by (induction es arbitrary: s) (auto simp add: bnd_Val_iff split: if_splits)

section \<open>Signals\<close>

text \<open>
  \<open>signal_listener::impl\<close>: the keys of the map \<open>sigs\<close>, each with its persistent event, and the handler,
  which is empty at first.
\<close>

record 'k signal_listener =
  sigs :: "int set"
  sig_handler :: "'k option"

definition new_signal_listener :: "'k signal_listener" where
  "new_signal_listener = \<lparr>sigs = {}, sig_handler = None\<rparr>"

text \<open>
  \<open>add\<close>: with a number that is already registered, \<open>try_emplace\<close> does nothing, the event made for it is
  freed, and \<open>event_add\<close> is called with the freed event.
\<close>

fun listener_add :: "bool \<Rightarrow> int list \<Rightarrow> 'k signal_listener \<Rightarrow> 'k signal_listener res" where
  "listener_add ndebug [] l = Val l"
| "listener_add ndebug (number # numbers) l =
     bnd (cassert ndebug (number \<notin> sigs l)) (\<lambda>_.
     if number \<in> sigs l then Abort Undefined_behaviour
     else listener_add ndebug numbers (l\<lparr>sigs := insert number (sigs l)\<rparr>))"

definition listener_wait :: "'k \<Rightarrow> 'k signal_listener \<Rightarrow> 'k signal_listener" where
  "listener_wait handler l = l\<lparr>sig_handler := Some handler\<rparr>"

text \<open>The callback; \<open>what\<close> says whether the event is a signal, \<open>run\<close> executes a handler.\<close>

definition listener_callback ::
  "('k \<Rightarrow> int \<Rightarrow> 's \<Rightarrow> 's) \<Rightarrow> 'k signal_listener \<Rightarrow> int \<Rightarrow> bool \<Rightarrow> 's \<Rightarrow> 's" where
  "listener_callback run l fd what s =
     (if what then (case sig_handler l of Some handler \<Rightarrow> run handler fd s | None \<Rightarrow> s) else s)"

lemma listener_add_fresh:
  "distinct numbers \<Longrightarrow> set numbers \<inter> sigs l = {} \<Longrightarrow>
     listener_add nd numbers l = Val (l\<lparr>sigs := set numbers \<union> sigs l\<rparr>)"
proof (induction numbers arbitrary: l)
  case (Cons n ns)
  then show ?case by (simp add: insert_commute Un_commute)
qed simp

lemma listener_add_twice:
  "number \<in> sigs l \<Longrightarrow>
     listener_add nd (number # numbers) l = Abort (if nd then Undefined_behaviour else Assertion)"
  by (simp add: cassert_def)

end
