(* ===== verification/Server_Machine.thy ===== *)
theory Server_Machine
  imports Http_Facts Action_Queue Io_Events Server_Config
begin

text \<open>
  The running server: all connections, the hooks, the action list and the signals under one event
  loop. A connection has a slot with the request object and the responses queued on it. The callbacks
  of the HTTP library for different connections (\<open>eventCb\<close> of \<open>src/http_server.cpp\<close> lets it make them)
  and the callbacks of the action list may come in any order; within one request they follow the
  protocol of the library.
\<close>

section \<open>State\<close>

text \<open>
  What the library knows of a connection: no request, a request whose body is being received, or a
  request it will make no more calls for until it is completed.
\<close>

datatype 'c phase =
    Idle
  | Receiving (target_conn: 'c) (target_path: string) (target_method: string)
  | Concluded (target_conn: 'c) (target_path: string) (target_method: string)

record 'c slot =
  sl_phase :: "'c phase"
  sl_request :: "'c hook_request option"
  sl_responses :: "(http_code \<times> string) list"

definition free_slot :: "'c slot" where
  "free_slot = \<lparr>sl_phase = Idle, sl_request = None, sl_responses = []\<rparr>"

lemma free_slot_simps [simp]: "sl_phase free_slot = Idle" "sl_request free_slot = None" "sl_responses free_slot = []"
  by (simp_all add: free_slot_def)

text \<open>The two handlers \<open>main\<close> passes to its signal listeners.\<close>

datatype main_handler = Quit_application | Reload_application

text \<open>
  The program while the loop runs: the connections, the counters and the scheduler (\<open>world\<close>), the
  unreaped children, the event base, the variable \<open>restart\<close> of \<open>main\<close>, its two listeners.
\<close>

record 'c server_state =
  sv_slots :: "nat \<Rightarrow> 'c slot"
  sv_world :: world
  sv_kids :: "int set"
  sv_io :: io_context
  sv_restart :: bool
  sv_listeners :: "main_handler signal_listener list"

text \<open>What does not change while the loop runs.\<close>

record ('c, 'j) deployment =
  d_ndebug :: bool
  d_libs :: "('c, 'j) services"
  d_time_text :: "int \<Rightarrow> string"
  d_version :: string
  d_handlers :: "string \<rightharpoonup> handler"
  d_limit :: nat

section \<open>Events\<close>

datatype 'c server_event =
    Request_first nat 'c string string
  | Request_piece nat string
  | Request_last nat
  | Request_completed nat
  | Action_event "callable event"
  | Signal_event int

text \<open>The events of the action list that come from libevent, not from the hooks.\<close>

fun from_libevent :: "'f event \<Rightarrow> bool" where
  "from_libevent (Ev_command name program args env user timeout) = False"
| "from_libevent (Ev_function name f) = False"
| "from_libevent e = True"

definition actions_of :: "'c server_state \<Rightarrow> callable loop_state" where
  "actions_of s = \<lparr>acts = scheduler (sv_world s), kids = sv_kids s\<rparr>"

fun server_enabled :: "'c server_event \<Rightarrow> 'c server_state \<Rightarrow> bool" where
  "server_enabled (Request_first i c path meth) s = (sl_phase (sv_slots s i) = Idle)"
| "server_enabled (Request_piece i p) s =
     (p \<noteq> [] \<and> (case sl_phase (sv_slots s i) of Receiving c path meth \<Rightarrow> True | _ \<Rightarrow> False))"
| "server_enabled (Request_last i) s =
     (case sl_phase (sv_slots s i) of Receiving c path meth \<Rightarrow> True | _ \<Rightarrow> False)"
| "server_enabled (Request_completed i) s = (sl_phase (sv_slots s i) \<noteq> Idle)"
| "server_enabled (Action_event e) s = (from_libevent e \<and> enabled e (actions_of s))"
| "server_enabled (Signal_event n) s = (\<exists>l\<in>set (sv_listeners s). n \<in> sigs l)"

section \<open>Callbacks\<close>

text \<open>The access handler on a slot: the slot's view of one call, and the call in the program.\<close>

definition slot_call ::
  "('c, 'j) deployment \<Rightarrow> 'c \<Rightarrow> string \<Rightarrow> string \<Rightarrow> string \<Rightarrow> 'c slot \<Rightarrow> world
     \<Rightarrow> bool res \<times> ('c, continuation, world) connection" where
  "slot_call D c path meth upload sl w =
     answerCb (d_ndebug D) (mhd (d_libs D))
       (run_handler (d_ndebug D) (d_libs D) (d_time_text D) (d_version D))
       (hook_continue (d_ndebug D) (d_libs D)) (d_handlers D) (d_limit D) c path meth upload
       \<lparr>connCls = sl_request sl, queued_responses = sl_responses sl, world = w\<rparr>"

text \<open>
  After a call the library goes on with the body if the answer was yes, no response is queued, and the
  body has not ended; otherwise it finishes the request or closes the connection.
\<close>

definition slot_after :: "'c \<Rightarrow> string \<Rightarrow> string \<Rightarrow> bool \<Rightarrow> bool \<Rightarrow> ('c, continuation, world) connection \<Rightarrow> 'c slot" where
  "slot_after c path meth final ok k =
     \<lparr>sl_phase = (if ok \<and> queued_responses k = [] \<and> \<not> final then Receiving c path meth else Concluded c path meth),
      sl_request = connCls k, sl_responses = queued_responses k\<rparr>"

definition server_call ::
  "('c, 'j) deployment \<Rightarrow> nat \<Rightarrow> 'c \<Rightarrow> string \<Rightarrow> string \<Rightarrow> string \<Rightarrow> bool \<Rightarrow> 'c server_state \<Rightarrow> 'c server_state res" where
  "server_call D i c path meth upload final s =
     (case slot_call D c path meth upload (sv_slots s i) (sv_world s) of
        (Val ok, k) \<Rightarrow>
          Val (s\<lparr>sv_slots := (sv_slots s)(i := slot_after c path meth final ok k), sv_world := world k\<rparr>)
      | (Throw e, k) \<Rightarrow> Throw e
      | (Abort f, k) \<Rightarrow> Abort f)"

text \<open>The lambdas given to \<open>wait\<close>.\<close>

fun main_signal :: "main_handler \<Rightarrow> int \<Rightarrow> 'c server_state \<Rightarrow> 'c server_state" where
  "main_signal Quit_application sig s = s\<lparr>sv_io := io_stop (sv_io s)\<rparr>"
| "main_signal Reload_application sig s = s\<lparr>sv_restart := True, sv_io := io_stop (sv_io s)\<rparr>"

definition deliver_signal :: "int \<Rightarrow> 'c server_state \<Rightarrow> 'c server_state" where
  "deliver_signal n s =
     fold (\<lambda>l. if n \<in> sigs l then listener_callback main_signal l n True else id) (sv_listeners s) s"

definition action_callback :: "('c, 'j) deployment \<Rightarrow> callable event \<Rightarrow> 'c server_state \<Rightarrow> 'c server_state res" where
  "action_callback D e s =
     bnd (run_event (d_ndebug D) e (scheduler (sv_world s))) (\<lambda>a.
     Val (s\<lparr>sv_world := (sv_world s)\<lparr>scheduler := a\<rparr>, sv_kids := kids_after e (actions_of s)\<rparr>))"

fun server_callback :: "('c, 'j) deployment \<Rightarrow> 'c server_event \<Rightarrow> 'c server_state \<Rightarrow> 'c server_state res" where
  "server_callback D (Request_first i c path meth) s = server_call D i c path meth [] False s"
| "server_callback D (Request_piece i p) s =
     (case sl_phase (sv_slots s i) of
        Receiving c path meth \<Rightarrow> server_call D i c path meth p False s
      | _ \<Rightarrow> Val s)"
| "server_callback D (Request_last i) s =
     (case sl_phase (sv_slots s i) of
        Receiving c path meth \<Rightarrow> server_call D i c path meth [] True s
      | _ \<Rightarrow> Val s)"
| "server_callback D (Request_completed i) s =
     Val (s\<lparr>sv_slots := (sv_slots s)(i :=
        \<lparr>sl_phase = Idle,
         sl_request = connCls (completedCb \<lparr>connCls = sl_request (sv_slots s i),
           queued_responses = sl_responses (sv_slots s i), world = sv_world s\<rparr>),
         sl_responses = []\<rparr>)\<rparr>)"
| "server_callback D (Action_event e) s = action_callback D e s"
| "server_callback D (Signal_event n) s = Val (deliver_signal n s)"

text \<open>
  \<open>eventCb\<close>, the callback of the listening event: \<open>MHD_run\<close> makes any number of calls for the connections,
  then the event is added again with the timeout the library asks for (\<open>answer\<close>).
\<close>

fun mhd_run :: "('c, 'j) deployment \<Rightarrow> 'c server_event list \<Rightarrow> 'c server_state \<Rightarrow> 'c server_state res" where
  "mhd_run D [] s = Val s"
| "mhd_run D (e # es) s = bnd (server_callback D e s) (mhd_run D es)"

definition eventCb ::
  "('c, 'j) deployment \<Rightarrow> 'c server_event list \<Rightarrow> 64 word option \<Rightarrow> 'c server_state \<Rightarrow> ('c server_state \<times> timeval) res" where
  "eventCb D calls answer s = bnd (mhd_run D calls s) (\<lambda>s. Val (s, listen_timeout answer))"

section \<open>Steps and runs\<close>

text \<open>\<open>P\<close> restricts the events that occur; the runs of the program are those with \<open>\<lambda>e s. True\<close>.\<close>

inductive server_step ::
  "('c server_event \<Rightarrow> 'c server_state \<Rightarrow> bool) \<Rightarrow> ('c, 'j) deployment \<Rightarrow> 'c server_state
     \<Rightarrow> 'c server_event \<Rightarrow> 'c server_state \<Rightarrow> bool" where
  sv_step: "server_enabled e s \<Longrightarrow> P e s \<Longrightarrow> server_callback D e s = Val t \<Longrightarrow> server_step P D s e t"

text \<open>The runs in which all bodies keep to the limit.\<close>

fun fits :: "('c, 'j) deployment \<Rightarrow> 'c server_event \<Rightarrow> 'c server_state \<Rightarrow> bool" where
  "fits D (Request_piece i p) s =
     (case sl_request (sv_slots s i) of None \<Rightarrow> True | Some r \<Rightarrow> length (content r) + length p \<le> d_limit D)"
| "fits D e s = True"

text \<open>Runs of a machine in general, and those of the server.\<close>

inductive machine_run :: "('s \<Rightarrow> 'e \<Rightarrow> 's \<Rightarrow> bool) \<Rightarrow> 's \<Rightarrow> 'e list \<Rightarrow> 's \<Rightarrow> bool" for step s where
  mr_nil: "machine_run step s [] s"
| mr_snoc: "machine_run step s es t \<Longrightarrow> step t e u \<Longrightarrow> machine_run step s (es @ [e]) u"

abbreviation server_run ::
  "('c server_event \<Rightarrow> 'c server_state \<Rightarrow> bool) \<Rightarrow> ('c, 'j) deployment \<Rightarrow> 'c server_state
     \<Rightarrow> 'c server_event list \<Rightarrow> 'c server_state \<Rightarrow> bool" where
  "server_run P D \<equiv> machine_run (server_step P D)"

inductive_cases server_stepE: "server_step P D s e t"
inductive_simps server_step_iff: "server_step P D s e t"

abbreviation any_event :: "'c server_event \<Rightarrow> 'c server_state \<Rightarrow> bool" where
  "any_event \<equiv> \<lambda>e s. True"

text \<open>The state in which the loop starts: no connection, the listeners of \<open>main\<close>.\<close>

definition server_start :: "main_handler signal_listener list \<Rightarrow> world \<Rightarrow> int set \<Rightarrow> 'c server_state" where
  "server_start ls w K =
     \<lparr>sv_slots = (\<lambda>_. free_slot), sv_world = w, sv_kids = K, sv_io = new_io_context, sv_restart = False,
      sv_listeners = ls\<rparr>"

lemma server_run_mono:
  "server_run P D s es t \<Longrightarrow> (\<And>e s. P e s \<Longrightarrow> Q e s) \<Longrightarrow> server_run Q D s es t"
  by (induction rule: machine_run.induct) (auto intro: machine_run.intros simp add: server_step_iff)

lemma machine_run_inv:
  assumes "machine_run step s es t" and "I s" and "\<And>s e t. I s \<Longrightarrow> step s e t \<Longrightarrow> I t"
  shows "I t"
  using assms by (induction rule: machine_run.induct) auto

lemma traced_run: "traced step report s es ns t \<Longrightarrow> machine_run step s es t"
  by (induction rule: traced.induct) (auto intro: machine_run.intros)

lemma traced_ex: "machine_run step s es t \<Longrightarrow> \<exists>ns. traced step report s es ns t"
  by (induction rule: machine_run.induct) (auto intro: traced.intros)

text \<open>The calls of one \<open>eventCb\<close> are a part of a run; the listening event is pending again after it.\<close>

lemma mhd_run_append: "mhd_run D (es @ fs) s = bnd (mhd_run D es s) (mhd_run D fs)"
proof (induction es arbitrary: s)
  case (Cons e es)
  then show ?case by (cases "server_callback D e s") simp_all
qed simp

lemma eventCb_run:
  assumes "server_run P D s calls t"
  shows "eventCb D calls answer s = Val (t, listen_timeout answer)"
proof -
  have "mhd_run D calls s = Val t"
    using assms by (induction rule: machine_run.induct) (simp_all add: mhd_run_append server_step_iff)
  then show ?thesis by (simp add: eventCb_def)
qed

lemma server_callE:
  assumes "server_call D i c path meth upload final s = Val t"
  obtains ok k where "slot_call D c path meth upload (sv_slots s i) (sv_world s) = (Val ok, k)"
    "t = s\<lparr>sv_slots := (sv_slots s)(i := slot_after c path meth final ok k), sv_world := world k\<rparr>"
  using assms by (auto simp add: server_call_def split: prod.splits res.splits)

text \<open>A signal changes nothing but the event base and \<open>restart\<close>.\<close>

lemma main_signal_frame:
  "sv_slots (main_signal h n s) = sv_slots s" "sv_world (main_signal h n s) = sv_world s"
  "sv_kids (main_signal h n s) = sv_kids s" "sv_listeners (main_signal h n s) = sv_listeners s"
  by (cases h; simp)+

lemma deliver_signal_frame:
  "sv_slots (deliver_signal n s) = sv_slots s \<and> sv_world (deliver_signal n s) = sv_world s
   \<and> sv_kids (deliver_signal n s) = sv_kids s \<and> sv_listeners (deliver_signal n s) = sv_listeners s"
proof -
  have "sv_slots (fold f ls s) = sv_slots s \<and> sv_world (fold f ls s) = sv_world s
      \<and> sv_kids (fold f ls s) = sv_kids s \<and> sv_listeners (fold f ls s) = sv_listeners s"
    if "f = (\<lambda>l. if n \<in> sigs l then listener_callback main_signal l n True else id)" for f ls
    using that by (induction ls arbitrary: s)
      (simp_all add: listener_callback_def main_signal_frame split: option.split)
  then show ?thesis by (simp add: deliver_signal_def)
qed

end
