(* ===== verification/Server_Refinement.thy ===== *)
theory Server_Refinement
  imports Server_Machine
begin

text \<open>
  The running server refines the action list: whatever the connections do, the scheduler sees a run of
  its own machine \<open>loop_step\<close>, whose appends come from the hooks and whose other events are those of
  libevent. The relation between the two machines is an interpretation of the locale \<open>simulation\<close>, and
  what requests do to the program's state is one of the locale \<open>state_effect\<close>.
\<close>

section \<open>Simulations\<close>

text \<open>
  Each step of a concrete machine is a run of an abstract one, between the abstractions of the two
  states and with the abstract events the concrete event shows. \<open>run\<close> is closed under composition.
\<close>

locale simulation =
  fixes step :: "'s \<Rightarrow> 'e \<Rightarrow> 's \<Rightarrow> bool"
    and run :: "'a \<Rightarrow> 'f list \<Rightarrow> 'a \<Rightarrow> bool"
    and abs :: "'s \<Rightarrow> 'a"
    and shown :: "'e \<Rightarrow> 'f list"
    and visible :: "'f \<Rightarrow> bool"
  assumes run_empty: "run a [] a"
    and run_append: "run a es b \<Longrightarrow> run b fs c \<Longrightarrow> run a (es @ fs) c"
    and step_simulated: "step s e t \<Longrightarrow> \<exists>fs. run (abs s) fs (abs t) \<and> filter visible fs = shown e"
begin

lemma steps_simulated:
  "machine_run step s es t \<Longrightarrow> \<exists>fs. run (abs s) fs (abs t) \<and> filter visible fs = concat (map shown es)"
proof (induction rule: machine_run.induct)
  case mr_nil
  then show ?case using run_empty by (intro exI [of _ "[]"]) simp
next
  case (mr_snoc es t e u)
  then obtain fs gs where "run (abs s) fs (abs t)" "filter visible fs = concat (map shown es)"
    "run (abs t) gs (abs u)" "filter visible gs = shown e"
    using step_simulated by blast
  then show ?case using run_append by (intro exI [of _ "fs @ gs"]) auto
qed

end

section \<open>What requests do to the state of the program\<close>

text \<open>A relation that the handlers and their continuations respect is respected by every call.\<close>

locale state_effect =
  fixes M :: "'c mhd"
    and run_h :: "'h \<Rightarrow> ('c, 'k, 'w) handler_fun"
    and run_k :: "'k \<Rightarrow> ('c, 'k, 'w) handler_fun"
    and R :: "'w \<Rightarrow> 'w \<Rightarrow> bool"
  assumes unchanged: "R w w"
    and handler_effect: "run_h h r w = (res, r', w') \<Longrightarrow> R w w'"
    and continuation_effect: "run_k k r w = (res, r', w') \<Longrightarrow> R w w'"
begin

lemma newRequest_effect:
  "newRequest nd M run_h hs limit c path meth s = (res, s') \<Longrightarrow> R (world s) (world s')"
  by (auto simp add: newRequest_def Let_def unchanged split: if_splits res.splits option.splits prod.splits
      dest: handler_effect)

lemma completeRequest_effect:
  "completeRequest nd M run_k c r s = (res, s') \<Longrightarrow> R (world s) (world s')"
  by (auto simp add: completeRequest_def Let_def unchanged split: res.splits option.splits prod.splits
      dest: continuation_effect)

lemma call_effect:
  "answerCb nd M run_h run_k hs limit c path meth p s = (res, s') \<Longrightarrow> R (world s) (world s')"
  by (elim answerCb_step) (auto simp add: unchanged dest: newRequest_effect completeRequest_effect)

end

section \<open>Hooks append to the action list\<close>

text \<open>
  The scheduler changes by appends only, and the counter of scheduled hooks counts them. The children
  and the build do not matter.
\<close>

definition only_appends :: "world \<Rightarrow> world \<Rightarrow> bool" where
  "only_appends w w' \<longleftrightarrow> (\<exists>es. (\<forall>e\<in>set es. \<not> from_libevent e)
     \<and> hooksScheduled w' = hooksScheduled w + of_nat (length es)
     \<and> (\<forall>nd K. run_events nd es \<lparr>acts = scheduler w, kids = K\<rparr> = Some \<lparr>acts = scheduler w', kids = K\<rparr>))"

lemma run_events_append:
  "run_events nd (es @ fs) s = (case run_events nd es s of None \<Rightarrow> None | Some t \<Rightarrow> run_events nd fs t)"
  by (induction es arbitrary: s) (auto split: res.split)

lemma only_appends_same:
  "scheduler w' = scheduler w \<Longrightarrow> hooksScheduled w' = hooksScheduled w \<Longrightarrow> only_appends w w'"
  by (simp add: only_appends_def exI [of _ "[]"])

lemma only_appends_trans:
  assumes "only_appends u v" and "only_appends v w"
  shows "only_appends u w"
proof -
  obtain es where es: "\<forall>e\<in>set es. \<not> from_libevent e" "hooksScheduled v = hooksScheduled u + of_nat (length es)"
    "\<forall>nd K. run_events nd es \<lparr>acts = scheduler u, kids = K\<rparr> = Some \<lparr>acts = scheduler v, kids = K\<rparr>"
    using assms(1) by (auto simp add: only_appends_def)
  obtain fs where fs: "\<forall>e\<in>set fs. \<not> from_libevent e" "hooksScheduled w = hooksScheduled v + of_nat (length fs)"
    "\<forall>nd K. run_events nd fs \<lparr>acts = scheduler v, kids = K\<rparr> = Some \<lparr>acts = scheduler w, kids = K\<rparr>"
    using assms(2) by (auto simp add: only_appends_def)
  show ?thesis
    unfolding only_appends_def
    by (rule exI [of _ "es @ fs"]) (use es fs in \<open>auto simp add: run_events_append\<close>)
qed

lemma only_appends_event:
  assumes "\<not> from_libevent e" and "\<And>nd. run_event nd e (scheduler w) = Val (scheduler w')"
    and "hooksScheduled w' = hooksScheduled w + 1"
  shows "only_appends w w'"
proof -
  have "enabled e s \<and> kids_after e s = kids s" for s
    using assms(1) by (cases e) auto
  with assms show ?thesis by (auto simp add: only_appends_def intro!: exI [of _ "[e]"])
qed

text \<open>The same for an operation that returns a result and a state.\<close>

definition appending :: "world \<Rightarrow> 'a res \<times> world \<Rightarrow> bool" where
  "appending w p \<longleftrightarrow> only_appends w (snd p)"

lemma appending_pair [simp]: "appending w (r, w') \<longleftrightarrow> only_appends w w'"
  by (simp add: appending_def)

lemma only_appends_refl [simp]: "only_appends w w"
  by (rule only_appends_same) simp_all

lemma appending_then_do:
  assumes "appending w p" and "\<And>x s. only_appends w s \<Longrightarrow> appending w (f x s)"
  shows "appending w (then_do p f)"
  using assms by (cases "(p, f)" rule: then_do.cases) auto

lemma appending_trans: "only_appends u v \<Longrightarrow> appending v p \<Longrightarrow> appending u p"
  by (auto simp add: appending_def intro: only_appends_trans)

lemma execute_function_appends: "appending w (execute_function d f w)"
  by (auto simp add: execute_function_def intro: only_appends_event [of "Ev_function (hook_name d) f"])

lemma execute_command_appends: "appending w (execute_command J d js env w)"
proof (cases "mCommand d = []")
  case True
  then show ?thesis by (simp add: execute_command_def)
next
  case False
  obtain program args where sp: "split_command (mCommand d) = (program, args)" by force
  have "only_appends w (w\<lparr>scheduler := s, hooksScheduled := hooksScheduled w + 1\<rparr>)"
    if "schedule_command (hook_name d) program args env' (mUserGroup d) (mTimeout d) (scheduler w) = Val s" for s env'
    by (rule only_appends_event [of "Ev_command (hook_name d) program args env' (mUserGroup d) (mTimeout d)"])
      (simp_all add: that)
  with False sp show ?thesis
    by (cases "command_environment J js (mEnvironment d) env")
      (auto simp add: execute_command_def schedule_command_eq)
qed

lemma pipeline_process_appends: "appending w (pipeline_process J d statuses jobs event js w)"
  unfolding pipeline_process_def
  by (auto simp add: appending_trans [OF _ execute_command_appends] split: prod.split intro!: appending_then_do)

lemma hook_process_appends: "appending w (hook_process J l event js w)"
  by (cases "(J, l, event, js, w)" rule: hook_process.cases)
    (simp_all add: debug_process_def execute_function_appends pipeline_process_appends)

lemma chain_loop_appends: "appending w (chain_loop J reqToken peer event js ls count w)"
proof (induction ls arbitrary: count w)
  case (Cons l ls)
  then show ?case
    by (auto intro!: appending_then_do hook_process_appends split: outcome.split intro: appending_trans)
qed simp

lemma process_content_appends: "appending w (process_content nd S h peer r w)"
proof -
  let ?w = "w\<lparr>hooksGoodRequests := hooksGoodRequests w + 1\<rparr>"
  have start: "only_appends w ?w" by (rule only_appends_same) simp_all
  show ?thesis
    unfolding process_content_def Let_def
    by (intro appending_then_do appending_trans [OF _ chain_loop_appends]) (simp_all add: start)
qed

lemma hook_continue_world:
  assumes "hook_continue nd S (Continue h peer) r w = (res, r', w')"
  shows "\<exists>res1. process_content nd S h peer r w = (res1, w')"
proof -
  obtain res1 w1 where p: "process_content nd S h peer r w = (res1, w1)" by force
  have tt: "terminate_on_throw z = (x, y, w2) \<Longrightarrow> snd (snd z) = w2" for z x y w2 by (cases z) simp
  have sw: "snd (snd (with_world w1 q)) = w1" for q by (cases q) simp
  from assms p have "w' = w1"
    by (auto simp add: hook_continue_def sw split: res.splits option.splits prod.splits if_splits dest!: tt)
  with p show ?thesis by simp
qed

lemma hook_continue_appends: "hook_continue nd S k r w = (res, r', w') \<Longrightarrow> only_appends w w'"
proof -
  assume a: "hook_continue nd S k r w = (res, r', w')"
  obtain h peer where "k = Continue h peer" by (cases k)
  with a hook_continue_world obtain res1 where "process_content nd S h peer r w = (res1, w')" by blast
  with process_content_appends [of w nd S h peer r] show ?thesis by simp
qed

lemma run_handler_scheduler:
  assumes "run_handler nd S tt v h r w = (res, r', w')"
  shows "scheduler w' = scheduler w \<and> hooksScheduled w' = hooksScheduled w"
proof -
  have ww: "snd (snd (with_world w1 q)) = w1" for w1 and q :: "('a, continuation) req_result" by (cases q) simp
  show ?thesis
  proof (cases h)
    case (Status_handler start)
    with assms have "w' = snd (snd (status_page nd S tt v start r w))" by (simp add: run_handler_def)
    then show ?thesis by (simp add: status_page_def ww)
  next
    case (Hook_handler hk)
    with assms have "w' = snd (snd (hook_call nd S hk r w))" by (simp add: run_handler_def)
    then show ?thesis by (auto simp add: hook_call_def Let_def ww split: res.split)
  qed
qed

lemma run_handler_appends: "run_handler nd S tt v h r w = (res, r', w') \<Longrightarrow> only_appends w w'"
  by (drule run_handler_scheduler) (simp add: only_appends_same)

interpretation eff: state_effect "mhd S" "run_handler nd S tt v" "hook_continue nd S" only_appends
  for S :: "('c, 'j) services" and nd tt v
  by unfold_locales (auto dest: run_handler_appends hook_continue_appends)

lemma slot_call_appends: "slot_call D c path meth upload sl w = (res, k) \<Longrightarrow> only_appends w (world k)"
  unfolding slot_call_def by (drule eff.call_effect) simp

lemma server_call_appends:
  "server_call D i c path meth upload final s = Val t \<Longrightarrow>
     only_appends (sv_world s) (sv_world t) \<and> sv_kids t = sv_kids s"
  by (elim server_callE) (auto dest: slot_call_appends)

section \<open>The refinement\<close>

fun libevent_events :: "'c server_event \<Rightarrow> callable event list" where
  "libevent_events (Action_event e) = [e]"
| "libevent_events e = []"

lemma loop_run_append: "loop_run nd s es t \<Longrightarrow> loop_run nd t fs u \<Longrightarrow> loop_run nd s (es @ fs) u"
  by (rotate_tac, induction rule: loop_run.induct) (auto intro: loop_run.intros simp flip: append_assoc)

lemma only_appends_run:
  assumes "only_appends w w'"
  shows "\<exists>fs. loop_run nd \<lparr>acts = scheduler w, kids = K\<rparr> fs \<lparr>acts = scheduler w', kids = K\<rparr>
     \<and> filter from_libevent fs = []"
proof -
  from assms obtain es where "\<forall>e\<in>set es. \<not> from_libevent e"
    "run_events nd es \<lparr>acts = scheduler w, kids = K\<rparr> = Some \<lparr>acts = scheduler w', kids = K\<rparr>"
    by (auto simp add: only_appends_def)
  then show ?thesis by (intro exI [of _ es]) (simp add: filter_empty_conv run_events_loop_run)
qed

lemma server_step_simulated:
  assumes "server_step P D s e t"
  shows "\<exists>fs. loop_run (d_ndebug D) (actions_of s) fs (actions_of t) \<and> filter from_libevent fs = libevent_events e"
proof -
  from assms have en: "server_enabled e s" and cb: "server_callback D e s = Val t"
    by (auto simp add: server_step_iff)
  have quiet: ?thesis if "only_appends (sv_world s) (sv_world t) \<and> sv_kids t = sv_kids s" and "libevent_events e = []"
    using that only_appends_run by (auto simp add: actions_of_def)
  have call: ?thesis if "server_call D i c path meth upload final s = Val t" and "libevent_events e = []"
    for i c path meth upload final
    by (rule quiet) (use that in \<open>auto dest: server_call_appends\<close>)
  show ?thesis
  proof (cases e)
    case (Action_event f)
    with en cb have "loop_step (d_ndebug D) (actions_of s) f (actions_of t)"
      by (auto simp add: action_callback_def bnd_Val_iff loop_step_iff actions_of_def)
    then have "loop_run (d_ndebug D) (actions_of s) [f] (actions_of t)"
      by (auto intro: loop_run_Cons loop_run.intros)
    with Action_event en show ?thesis by (auto intro!: exI [of _ "[f]"])
  next
    case (Signal_event n)
    with cb deliver_signal_frame [of n s] show ?thesis by (intro quiet) auto
  next
    case (Request_completed i)
    with cb show ?thesis by (intro quiet) auto
  next
    case (Request_first i c path meth)
    with cb show ?thesis by (intro call) auto
  next
    case (Request_piece i p)
    with en obtain c path meth where "sl_phase (sv_slots s i) = Receiving c path meth"
      by (auto split: phase.splits)
    with Request_piece cb show ?thesis by (intro call [of i c path meth p False]) auto
  next
    case (Request_last i)
    with en obtain c path meth where "sl_phase (sv_slots s i) = Receiving c path meth"
      by (auto split: phase.splits)
    with Request_last cb show ?thesis by (intro call [of i c path meth "[]" True]) auto
  qed
qed

interpretation sim: simulation "server_step P D" "loop_run (d_ndebug D)" actions_of libevent_events from_libevent
  for P and D :: "('c, 'j) deployment"
  by unfold_locales (auto intro: loop_run.intros loop_run_append server_step_simulated)

end
