(* ===== verification/Example_Server.thy ===== *)
theory Example_Server
  imports Server_Machine
begin

text \<open>
  A concrete run of the server on the installation of \<^theory_text>\<open>Example_Site\<close>: two connections whose requests
  are interleaved, one with the right token and one without.
\<close>

text \<open>Running the machine on a list of events; \<open>None\<close> when an event cannot occur or its callback fails.\<close>

fun server_exec ::
  "('c server_event \<Rightarrow> 'c server_state \<Rightarrow> bool) \<Rightarrow> ('c, 'j) deployment \<Rightarrow> 'c server_event list
     \<Rightarrow> 'c server_state \<Rightarrow> 'c server_state option" where
  "server_exec P D [] s = Some s"
| "server_exec P D (e # es) s =
     (if server_enabled e s \<and> P e s
      then (case server_callback D e s of Val t \<Rightarrow> server_exec P D es t | _ \<Rightarrow> None)
      else None)"

lemma machine_run_Cons: "step s e t \<Longrightarrow> machine_run step t es u \<Longrightarrow> machine_run step s (e # es) u"
  by (rotate_tac, induction rule: machine_run.induct)
    (auto intro: machine_run.intros mr_snoc [where es = "[]", simplified] mr_snoc [where es = "_ # _", simplified])

lemma server_exec_run: "server_exec P D es s = Some t \<Longrightarrow> server_run P D s es t"
proof (induction es arbitrary: s)
  case Nil
  then show ?case by (auto intro: mr_nil)
next
  case (Cons e es)
  then obtain u where "server_enabled e s" "P e s" "server_callback D e s = Val u" "server_exec P D es u = Some t"
    by (auto split: if_splits res.splits)
  with Cons.IH show ?case by (auto intro: machine_run_Cons sv_step)
qed

definition site_deployment :: "(headers, jtree) deployment" where
  "site_deployment = \<lparr>d_ndebug = False, d_libs = site, d_time_text = site_time, d_version = ''1.0'',
     d_handlers = site_handlers, d_limit = 65535\<rparr>"

definition site_prefix :: "headers server_event list" where
  "site_prefix =
     [Request_first 0 good_headers ''/api/deploy'' ''POST'', Request_first 1 bad_headers ''/api/deploy'' ''POST'',
      Request_piece 0 ''pipeline event'', Request_completed 1]"

definition site_events :: "headers server_event list" where
  "site_events = site_prefix @ [Request_last 0]"

text \<open>The calls of the two requests, one by one.\<close>

definition site_receiving :: "string \<Rightarrow> headers hook_request" where
  "site_receiving body = (post_request good_headers ''/api/deploy'' 65535)
     \<lparr>rhandler := Some (Continue site_chain ''10.0.0.1''), rstate := Accepted, content := body\<rparr>"

lemma site_limit: "d_limit site_deployment = 65535" "content (site_receiving body) = body"
  by (simp_all add: site_deployment_def site_receiving_def)

lemma site_first_call:
  "slot_call site_deployment good_headers ''/api/deploy'' ''POST'' [] free_slot w =
     (Val True, \<lparr>connCls = Some (site_receiving []), queued_responses = [],
        world = w\<lparr>hooksRequests := hooksRequests w + 1\<rparr>\<rparr>)"
  using site_accepts [of 65535]
  by (simp add: slot_call_def site_deployment_def answerCb_def free_slot_def newRequest_def methodFrom_def
      run_handler_def hook_call_eq Let_def after_entry_def site_receiving_def)

lemma site_refused_call:
  "slot_call site_deployment bad_headers ''/api/deploy'' ''POST'' [] free_slot w =
     (Val True, \<lparr>connCls = Some ((post_request bad_headers ''/api/deploy'' 65535)
          \<lparr>response := Some ''forbidden'', responseCode := Some C_forbidden, rstate := Responded\<rparr>),
        queued_responses = [(C_forbidden, ''forbidden'')],
        world = w\<lparr>hooksRequests := hooksRequests w + 1\<rparr>\<rparr>)"
proof -
  have "refusal site site_chain ''10.0.0.1'' (post_request bad_headers ''/api/deploy'' 65535)
      = Some (C_forbidden, ''forbidden'')"
    by (simp add: refusal_def Let_def site_defs req_header_def selects_def fresh_request_def)
  then show ?thesis
    by (simp add: slot_call_def site_deployment_def answerCb_def free_slot_def newRequest_def methodFrom_def
        run_handler_def hook_call_eq Let_def after_entry_def respond_static_none queue_response_def)
qed

lemma site_piece_call:
  "slot_call site_deployment good_headers ''/api/deploy'' ''POST'' ''pipeline event''
     \<lparr>sl_phase = ph, sl_request = Some (site_receiving []), sl_responses = []\<rparr> w =
   (Val True, \<lparr>connCls = Some (site_receiving site_text), queued_responses = [], world = w\<rparr>)"
  by (simp add: slot_call_def site_deployment_def answerCb_def addContent_def site_receiving_def site_text_def
      add_size_def fresh_request_def)

lemma site_last_call:
  "\<exists>r w'. slot_call site_deployment good_headers ''/api/deploy'' ''POST'' []
     \<lparr>sl_phase = ph, sl_request = Some (site_receiving site_text), sl_responses = []\<rparr> w =
   (Val True, \<lparr>connCls = Some r, queued_responses = [(C_accepted, ''accepted'')], world = w'\<rparr>)
   \<and> map it_name (actions (scheduler w')) = map it_name (actions (scheduler w)) @ [''debug'', ''deploy'']
   \<and> map (\<lambda>i. it_process i \<noteq> None) (actions (scheduler w'))
       = map (\<lambda>i. it_process i \<noteq> None) (actions (scheduler w)) @ [False, True]"
proof -
  let ?r = "accepted_request site site_chain good_headers ''/api/deploy'' 65535 site_text"
  let ?p = "process_content False site site_chain ''10.0.0.1'' ?r w"
  have p: "?p = (Val (Some 2), snd ?p)" using site_process by (rule conjunct1)
  have n: "map it_name (actions (scheduler (snd ?p))) = map it_name (actions (scheduler w)) @ [''debug'', ''deploy'']"
    using site_process by (rule conjunct2)
  note m = site_process_kinds [of False 65535 w]
  have r: "(site_receiving site_text)\<lparr>rstate := Completed\<rparr> = ?r"
    by (simp add: site_receiving_def accepted_request_def fresh_request_def)
  have acc: "response ?r = None" by (simp add: accepted_request_def)
  from hook_continue_reply [OF _ acc p] obtain r' where k:
    "hook_continue False site (Continue site_chain ''10.0.0.1'') ?r w = (Val (), r', snd ?p)"
    "rstate r' = Responded" "responseCode r' = Some C_accepted" "response r' = Some ''accepted''"
    by auto
  have h: "rhandler ?r = Some (Continue site_chain ''10.0.0.1'')" "rstate (site_receiving site_text) = Accepted"
    by (simp_all add: site_receiving_def accepted_request_def)
  have "slot_call site_deployment good_headers ''/api/deploy'' ''POST'' []
     \<lparr>sl_phase = ph, sl_request = Some (site_receiving site_text), sl_responses = []\<rparr> w =
     (Val True, \<lparr>connCls = Some r', queued_responses = [(C_accepted, ''accepted'')], world = snd ?p\<rparr>)"
    by (simp add: slot_call_def site_deployment_def answerCb_def completeRequest_def h r k Let_def
        after_completion_def queue_response_def)
  with n m show ?thesis by (intro exI conjI)
qed

definition site_before :: "main_handler signal_listener list \<Rightarrow> headers server_state" where
  "site_before ls = the (server_exec (fits site_deployment) site_deployment site_prefix (server_start ls site_world {}))"

lemma site_prefix_exec:
  "server_exec (fits site_deployment) site_deployment site_prefix (server_start ls site_world {}) = Some (site_before ls)
   \<and> sv_slots (site_before ls) 0 = \<lparr>sl_phase = Receiving good_headers ''/api/deploy'' ''POST'',
        sl_request = Some (site_receiving site_text), sl_responses = []\<rparr>
   \<and> sv_slots (site_before ls) 1 = free_slot \<and> sv_kids (site_before ls) = {}
   \<and> scheduler (sv_world (site_before ls)) = initial_actions"
  unfolding site_before_def site_prefix_def
  by (simp add: server_start_def server_call_def site_first_call site_refused_call site_piece_call slot_after_def
      completedCb_def free_slot_def [symmetric] site_limit site_world_def)

lemma site_last_step:
  "\<exists>t. server_callback site_deployment (Request_last 0) (site_before ls) = Val t
     \<and> sl_responses (sv_slots t 0) = [(C_accepted, ''accepted'')] \<and> sv_slots t 1 = free_slot
     \<and> sl_phase (sv_slots t 0) = Concluded good_headers ''/api/deploy'' ''POST''
     \<and> names (acts (actions_of t)) = [''debug'', ''deploy''] \<and> sv_kids t = {}
     \<and> map (\<lambda>i. it_process i \<noteq> None) (actions (scheduler (sv_world t))) = [False, True]"
proof -
  note b = site_prefix_exec [of ls]
  from site_last_call [of "Receiving good_headers ''/api/deploy'' ''POST''" "sv_world (site_before ls)"]
  obtain r w' where
    "slot_call site_deployment good_headers ''/api/deploy'' ''POST'' []
       \<lparr>sl_phase = Receiving good_headers ''/api/deploy'' ''POST'', sl_request = Some (site_receiving site_text),
        sl_responses = []\<rparr> (sv_world (site_before ls)) =
     (Val True, \<lparr>connCls = Some r, queued_responses = [(C_accepted, ''accepted'')], world = w'\<rparr>)"
    "map it_name (actions (scheduler w')) = [''debug'', ''deploy'']"
    "map (\<lambda>i. it_process i \<noteq> None) (actions (scheduler w')) = [False, True]"
    using b by (auto simp add: initial_actions_def)
  with b show ?thesis
    by (simp add: server_call_def slot_after_def actions_of_def names_def)
qed

definition site_final :: "main_handler signal_listener list \<Rightarrow> headers server_state" where
  "site_final ls = (case server_callback site_deployment (Request_last 0) (site_before ls) of Val t \<Rightarrow> t)"

lemma site_before:
  "server_run any_event site_deployment (server_start ls site_world {}) site_prefix (site_before ls)"
  "scheduler (sv_world (site_before ls)) = initial_actions"
  "sl_phase (sv_slots (site_before ls) 0) = Receiving good_headers ''/api/deploy'' ''POST''"
  "server_step any_event site_deployment (site_before ls) (Request_last 0) (site_final ls)"
proof -
  note b = site_prefix_exec [of ls]
  show "server_run any_event site_deployment (server_start ls site_world {}) site_prefix (site_before ls)"
    using b by (blast intro: server_exec_run server_run_mono)
  show "scheduler (sv_world (site_before ls)) = initial_actions"
    "sl_phase (sv_slots (site_before ls) 0) = Receiving good_headers ''/api/deploy'' ''POST''"
    using b by simp_all
  then show "server_step any_event site_deployment (site_before ls) (Request_last 0) (site_final ls)"
    using site_last_step [of ls] by (auto simp add: server_step_iff site_final_def)
qed

lemma site_final:
  "server_run (fits site_deployment) site_deployment (server_start ls site_world {}) site_events (site_final ls)"
  "sl_responses (sv_slots (site_final ls) 0) = [(C_accepted, ''accepted'')]"
  "sv_slots (site_final ls) 1 = free_slot"
  "sl_phase (sv_slots (site_final ls) 0) = Concluded good_headers ''/api/deploy'' ''POST''"
  "names (acts (actions_of (site_final ls))) = [''debug'', ''deploy'']" "sv_kids (site_final ls) = {}"
  "map (\<lambda>i. it_process i \<noteq> None) (actions (scheduler (sv_world (site_final ls)))) = [False, True]"
proof -
  have "server_run (fits site_deployment) site_deployment (server_start ls site_world {}) site_prefix (site_before ls)"
    using site_prefix_exec by (blast intro: server_exec_run)
  moreover have "server_step (fits site_deployment) site_deployment (site_before ls) (Request_last 0) (site_final ls)"
    using site_before(4) by (simp add: server_step_iff)
  ultimately show "server_run (fits site_deployment) site_deployment (server_start ls site_world {}) site_events (site_final ls)"
    unfolding site_events_def by (rule mr_snoc)
qed (use site_last_step [of ls] in \<open>auto simp add: site_final_def\<close>)

lemma site_final_any: "server_run any_event site_deployment (server_start ls site_world {}) site_events (site_final ls)"
  using site_final(1) by (rule server_run_mono) simp

lemma site_start_actions: "actions_of (server_start ls site_world {}) = initial_loop"
  by (simp add: actions_of_def server_start_def site_world_def initial_loop_def)

end
