(* ===== verification/Server_Facts.thy ===== *)
theory Server_Facts
  imports Server_Refinement Example_Server
begin

text \<open>
  The properties of the running server with all its connections: it refines the action list, none of
  its callbacks fails while bodies keep to the limit, a connection gets at most one response for a
  request, and only authorised requests reach the scheduler.
\<close>

section \<open>Refinement of the action list\<close>

text \<open>
  (C5) The running server refines the action list: over any run of the event loop, with any number of
  connections whose calls are interleaved in any order, the scheduler makes a run of its own machine
  whose events from libevent are exactly those of the run, in order; everything else it does are
  appends by hooks. So what holds of every run of the action list holds in the whole server.
\<close>

theorem server_refines_action_list:
  assumes "server_run P D s es t"
  shows "\<exists>fs. loop_run (d_ndebug D) (actions_of s) fs (actions_of t)
     \<and> filter from_libevent fs = concat (map libevent_events es)"
  using assms by (rule sim.steps_simulated)

theorem server_refines_action_list_witness:
  "\<exists>fs. loop_run False initial_loop fs (actions_of (site_final []))
     \<and> filter from_libevent fs = [] \<and> names (acts (actions_of (site_final []))) = [''debug'', ''deploy'']"
proof -
  have "concat (map libevent_events site_events) = []" "d_ndebug site_deployment = False"
    by (simp_all add: site_events_def site_prefix_def site_deployment_def)
  with server_refines_action_list [OF site_final_any, of "[]"] site_final(5) [of "[]"]
  show ?thesis unfolding site_start_actions by auto
qed

section \<open>Invariants of the connections\<close>

text \<open>
  While a body is received there is a request and no response; afterwards there is at most one; a free
  slot is empty.
\<close>

definition slot_inv :: "'c slot \<Rightarrow> bool" where
  "slot_inv sl \<longleftrightarrow> (case sl_phase sl of
       Idle \<Rightarrow> sl = free_slot
     | Receiving c path meth \<Rightarrow> sl_responses sl = [] \<and> sl_request sl \<noteq> None
     | Concluded c path meth \<Rightarrow> length (sl_responses sl) \<le> 1)"

lemma slot_inv_idle: "slot_inv sl \<Longrightarrow> sl_phase sl = Idle \<Longrightarrow> sl = free_slot"
  by (simp add: slot_inv_def)

lemma free_slot_inv [simp]: "slot_inv free_slot"
  by (simp add: slot_inv_def)

text \<open>The event of a connection, with the slot it meets, as a call of the access handler.\<close>

lemma server_step_cases:
  assumes "server_step P D s e t"
  obtains (call) i c path meth upload final ok k where
      "slot_call D c path meth upload (sv_slots s i) (sv_world s) = (Val ok, k)"
      "t = s\<lparr>sv_slots := (sv_slots s)(i := slot_after c path meth final ok k), sv_world := world k\<rparr>"
      "e = Request_first i c path meth \<and> upload = [] \<and> \<not> final \<and> sl_phase (sv_slots s i) = Idle
       \<or> sl_phase (sv_slots s i) = Receiving c path meth
         \<and> (e = Request_piece i upload \<and> upload \<noteq> [] \<and> \<not> final \<or> e = Request_last i \<and> upload = [] \<and> final)"
  | (completed) i where "e = Request_completed i" "sl_phase (sv_slots s i) \<noteq> Idle"
      "t = s\<lparr>sv_slots := (sv_slots s)(i := free_slot)\<rparr>"
  | (other) "sv_slots t = sv_slots s"
      "(\<exists>f. e = Action_event f) \<or> (\<exists>n. e = Signal_event n) \<and> sv_world t = sv_world s"
proof -
  from assms have en: "server_enabled e s" and cb: "server_callback D e s = Val t"
    by (auto simp add: server_step_iff)
  show thesis
  proof (cases e)
    case (Request_first i c path meth)
    with cb obtain ok k where "slot_call D c path meth [] (sv_slots s i) (sv_world s) = (Val ok, k)"
      "t = s\<lparr>sv_slots := (sv_slots s)(i := slot_after c path meth False ok k), sv_world := world k\<rparr>"
      by (auto elim: server_callE)
    with call [of c path meth "[]" i ok k False] Request_first en show thesis by simp
  next
    case (Request_piece i p)
    with en obtain c path meth where ph: "sl_phase (sv_slots s i) = Receiving c path meth" and p: "p \<noteq> []"
      by (auto split: phase.splits)
    with cb Request_piece obtain ok k where "slot_call D c path meth p (sv_slots s i) (sv_world s) = (Val ok, k)"
      "t = s\<lparr>sv_slots := (sv_slots s)(i := slot_after c path meth False ok k), sv_world := world k\<rparr>"
      by (auto elim: server_callE)
    with call Request_piece ph p show thesis by simp
  next
    case (Request_last i)
    with en obtain c path meth where ph: "sl_phase (sv_slots s i) = Receiving c path meth"
      by (auto split: phase.splits)
    with cb Request_last obtain ok k where "slot_call D c path meth [] (sv_slots s i) (sv_world s) = (Val ok, k)"
      "t = s\<lparr>sv_slots := (sv_slots s)(i := slot_after c path meth True ok k), sv_world := world k\<rparr>"
      by (auto elim: server_callE)
    with call Request_last ph show thesis by simp
  next
    case (Request_completed i)
    with en cb completed show thesis by (auto simp add: completedCb_def free_slot_def)
  next
    case (Action_event f)
    with cb other show thesis by (auto simp add: action_callback_def bnd_Val_iff)
  next
    case (Signal_event n)
    with cb other deliver_signal_frame [of n s] show thesis by auto
  qed
qed

lemma first_call_slot:
  assumes "slot_call D c path meth [] free_slot w = (Val True, k)" and "queued_responses k = []"
  shows "connCls k \<noteq> None"
  using assms
  by (auto simp add: slot_call_def answerCb_def newRequest_def after_entry_def sendStaticResponse_def
      queue_response_def Let_def split: if_splits res.splits option.splits prod.splits req_state.splits)

lemma slot_call_queue:
  assumes "slot_call D c path meth upload sl w = (Val ok, k)" and "sl_responses sl = []"
  shows "length (queued_responses k) \<le> 1"
  using answerCb_queue [OF assms(1) [unfolded slot_call_def]] assms(2) by auto

lemma slot_after_inv:
  assumes "slot_call D c path meth upload sl w = (Val ok, k)" and "slot_inv sl"
    and "upload = [] \<and> \<not> final \<and> sl_phase sl = Idle
       \<or> sl_phase sl = Receiving c path meth \<and> (upload \<noteq> [] \<or> final)"
  shows "slot_inv (slot_after c path meth final ok k)"
proof -
  have empty: "sl_responses sl = []" using assms(2,3) by (auto simp add: slot_inv_def)
  note q = slot_call_queue [OF assms(1) empty]
  have "connCls k \<noteq> None" if "ok" "queued_responses k = []" "\<not> final"
    using assms(3)
  proof
    assume "upload = [] \<and> \<not> final \<and> sl_phase sl = Idle"
    with assms(1,2) that first_call_slot [of D c path meth w k] show ?thesis by (simp add: slot_inv_def)
  next
    assume a: "sl_phase sl = Receiving c path meth \<and> (upload \<noteq> [] \<or> final)"
    with assms(2) have "sl_request sl \<noteq> None" by (simp add: slot_inv_def)
    with a assms(1) that show ?thesis
      unfolding slot_call_def by (auto dest!: addContent_keeps_slot)
  qed
  with q show ?thesis by (auto simp add: slot_after_def slot_inv_def)
qed

lemma server_step_slots:
  assumes "server_step P D s e t" and "\<And>i. slot_inv (sv_slots s i)"
  shows "slot_inv (sv_slots t i)"
  using assms(1)
proof (cases rule: server_step_cases)
  case (call j c path meth upload final ok k)
  have "slot_inv (slot_after c path meth final ok k)"
    by (rule slot_after_inv [OF call(1) assms(2)]) (use call(3) in auto)
  with call(2) assms(2) [of i] show ?thesis by (cases "i = j") auto
next
  case (completed j)
  with assms(2) [of i] show ?thesis by (cases "i = j") (auto simp add: slot_inv_def)
next
  case other
  with assms(2) [of i] show ?thesis by simp
qed

lemma server_run_slots:
  assumes "server_run P D (server_start ls w K) es s"
  shows "slot_inv (sv_slots s i)"
proof -
  have "\<forall>i. slot_inv (sv_slots s i)"
    using assms by (rule machine_run_inv) (auto simp add: server_start_def intro: server_step_slots)
  then show ?thesis by simp
qed

text \<open>
  A connection never has more than one response queued for a request, and none while the body is
  still being received, whatever the other connections and the action list do in between.
\<close>

theorem one_response_per_request:
  assumes "server_run any_event D (server_start ls w K) es s"
  shows "length (sl_responses (sv_slots s i)) \<le> 1
     \<and> (\<forall>c path meth. sl_phase (sv_slots s i) = Receiving c path meth \<longrightarrow> sl_responses (sv_slots s i) = [])"
  using server_run_slots [OF assms, of i] by (auto simp add: slot_inv_def split: phase.splits)

theorem one_response_per_request_witness:
  "sl_responses (sv_slots (site_final []) 0) = [(C_accepted, ''accepted'')]
     \<and> length (sl_responses (sv_slots (site_final []) 0)) \<le> 1"
  using one_response_per_request [OF site_final_any, of "[]" 0] site_final(2) [of "[]"] by simp

section \<open>Requests within the limit\<close>

text \<open>A request that waits for its body: accepted, with a continuation, nothing beyond the limit.\<close>

definition collecting :: "nat \<Rightarrow> 'c hook_request \<Rightarrow> bool" where
  "collecting limit r \<longleftrightarrow> awaiting limit (r\<lparr>content := []\<rparr>) \<and> length (content r) \<le> limit"

definition slot_collecting :: "nat \<Rightarrow> 'c slot \<Rightarrow> bool" where
  "slot_collecting limit sl \<longleftrightarrow> slot_inv sl
     \<and> (\<forall>c path meth. sl_phase sl = Receiving c path meth \<longrightarrow> (\<exists>r. sl_request sl = Some r \<and> collecting limit r))"

lemma free_slot_collecting [simp]: "slot_collecting limit free_slot"
  by (simp add: slot_collecting_def)

text \<open>What each of the three calls of the protocol does to a slot that keeps to it.\<close>

lemma first_call_works:
  "\<exists>ok k. slot_call D c path meth [] free_slot w = (Val ok, k)
     \<and> slot_collecting (d_limit D) (slot_after c path meth False ok k)"
proof -
  let ?s = "\<lparr>connCls = None, queued_responses = [], world = w\<rparr>"
  let ?r = "slot_call D c path meth [] free_slot w"
  have "(\<exists>ok k. ?r = (Val ok, k) \<and> length (queued_responses k) = (if ok then 1 else 0))
      \<or> (\<exists>r w'. ?r = (Val True, \<lparr>connCls = Some r, queued_responses = [], world = w'\<rparr>) \<and> awaiting (d_limit D) r)"
    unfolding slot_call_def free_slot_simps by (rule hh.first_call [OF find_handler_total refl])
  then show ?thesis
  proof
    assume "\<exists>ok k. ?r = (Val ok, k) \<and> length (queued_responses k) = (if ok then 1 else 0)"
    then obtain ok k where r: "?r = (Val ok, k)" "length (queued_responses k) = (if ok then 1 else 0)" by blast
    then have "slot_collecting (d_limit D) (slot_after c path meth False ok k)"
      by (cases ok) (auto simp add: slot_after_def slot_collecting_def slot_inv_def)
    with r(1) show ?thesis by blast
  next
    assume "\<exists>r w'. ?r = (Val True, \<lparr>connCls = Some r, queued_responses = [], world = w'\<rparr>) \<and> awaiting (d_limit D) r"
    then obtain r w' where r: "?r = (Val True, \<lparr>connCls = Some r, queued_responses = [], world = w'\<rparr>)"
      "awaiting (d_limit D) r" by blast
    from r(2) have "awaiting (d_limit D) (r\<lparr>content := []\<rparr>)" "content r = []" by (simp_all add: awaiting_def)
    then have "slot_collecting (d_limit D)
        (slot_after c path meth False True \<lparr>connCls = Some r, queued_responses = [], world = w'\<rparr>)"
      by (simp add: slot_after_def slot_collecting_def slot_inv_def collecting_def)
    with r(1) show ?thesis by blast
  qed
qed

lemma piece_call_works:
  assumes "sl_phase sl = Receiving c path meth" and "slot_collecting (d_limit D) sl" and "p \<noteq> []"
    and "\<And>r. sl_request sl = Some r \<Longrightarrow> length (content r) + length p \<le> d_limit D" and "d_limit D < 2 ^ 64"
  shows "\<exists>ok k. slot_call D c path meth p sl w = (Val ok, k)
     \<and> slot_collecting (d_limit D) (slot_after c path meth False ok k)"
proof -
  from assms(1,2) obtain r where r: "sl_request sl = Some r" "collecting (d_limit D) r" "sl_responses sl = []"
    by (auto simp add: slot_collecting_def slot_inv_def)
  with assms(4) have fit: "length (content r @ p) \<le> d_limit D" by simp
  have "contentLimit r = d_limit D" using r(2) by (simp add: collecting_def awaiting_def)
  with fit assms(5) have a: "addContent (d_ndebug D) (mhd (d_libs D)) p r = Val (True, r\<lparr>content := content r @ p\<rparr>)"
    by (intro addContent_fits) simp_all
  let ?k = "\<lparr>connCls = Some (r\<lparr>content := content r @ p\<rparr>), queued_responses = [], world = w\<rparr>"
  have "slot_call D c path meth p sl w = (Val True, ?k)"
    using a r assms(3) by (simp add: slot_call_def answerCb_def)
  moreover have "slot_collecting (d_limit D) (slot_after c path meth False True ?k)"
    using r(2) fit by (simp add: slot_after_def slot_collecting_def slot_inv_def collecting_def)
  ultimately show ?thesis by blast
qed

lemma last_call_works:
  assumes "sl_phase sl = Receiving c path meth" and "slot_collecting (d_limit D) sl"
    and "\<And>body. mhd_create (mhd (d_libs D)) body"
  shows "\<exists>ok k. slot_call D c path meth [] sl w = (Val ok, k)
     \<and> slot_collecting (d_limit D) (slot_after c path meth True ok k)"
proof -
  from assms(1,2) obtain r where r: "sl_request sl = Some r" "collecting (d_limit D) r" "sl_responses sl = []"
    by (auto simp add: slot_collecting_def slot_inv_def)
  have "\<exists>ok k. slot_call D c path meth [] sl w = (Val ok, k) \<and> length (queued_responses k) = (if ok then 1 else 0)"
    unfolding slot_call_def
    by (rule hh.completion_concludes [of "d_libs D" "d_limit D" "r\<lparr>content := []\<rparr>" r "content r"])
      (use assms(3) r in \<open>simp_all add: collecting_def\<close>)
  then obtain ok k where k: "slot_call D c path meth [] sl w = (Val ok, k)"
    "length (queued_responses k) = (if ok then 1 else 0)" by blast
  then have "slot_collecting (d_limit D) (slot_after c path meth True ok k)"
    by (auto simp add: slot_after_def slot_collecting_def slot_inv_def split: if_splits)
  with k(1) show ?thesis by blast
qed

section \<open>No callback of the server fails\<close>

definition server_inv :: "('c, 'j) deployment \<Rightarrow> 'c server_state \<Rightarrow> bool" where
  "server_inv D s \<longleftrightarrow> (\<forall>i. slot_collecting (d_limit D) (sv_slots s i)) \<and> loop_inv (actions_of s)"

text \<open>
  A callback works when it ends and keeps the invariant. The exception is a command that is due while
  \<open>fork\<close> fails.
\<close>

definition works :: "('c, 'j) deployment \<Rightarrow> 'c server_event \<Rightarrow> 'c server_state \<Rightarrow> bool" where
  "works D e s \<longleftrightarrow> (\<exists>t. server_callback D e s = Val t \<and> server_inv D t)"

definition fork_fails :: "('c, 'j) deployment \<Rightarrow> 'c server_event \<Rightarrow> 'c server_state \<Rightarrow> bool" where
  "fork_fails D e s \<longleftrightarrow> (\<exists>w. e = Action_event (Ev_exec w) \<and> fork_result w = - 1
     \<and> front_is_process (scheduler (sv_world s)) \<and> server_callback D e s = Abort Std_terminate)"

lemma call_works:
  assumes "server_inv D s" and "slot_call D c path meth upload (sv_slots s i) (sv_world s) = (Val ok, k)"
    and "slot_collecting (d_limit D) (slot_after c path meth final ok k)"
  shows "\<exists>t. server_call D i c path meth upload final s = Val t \<and> server_inv D t"
proof -
  let ?t = "s\<lparr>sv_slots := (sv_slots s)(i := slot_after c path meth final ok k), sv_world := world k\<rparr>"
  have t: "server_call D i c path meth upload final s = Val ?t" using assms(2) by (simp add: server_call_def)
  from only_appends_run [OF slot_call_appends [OF assms(2)], where nd = "d_ndebug D" and K = "sv_kids s"]
  obtain fs where "loop_run (d_ndebug D) (actions_of s) fs (actions_of ?t)" by (auto simp add: actions_of_def)
  with assms(1) have "loop_inv (actions_of ?t)" by (auto simp add: server_inv_def intro: loop_run_inv)
  with t assms(1,3) show ?thesis by (auto simp add: server_inv_def)
qed

lemma server_event_works:
  assumes inv: "server_inv D s" and en: "server_enabled e s" and fit: "fits D e s"
    and create: "\<And>body. mhd_create (mhd (d_libs D)) body" and lim: "d_limit D < 2 ^ 64"
  shows "works D e s \<or> fork_fails D e s"
proof (cases e)
  case (Request_first i c path meth)
  with en inv have "sv_slots s i = free_slot" by (intro slot_inv_idle) (simp_all add: server_inv_def slot_collecting_def)
  with first_call_works [of D c path meth "sv_world s"] call_works [OF inv] Request_first
  show ?thesis by (fastforce simp add: works_def)
next
  case (Request_piece i p)
  with en obtain c path meth where ph: "sl_phase (sv_slots s i) = Receiving c path meth" "p \<noteq> []"
    by (auto split: phase.splits)
  have sc: "slot_collecting (d_limit D) (sv_slots s i)" using inv by (simp add: server_inv_def)
  have small: "length (content r) + length p \<le> d_limit D" if "sl_request (sv_slots s i) = Some r" for r
    using fit that Request_piece by simp
  from piece_call_works [OF ph(1) sc ph(2) small lim] obtain ok k
    where "slot_call D c path meth p (sv_slots s i) (sv_world s) = (Val ok, k)"
      "slot_collecting (d_limit D) (slot_after c path meth False ok k)" by blast
  from call_works [OF inv this] Request_piece ph show ?thesis by (simp add: works_def)
next
  case (Request_last i)
  with en obtain c path meth where ph: "sl_phase (sv_slots s i) = Receiving c path meth"
    by (auto split: phase.splits)
  have sc: "slot_collecting (d_limit D) (sv_slots s i)" using inv by (simp add: server_inv_def)
  from last_call_works [OF ph sc create] obtain ok k
    where "slot_call D c path meth [] (sv_slots s i) (sv_world s) = (Val ok, k)"
      "slot_collecting (d_limit D) (slot_after c path meth True ok k)" by blast
  from call_works [OF inv this] Request_last ph show ?thesis by (simp add: works_def)
next
  case (Request_completed i)
  with inv show ?thesis
    by (auto simp add: works_def server_inv_def completedCb_def actions_of_def simp flip: free_slot_def)
next
  case (Action_event f)
  with en inv enabled_event_runs [of "actions_of s" f "d_ndebug D"] show ?thesis
    by (auto simp add: works_def fork_fails_def server_inv_def action_callback_def actions_of_def bnd_Val_iff)
next
  case (Signal_event n)
  with inv deliver_signal_frame [of n s] show ?thesis by (simp add: works_def server_inv_def actions_of_def)
qed

lemma server_run_invariant:
  assumes "server_run (fits D) D (server_start ls w K) es s"
    and "loop_inv (actions_of (server_start ls w K :: 'c server_state))"
    and "\<And>body. mhd_create (mhd (d_libs D)) body" and "d_limit D < 2 ^ 64"
  shows "server_inv (D :: ('c, 'j) deployment) s"
  using assms(1)
proof (rule machine_run_inv)
  show "server_inv D (server_start ls w K)"
    using assms(2) by (simp add: server_inv_def server_start_def)
next
  fix s e t
  assume "server_inv D s" "server_step (fits D) D s e t"
  with server_event_works [OF _ _ _ assms(3,4), of s e] show "server_inv D t"
    by (auto simp add: server_step_iff works_def fork_fails_def)
qed

text \<open>
  No callback of the server fails: from every state the server can reach from its start with request
  bodies within the configured limit, every event that can occur - a call for any connection, a timer
  or a child of the action list, a signal - is handled to its end, with all assertions true and every
  pointer valid, whatever the build, the requests and their interleaving are. The one exception is a
  command that is due while \<open>fork\<close> fails.
\<close>

theorem server_callbacks_never_fail:
  assumes "server_run (fits D) D (server_start ls w K) es (s :: 'c server_state)"
    and "loop_inv \<lparr>acts = scheduler w, kids = K\<rparr>"
    and "\<And>body. mhd_create (mhd (d_libs D)) body" and "d_limit D < 2 ^ 64"
    and "server_enabled e s" and "fits D e s"
  shows "(\<exists>t. server_callback D e s = Val t) \<or> fork_fails D e s"
proof -
  have "loop_inv (actions_of (server_start ls w K :: 'c server_state))"
    using assms(2) by (simp add: actions_of_def server_start_def)
  from server_run_invariant [OF assms(1) this assms(3,4)] show ?thesis
    using server_event_works [OF _ assms(5,6,3,4)] by (auto simp add: works_def)
qed

theorem server_callbacks_never_fail_witness:
  "\<exists>t. server_callback site_deployment (Request_first 1 good_headers ''/status'' ''GET'') (site_final []) = Val t"
proof -
  have inv: "loop_inv \<lparr>acts = scheduler site_world, kids = {}\<rparr>"
    using initial_loop_inv by (simp add: site_world_def initial_loop_def)
  have lim: "d_limit site_deployment < 2 ^ 64" by (simp add: site_limit)
  have create: "mhd_create (mhd (d_libs site_deployment)) body" for body by (simp add: site_deployment_def)
  have "server_enabled (Request_first 1 good_headers ''/status'' ''GET'') (site_final [])"
    using site_final(3) [of "[]"] by simp
  from server_callbacks_never_fail [OF site_final(1) inv create lim this] show ?thesis
    by (simp add: fork_fails_def)
qed

section \<open>Only authorised requests reach the scheduler\<close>

text \<open>The request an event is a call for.\<close>

fun target_of :: "'c server_event \<Rightarrow> 'c server_state \<Rightarrow> ('c \<times> string \<times> string) option" where
  "target_of (Request_first i c path meth) s = Some (c, path, meth)"
| "target_of (Request_piece i p) s =
     (case sl_phase (sv_slots s i) of Receiving c path meth \<Rightarrow> Some (c, path, meth) | _ \<Rightarrow> None)"
| "target_of (Request_last i) s =
     (case sl_phase (sv_slots s i) of Receiving c path meth \<Rightarrow> Some (c, path, meth) | _ \<Rightarrow> None)"
| "target_of e s = None"

text \<open>A continuation waits in a slot only for an authorised request.\<close>

definition slot_guarded :: "('c, 'j) deployment \<Rightarrow> 'c slot \<Rightarrow> bool" where
  "slot_guarded D sl \<longleftrightarrow> (\<forall>c path meth r. sl_phase sl = Receiving c path meth \<longrightarrow> sl_request sl = Some r
     \<longrightarrow> rhandler r \<noteq> None \<longrightarrow> authorised (d_libs D) (d_handlers D) c path meth)"

lemma slot_call_guarded:
  assumes "slot_call D c path meth upload sl w = (res, k)"
    and "\<not> authorised (d_libs D) (d_handlers D) c path meth"
    and "\<And>r. sl_request sl = Some r \<Longrightarrow> rhandler r = None"
  shows "scheduler (world k) = scheduler w \<and> (\<forall>r. connCls k = Some r \<longrightarrow> rhandler r = None)"
proof -
  let ?g = "guarded (d_libs D) (d_handlers D) c path meth (scheduler w)"
  let ?s = "\<lparr>connCls = sl_request sl, queued_responses = sl_responses sl, world = w\<rparr>"
  have g: "?g ?s" using assms(3) by (simp add: guarded_def)
  from assms(1) have "?g k"
    unfolding slot_call_def
  proof (rule answerCb_step)
    fix r ok r'
    assume "connCls ?s = Some r" "addContent (d_ndebug D) (mhd (d_libs D)) upload r = Val (ok, r')"
      "k = ?s\<lparr>connCls := Some r'\<rparr>"
    with g addContent_handler show "?g k" by (fastforce simp add: guarded_def)
  qed (use g in \<open>auto dest: newRequest_guarded completeRequest_guarded\<close>)
  with assms(2) show ?thesis by (simp add: guarded_def)
qed

lemma server_step_guarded:
  assumes "server_step P D s e t" and "\<And>i. slot_inv (sv_slots s i)" and "\<And>i. slot_guarded D (sv_slots s i)"
  shows "slot_guarded D (sv_slots t i)"
    and "(\<forall>f. e \<noteq> Action_event f) \<Longrightarrow> scheduler (sv_world t) \<noteq> scheduler (sv_world s) \<Longrightarrow>
      \<exists>c path meth. target_of e s = Some (c, path, meth) \<and> authorised (d_libs D) (d_handlers D) c path meth"
proof -
  have "slot_guarded D (sv_slots t i)
     \<and> ((\<forall>f. e \<noteq> Action_event f) \<longrightarrow> scheduler (sv_world t) \<noteq> scheduler (sv_world s) \<longrightarrow>
          (\<exists>c path meth. target_of e s = Some (c, path, meth) \<and> authorised (d_libs D) (d_handlers D) c path meth))"
    using assms(1)
  proof (cases rule: server_step_cases)
    case (call j c path meth upload final ok k)
    show ?thesis
    proof (cases "authorised (d_libs D) (d_handlers D) c path meth")
      case True
      with call assms(3) [of i] show ?thesis
        by (cases "i = j") (auto simp add: slot_guarded_def slot_after_def)
    next
      case False
      have "rhandler r = None" if "sl_request (sv_slots s j) = Some r" for r
        using call(3) assms(2,3) [of j] that False slot_inv_idle [of "sv_slots s j"]
        by (auto simp add: slot_guarded_def)
      from slot_call_guarded [OF call(1) False this]
      have "scheduler (world k) = scheduler (sv_world s)" "\<forall>r. connCls k = Some r \<longrightarrow> rhandler r = None" by auto
      with call(2) assms(3) [of i] show ?thesis
        by (cases "i = j") (auto simp add: slot_guarded_def slot_after_def)
    qed
  next
    case (completed j)
    with assms(3) [of i] show ?thesis by (cases "i = j") (auto simp add: slot_guarded_def)
  next
    case other
    with assms(3) show ?thesis by auto
  qed
  then show "slot_guarded D (sv_slots t i)" and "(\<forall>f. e \<noteq> Action_event f) \<Longrightarrow> scheduler (sv_world t) \<noteq> scheduler (sv_world s) \<Longrightarrow>
      \<exists>c path meth. target_of e s = Some (c, path, meth) \<and> authorised (d_libs D) (d_handlers D) c path meth"
    by blast+
qed

lemma server_run_guarded:
  assumes "server_run P D (server_start ls w K) es s"
  shows "slot_guarded D (sv_slots s i)"
proof -
  have "(\<forall>i. slot_inv (sv_slots s i)) \<and> (\<forall>i. slot_guarded D (sv_slots s i))"
    using assms
    by (rule machine_run_inv)
      (auto simp add: server_start_def slot_guarded_def [of D free_slot] intro: server_step_slots server_step_guarded(1))
  then show ?thesis by simp
qed

text \<open>
  (C4) Only authorised requests reach the scheduler, whatever else is going on: if an event other than one
  of the action list changes it, the event is a call for a request that is a POST for the configured
  path of its hook, with a token that is not empty, and some hook of the chain has that token and
  admits the address of the peer. In particular no other connection's credentials are ever used.
\<close>

theorem only_authorised_calls_schedule:
  assumes "server_run any_event D (server_start ls w K) es s" and "server_step any_event D s e t"
    and "\<And>f. e \<noteq> Action_event f" and "scheduler (sv_world t) \<noteq> scheduler (sv_world s)"
  shows "\<exists>c path meth. target_of e s = Some (c, path, meth) \<and> authorised (d_libs D) (d_handlers D) c path meth"
  using server_step_guarded(2) [OF assms(2) server_run_slots [OF assms(1)] server_run_guarded [OF assms(1)]]
    assms(3,4) by blast

theorem only_authorised_calls_schedule_witness:
  "target_of (Request_last 0) (site_before []) = Some (good_headers, ''/api/deploy'', ''POST'')
     \<and> authorised site site_handlers good_headers ''/api/deploy'' ''POST''"
proof -
  have t: "target_of (Request_last 0) (site_before []) = Some (good_headers, ''/api/deploy'', ''POST'')"
    using site_before(3) [of "[]"] by simp
  have "names (scheduler (sv_world (site_final []))) \<noteq> names (scheduler (sv_world (site_before [])))"
    using site_final(5) [of "[]"] site_before(2) [of "[]"] by (simp add: actions_of_def names_def initial_actions_def)
  then have "scheduler (sv_world (site_final [])) \<noteq> scheduler (sv_world (site_before []))" by metis
  from only_authorised_calls_schedule [OF site_before(1,4) _ this] t show ?thesis
    by (simp add: site_deployment_def)
qed

end
