(* ===== verification/Connection_Alone.thy ===== *)
theory Connection_Alone
  imports Server_Facts Hook_Facts
begin

text \<open>
  Connections do not influence each other: what a connection is answered by a hook depends on its own
  calls only, not on the other connections, on the jobs that are scheduled or running, or on the
  counters. (The status page shows the counters, so it is the one handler this does not hold for.)
\<close>

section \<open>The handlers' answers do not depend on the state\<close>

lemma chain_loop_independent:
  "fst (chain_loop J token peer event js ls count w) = fst (chain_loop J token peer event js ls count w')"
proof -
  obtain res1 w1 res2 w2 where c: "chain_loop J token peer event js ls count w = (res1, w1)"
    "chain_loop J token peer event js ls count w' = (res2, w2)" by (metis prod.exhaust)
  from chain_loop_decisions [OF c(1)] chain_loop_decisions [OF c(2)] c show ?thesis by simp
qed

lemma then_do_independent:
  "fst p = fst p' \<Longrightarrow> (\<And>x s s'. fst (f x s) = fst (f x s')) \<Longrightarrow> fst (then_do p f) = fst (then_do p' f)"
  by (cases "(p, f)" rule: then_do.cases; cases "(p', f)" rule: then_do.cases) auto

lemma process_content_independent:
  "fst (process_content nd S h peer r w) = fst (process_content nd S h peer r w')"
  unfolding process_content_def Let_def
  by (intro then_do_independent chain_loop_independent) simp_all

definition same_answer :: "unit res \<times> 'r \<times> world \<Rightarrow> unit res \<times> 'r \<times> world \<Rightarrow> bool" where
  "same_answer p q \<longleftrightarrow> fst p = fst q \<and> fst (snd p) = fst (snd q)"

lemma same_answer_with_world: "same_answer (with_world w p) (with_world w' p)"
  by (cases p) (simp add: same_answer_def)

lemma same_answer_terminate: "same_answer p q \<Longrightarrow> same_answer (terminate_on_throw p) (terminate_on_throw q)"
  by (cases p; cases q) (simp add: same_answer_def)

lemma hook_continue_independent: "same_answer (hook_continue nd S k r w) (hook_continue nd S k r w')"
proof -
  obtain h peer where k: "k = Continue h peer" by (cases k)
  obtain res w1 w2 where p: "process_content nd S h peer r w = (res, w1)"
    "process_content nd S h peer r w' = (res, w2)"
    using process_content_independent [of nd S h peer r w w'] by (metis prod.exhaust fst_conv)
  have pair: "same_answer (x, r', w1) (x, r', w2)" for x r' by (simp add: same_answer_def)
  show ?thesis
    unfolding hook_continue_def k continuation.case
    by (rule same_answer_terminate)
      (simp add: p pair same_answer_with_world split: res.split option.split prod.split)
qed

lemma hook_call_independent: "same_answer (hook_call nd S h r w) (hook_call nd S h r w')"
  by (auto simp add: hook_call_def Let_def same_answer_with_world same_answer_def [of "(_, _)"] split: res.split)

section \<open>The call of a slot\<close>

text \<open>The result and the slot's part of it.\<close>

definition same_view :: "bool res \<times> ('c, continuation, world) connection \<Rightarrow> bool res \<times> ('c, continuation, world) connection \<Rightarrow> bool" where
  "same_view p q \<longleftrightarrow> fst p = fst q \<and> connCls (snd p) = connCls (snd q)
     \<and> queued_responses (snd p) = queued_responses (snd q)"

definition status_path :: "('c, 'j) deployment \<Rightarrow> string \<Rightarrow> bool" where
  "status_path D path \<longleftrightarrow> (\<exists>start. find_handler (d_handlers D) path = Val (Some (Status_handler start)))"

lemma same_view_no_on_throw: "same_view p q \<Longrightarrow> same_view (mhd_no_on_throw p) (mhd_no_on_throw q)"
  by (cases p rule: mhd_no_on_throw.cases; cases q rule: mhd_no_on_throw.cases) (auto simp add: same_view_def)

lemma newRequest_independent:
  assumes "\<And>start. find_handler hs path \<noteq> Val (Some (Status_handler start))"
  shows "same_view (newRequest nd M (run_handler nd S tt v) hs limit c path meth \<lparr>connCls = x, queued_responses = out, world = w\<rparr>)
    (newRequest nd M (run_handler nd S tt v) hs limit c path meth \<lparr>connCls = x, queued_responses = out, world = w'\<rparr>)"
proof (cases "methodFrom meth = M_none \<or> find_handler hs path = Val None")
  case True
  then show ?thesis
    by (auto simp add: newRequest_def Let_def same_view_def split: prod.split)
next
  case False
  then obtain f where "methodFrom meth \<noteq> M_none" and f: "find_handler hs path = Val (Some f)"
    using find_handler_total [of hs path] by auto
  moreover from f assms obtain h where "f = Hook_handler h" by (cases f) auto
  moreover obtain res r w1 w2 where
    "hook_call nd S h (fresh_request c (methodFrom meth) path limit) w = (res, r, w1)"
    "hook_call nd S h (fresh_request c (methodFrom meth) path limit) w' = (res, r, w2)"
    using hook_call_independent [of nd S h "fresh_request c (methodFrom meth) path limit" w w']
    unfolding same_answer_def by (metis prod.collapse)
  ultimately show ?thesis
    by (simp add: newRequest_def run_handler_def same_view_def Let_def split: res.split prod.split)
qed

lemma completeRequest_independent:
  "same_view (completeRequest nd M (hook_continue nd S) c r \<lparr>connCls = x, queued_responses = out, world = w\<rparr>)
    (completeRequest nd M (hook_continue nd S) c r \<lparr>connCls = x, queued_responses = out, world = w'\<rparr>)"
proof (cases "rhandler r")
  case None
  then show ?thesis by (simp add: completeRequest_def same_view_def Let_def split: res.split)
next
  case (Some k)
  obtain res r' w1 w2 where
    "hook_continue nd S k (r\<lparr>rstate := Completed\<rparr>) w = (res, r', w1)"
    "hook_continue nd S k (r\<lparr>rstate := Completed\<rparr>) w' = (res, r', w2)"
    using hook_continue_independent [of nd S k "r\<lparr>rstate := Completed\<rparr>" w w']
    unfolding same_answer_def by (metis prod.collapse)
  with Some show ?thesis
    by (simp add: completeRequest_def same_view_def Let_def split: res.split prod.split)
qed

lemma slot_call_independent:
  assumes "sl_request sl = None \<Longrightarrow> \<not> status_path D path"
  shows "same_view (slot_call D c path meth upload sl w) (slot_call D c path meth upload sl w')"
proof (cases "sl_request sl")
  case None
  have "\<And>start. find_handler (d_handlers D) path \<noteq> Val (Some (Status_handler start))"
    using assms [OF None] by (simp add: status_path_def)
  from newRequest_independent [OF this] show ?thesis
    unfolding slot_call_def answerCb_def None by (intro same_view_no_on_throw) simp
next
  case (Some r)
  show ?thesis
  proof (cases "upload = []")
    case True
    with Some completeRequest_independent show ?thesis
      unfolding slot_call_def answerCb_def Some by (intro same_view_no_on_throw) simp
  next
    case False
    with Some show ?thesis
      unfolding slot_call_def answerCb_def Some
      by (intro same_view_no_on_throw) (simp add: same_view_def split: res.split prod.split)
  qed
qed

section \<open>A connection on its own\<close>

text \<open>The calls for one connection, applied to its slot in a program where nothing else happens.\<close>

definition quiet_world :: world where
  "quiet_world = \<lparr>hooksRequests = 0, hooksGoodRequests = 0, hooksScheduled = 0, scheduler = initial_actions\<rparr>"

definition slot_result :: "('c, 'j) deployment \<Rightarrow> 'c \<Rightarrow> string \<Rightarrow> string \<Rightarrow> string \<Rightarrow> bool \<Rightarrow> 'c slot \<Rightarrow> 'c slot" where
  "slot_result D c path meth upload final sl =
     (case slot_call D c path meth upload sl quiet_world of
        (Val ok, k) \<Rightarrow> slot_after c path meth final ok k
      | _ \<Rightarrow> sl)"

fun slot_event :: "('c, 'j) deployment \<Rightarrow> 'c server_event \<Rightarrow> 'c slot \<Rightarrow> 'c slot" where
  "slot_event D (Request_first i c path meth) sl = slot_result D c path meth [] False sl"
| "slot_event D (Request_piece i p) sl =
     (case sl_phase sl of Receiving c path meth \<Rightarrow> slot_result D c path meth p False sl | _ \<Rightarrow> sl)"
| "slot_event D (Request_last i) sl =
     (case sl_phase sl of Receiving c path meth \<Rightarrow> slot_result D c path meth [] True sl | _ \<Rightarrow> sl)"
| "slot_event D (Request_completed i) sl = free_slot"
| "slot_event D e sl = sl"

fun concerns :: "nat \<Rightarrow> 'c server_event \<Rightarrow> bool" where
  "concerns i (Request_first j c path meth) = (j = i)"
| "concerns i (Request_piece j p) = (j = i)"
| "concerns i (Request_last j) = (j = i)"
| "concerns i (Request_completed j) = (j = i)"
| "concerns i e = False"

lemma slot_result_call:
  assumes "slot_call D c path meth upload sl w = (Val ok, k)" and "sl_request sl = None \<Longrightarrow> \<not> status_path D path"
  shows "slot_result D c path meth upload final sl = slot_after c path meth final ok k"
proof -
  obtain k' where "slot_call D c path meth upload sl quiet_world = (Val ok, k')" "connCls k' = connCls k"
    "queued_responses k' = queued_responses k"
    using slot_call_independent [OF assms(2), of sl c meth upload w quiet_world] assms(1)
    unfolding same_view_def by (metis fst_conv snd_conv prod.collapse)
  then show ?thesis by (simp add: slot_result_def slot_after_def)
qed

lemma server_step_slot:
  assumes "server_step P D s e t" and "\<And>i. slot_inv (sv_slots s i)"
    and "\<And>c path meth. e = Request_first i c path meth \<Longrightarrow> \<not> status_path D path"
  shows "sv_slots t i = (if concerns i e then slot_event D e (sv_slots s i) else sv_slots s i)"
  using assms(1)
proof (cases rule: server_step_cases)
  case (call j c path meth upload final ok k)
  show ?thesis
  proof (cases "j = i")
    case True
    then have "sl_request (sv_slots s j) = None \<Longrightarrow> \<not> status_path D path"
      using call(3) assms(2) [of j] assms(3) by (auto simp add: slot_inv_def)
    from slot_result_call [OF call(1) this] call(2,3) True show ?thesis by auto
  next
    case False
    with call(2,3) show ?thesis by auto
  qed
next
  case (completed j)
  then show ?thesis by simp
next
  case other
  then show ?thesis by auto
qed

text \<open>
  (C7) Every connection is served as if it were alone: after any run of the server, in which the calls of
  any number of connections are interleaved with each other and with the callbacks of the action list,
  the request and the responses of a connection are those of its own calls alone, made in order in a
  program in which nothing else happens. Only this connection must not ask for the status page, which shows
  the counters; the others may, and may do whatever else they like.
\<close>

theorem connection_served_as_if_alone:
  assumes "server_run any_event D (server_start ls w K) es t"
    and "\<And>c path meth. Request_first i c path meth \<in> set es \<Longrightarrow> \<not> status_path D path"
  shows "sv_slots t i = fold (slot_event D) (filter (concerns i) es) free_slot"
  using assms
proof (induction rule: machine_run.induct)
  case mr_nil
  then show ?case by (simp add: server_start_def)
next
  case (mr_snoc es t e u)
  have "sv_slots u i = (if concerns i e then slot_event D e (sv_slots t i) else sv_slots t i)"
    using mr_snoc.hyps(2) server_run_slots [OF mr_snoc.hyps(1)] by (rule server_step_slot) (use mr_snoc.prems in auto)
  moreover have "sv_slots t i = fold (slot_event D) (filter (concerns i) es) free_slot"
    by (rule mr_snoc.IH) (use mr_snoc.prems in auto)
  ultimately show ?case by simp
qed

theorem connection_served_as_if_alone_witness:
  "sl_responses (fold (slot_event site_deployment)
     [Request_first 0 good_headers ''/api/deploy'' ''POST'', Request_piece 0 ''pipeline event'', Request_last 0] free_slot)
   = [(C_accepted, ''accepted'')]"
proof -
  have "\<not> status_path site_deployment ''/api/deploy''"
    by (simp add: status_path_def site_deployment_def)
  then have "sv_slots (site_final []) 0 = fold (slot_event site_deployment) (filter (concerns 0) site_events) free_slot"
    by (intro connection_served_as_if_alone [OF site_final_any]) (auto simp add: site_events_def site_prefix_def)
  with site_final(2) [of "[]"] show ?thesis
    by (simp add: site_events_def site_prefix_def)
qed

end
