(* ===== verification/Server_Progress.thy ===== *)
theory Server_Progress
  imports Server_Facts Job_Queue
begin

text \<open>
  Progress and bookkeeping of the running server: the queue can always be emptied by the events of the
  action list alone, the counters of the status page agree with the queue, and no exception leaves a
  callback.
\<close>

section \<open>Runs of the action list within the server\<close>

lemma action_step:
  assumes "loop_step (d_ndebug D) (actions_of s) e u" and "from_libevent e"
  shows "\<exists>t. server_step any_event D s (Action_event e) t \<and> actions_of t = u \<and> sv_slots t = sv_slots s"
proof -
  from assms(1) obtain a where a: "enabled e (actions_of s)" "run_event (d_ndebug D) e (scheduler (sv_world s)) = Val a"
    "u = \<lparr>acts = a, kids = kids_after e (actions_of s)\<rparr>" by (auto simp add: loop_step_iff actions_of_def)
  then show ?thesis
    using assms(2) by (simp add: server_step_iff action_callback_def actions_of_def)
qed

lemma action_run:
  assumes "loop_run (d_ndebug D) (actions_of s) fs u" and "\<forall>f\<in>set fs. from_libevent f"
  shows "\<exists>t. server_run any_event D s (map Action_event fs) t \<and> actions_of t = u \<and> sv_slots t = sv_slots s"
  using assms
proof (induction rule: loop_run.induct)
  case run_nil
  then show ?case by (auto intro: mr_nil)
next
  case (run_snoc fs t f u)
  then obtain v where v: "server_run any_event D s (map Action_event fs) v" "actions_of v = t" "sv_slots v = sv_slots s"
    by auto
  with action_step [of D v f u] run_snoc obtain x where
    "server_step any_event D v (Action_event f) x" "actions_of x = u" "sv_slots x = sv_slots v" by auto
  with v show ?case by (auto intro: mr_snoc)
qed

section \<open>The queue can be emptied\<close>

text \<open>The exec event with a successful \<open>fork\<close>, and the two timers.\<close>

fun drives_queue :: "'f event \<Rightarrow> bool" where
  "drives_queue (Ev_exec w) = (fork_result w \<noteq> - 1)"
| "drives_queue Ev_timeout = True"
| "drives_queue (Ev_kill w) = True"
| "drives_queue e = False"

lemma finite_kids_step: "loop_step nd s e t \<Longrightarrow> finite (kids s) \<Longrightarrow> finite (kids t)"
  by (cases e) (auto simp add: loop_step_iff)

lemma finite_kids: "loop_run nd s es t \<Longrightarrow> finite (kids s) \<Longrightarrow> finite (kids t)"
  by (induction rule: loop_run.induct) (auto intro: finite_kids_step)

lemma loop_drains:
  assumes "loop_inv s" and "finite (kids s)"
  shows "\<exists>fs t. (\<forall>f\<in>set fs. drives_queue f) \<and> length fs \<le> 3 * length (names (acts s))
     \<and> loop_run nd s fs t \<and> names (acts t) = []"
  using assms
proof (induction "names (acts s)" arbitrary: s)
  case Nil
  then show ?case by (intro exI [of _ "[]"] exI [of _ s]) (simp add: run_nil)
next
  case (Cons nm ns)
  have "infinite {k::int. 0 < k}" by (rule infinite_super [OF _ infinite_Ioi [of 0]]) auto
  with Cons.prems(2) obtain k where k: "0 < k" "k \<notin> kids s"
    by (metis (no_types, lifting) finite_subset mem_Collect_eq subsetI)
  let ?w = "\<lparr>fork_result = k, thrown_by = (\<lambda>_. None), now = 0, reaped = (\<lambda>_. False)\<rparr>"
  have "names (acts s) \<noteq> []" using Cons.hyps(2) by (metis list.distinct(1))
  from front_drains [OF Cons.prems(1) this, of ?w nd] k obtain fs t where
    fs: "set fs \<subseteq> {Ev_exec ?w, Ev_timeout, Ev_kill ?w}" "length fs \<le> 3" "loop_run nd s fs t"
    and t: "names (acts t) = ns" using Cons.hyps(2) by (metis outside.select_convs(1) list.sel(3))
  have "loop_inv t" "finite (kids t)"
    using fs(3) Cons.prems by (auto intro: loop_run_inv finite_kids)
  from Cons.hyps(1) [OF t [symmetric] this] obtain gs u where
    gs: "\<forall>f\<in>set gs. drives_queue f" "length gs \<le> 3 * length ns" "loop_run nd t gs u" "names (acts u) = []"
    using t by auto
  have "loop_run nd s (fs @ gs) u" using fs(3) gs(3) by (rule loop_run_append)
  moreover have "\<forall>f\<in>set (fs @ gs). drives_queue f" using fs(1) gs(1) k(1) by auto
  moreover have "length (fs @ gs) \<le> 3 * length (names (acts s))" using fs(2) gs(2) Cons.hyps(2) [symmetric] by simp
  ultimately show ?case using gs(4) by blast
qed

lemma server_start_actions: "actions_of (server_start ls w K) = \<lparr>acts = scheduler w, kids = K\<rparr>"
  by (simp add: actions_of_def server_start_def)

lemma reached_actions:
  assumes "server_run P D (server_start ls w K) es s" and "loop_inv \<lparr>acts = scheduler w, kids = K\<rparr>"
  shows "loop_inv (actions_of s)" and "finite K \<Longrightarrow> finite (sv_kids s)"
proof -
  from sim.steps_simulated [OF assms(1)] obtain fs where
    r: "loop_run (d_ndebug D) \<lparr>acts = scheduler w, kids = K\<rparr> fs (actions_of s)" by (auto simp add: server_start_actions)
  from r assms(2) show "loop_inv (actions_of s)" by (rule loop_run_inv)
  from finite_kids [OF r] show "finite K \<Longrightarrow> finite (sv_kids s)" by (simp add: actions_of_def)
qed

text \<open>
  The queue of the running server can always be emptied: in every state the server can reach, however
  many hooks are queued and whatever their commands do, at most three callbacks of the action list
  per hook - the exec event and the two timers, while \<open>fork\<close> works - leave nothing queued. No child
  has to end for that, and no connection is involved.
\<close>

theorem server_queue_drains:
  assumes "server_run any_event D (server_start ls w K) es s"
    and "loop_inv \<lparr>acts = scheduler w, kids = K\<rparr>" and "finite K"
  shows "\<exists>fs t. server_run any_event D s (map Action_event fs) t \<and> (\<forall>f\<in>set fs. drives_queue f)
     \<and> length fs \<le> 3 * length (actions (scheduler (sv_world s)))
     \<and> actions (scheduler (sv_world t)) = [] \<and> sv_slots t = sv_slots s"
proof -
  note r = reached_actions [OF assms(1,2)]
  have "finite (kids (actions_of s))" using r(2) assms(3) by (simp add: actions_of_def)
  from loop_drains [OF r(1) this, of "d_ndebug D"] obtain fs u where
    fs: "\<forall>f\<in>set fs. drives_queue f" "length fs \<le> 3 * length (names (acts (actions_of s)))"
    "loop_run (d_ndebug D) (actions_of s) fs u" "names (acts u) = []" by blast
  have "from_libevent f" if "drives_queue f" for f :: "callable event" using that by (cases f) simp_all
  with fs(1) have "\<forall>f\<in>set fs. from_libevent f" by blast
  from action_run [OF fs(3) this] obtain t where
    "server_run any_event D s (map Action_event fs) t" "actions_of t = u" "sv_slots t = sv_slots s" by blast
  with fs show ?thesis by (intro exI [of _ fs] exI [of _ t]) (auto simp add: actions_of_def names_def)
qed

theorem server_queue_drains_witness:
  "names (scheduler (sv_world (site_final []))) = [''debug'', ''deploy'']
   \<and> (\<exists>fs t. server_run any_event site_deployment (site_final []) (map Action_event fs) t \<and> length fs \<le> 6
        \<and> actions (scheduler (sv_world t)) = [])"
proof -
  have "loop_inv \<lparr>acts = scheduler site_world, kids = {}\<rparr>"
    using initial_loop_inv by (simp add: site_world_def initial_loop_def)
  moreover have n: "names (scheduler (sv_world (site_final []))) = [''debug'', ''deploy'']"
    using site_final(5) [of "[]"] by (simp add: actions_of_def)
  then have "length (actions (scheduler (sv_world (site_final [])))) = 2"
    by (metis length_map list.size(3,4) names_def One_nat_def Suc_1 plus_1_eq_Suc add.commute)
  ultimately show ?thesis using server_queue_drains [OF site_final_any, of "[]"] n by fastforce
qed

text \<open>
  (C13) Every scheduled job can be started, unchanged and in order: in every state the server can reach there
  is a continuation by callbacks of the action list alone, at most three per queued hook while \<open>fork\<close>
  works, in which exactly the jobs that were waiting are started, each once, in the order of the queue
  and with the program, arguments, environment and user they were scheduled with; nothing is left
  queued. No child has to end for that, and no connection is involved.
\<close>

theorem waiting_jobs_get_started:
  assumes "server_run any_event D (server_start ls w K) es s"
    and "loop_inv \<lparr>acts = scheduler w, kids = K\<rparr>" and "finite K"
  shows "\<exists>fs t. server_run any_event D s (map Action_event fs) t \<and> (\<forall>f\<in>set fs. drives_queue f)
     \<and> length fs \<le> 3 * length (actions (scheduler (sv_world s)))
     \<and> traced (loop_step (d_ndebug D)) started_jobs (actions_of s) fs (unstarted_jobs (actions_of s)) (actions_of t)
     \<and> actions (scheduler (sv_world t)) = []"
proof -
  note r = reached_actions [OF assms(1,2)]
  have "finite (kids (actions_of s))" using r(2) assms(3) by (simp add: actions_of_def)
  from loop_drains [OF r(1) this, of "d_ndebug D"] obtain fs u where
    fs: "\<forall>f\<in>set fs. drives_queue f" "length fs \<le> 3 * length (names (acts (actions_of s)))"
    "loop_run (d_ndebug D) (actions_of s) fs u" "names (acts u) = []" by blast
  have "from_libevent f \<and> \<not> appends_job f" if "drives_queue f" for f :: "callable event" using that by (cases f) simp_all
  with fs(1) have lib: "\<forall>f\<in>set fs. from_libevent f" "\<forall>f\<in>set fs. \<not> appends_job f" by blast+
  from action_run [OF fs(3) lib(1)] obtain t where
    t: "server_run any_event D s (map Action_event fs) t" "actions_of t = u" by blast
  from traced_loop_run_ex [OF fs(3)] obtain js where
    js: "traced (loop_step (d_ndebug D)) started_jobs (actions_of s) fs js u" by blast
  from drained_jobs_started [OF js r(1) lib(2) fs(4)] js t fs(1,2,4) show ?thesis
    by (intro exI [of _ fs] exI [of _ t]) (auto simp add: actions_of_def names_def)
qed

theorem waiting_jobs_get_started_witness:
  "length (unstarted_jobs (actions_of (site_final []))) = 2
   \<and> (\<exists>fs t. server_run any_event site_deployment (site_final []) (map Action_event fs) t
        \<and> traced (loop_step False) started_jobs (actions_of (site_final [])) fs
            (unstarted_jobs (actions_of (site_final []))) (actions_of t))"
proof -
  have inv: "loop_inv \<lparr>acts = scheduler site_world, kids = {}\<rparr>"
    using initial_loop_inv by (simp add: site_world_def initial_loop_def)
  have "sv_kids (site_final []) = {}" by (rule site_final(6))
  with reached_actions(1) [OF site_final_any [of "[]"] inv] have "\<not> busy (acts (actions_of (site_final [])))"
    by (auto simp add: loop_inv_def running_def waiting_def busy_def actions_of_def)
  moreover have "length (jobs_of (acts (actions_of (site_final [])))) = 2" by (simp add: site_final(5))
  ultimately show ?thesis
    using waiting_jobs_get_started [OF site_final_any [of "[]"] inv]
    by (auto simp add: unstarted_jobs_def site_deployment_def)
qed

section \<open>The numbers of the status page\<close>

text \<open>Only the exec event counts an executed hook.\<close>

lemma pop_front_executed: "pop_front polls s = Val t \<Longrightarrow> actionsExecuted t = actionsExecuted s"
  by (auto simp add: pop_front_def res_simps split: list.splits option.splits)

lemma finish_executed: "finishExecuteAction polls s = Val t \<Longrightarrow> actionsExecuted t = actionsExecuted s"
  by (auto simp add: finishExecuteAction_def res_simps dest: pop_front_executed)

lemma completion_executed: "run_completion w h error code s = Val t \<Longrightarrow> actionsExecuted t = actionsExecuted s"
  by (auto simp add: run_completion_def Let_def add_failure_def split: if_splits dest: finish_executed)

lemma noexcept_Val: "noexcept r = Val x \<longleftrightarrow> r = Val x"
  by (cases r) simp_all

lemma child_signal_executed: "childSignal nd w ws s = Val t \<Longrightarrow> actionsExecuted t = actionsExecuted s"
  unfolding childSignal_def
  by (induction ws arbitrary: s)
    (auto simp add: res_simps noexcept_Val split: if_splits option.splits dest!: completion_executed)

lemma exec_executed:
  assumes "executeNextAction nd w s = Val t"
  shows "actionsExecuted t = actionsExecuted s + 1 \<and> names s \<noteq> []"
  using assms
  by (auto simp add: executeNextAction_def noexcept_Val res_simps executeProcess_def executeFunction_def Let_def
      add_failure_def names_def split: list.splits option.splits dest!: finish_executed)

lemma event_executed:
  "run_event nd e s = Val t \<Longrightarrow> (\<And>w. e \<noteq> Ev_exec w) \<Longrightarrow> actionsExecuted t = actionsExecuted s"
  by (cases e) (auto simp add: schedule_command_eq append_process_def append_function_def append_item_def Let_def
      terminateCurrentAction_def killCurrentAction_def noexcept_Val res_simps
      dest!: child_signal_executed pop_front_executed)

lemma step_executed:
  assumes "loop_step nd s e t"
  shows "actionsExecuted (acts t) = actionsExecuted (acts s) + of_nat (length (started s e))"
proof (cases "\<exists>w. e = Ev_exec w")
  case True
  then obtain w where e: "e = Ev_exec w" by blast
  with assms have "executeNextAction nd w ((acts s)\<lparr>execEv := False\<rparr>) = Val (acts t)" by (auto simp add: loop_step_iff)
  from exec_executed [OF this] e show ?thesis by (cases "names (acts s)") (auto simp add: front_names_def names_def)
next
  case False
  with assms event_executed [of nd e "acts s" "acts t"] have "actionsExecuted (acts t) = actionsExecuted (acts s)"
    by (auto simp add: loop_step_iff)
  moreover have "started s e = []" using False by (cases e) auto
  ultimately show ?thesis by simp
qed

text \<open>Scheduled minus started minus waiting is what no step changes.\<close>

definition balance :: "world \<Rightarrow> int set \<Rightarrow> size_t" where
  "balance w K = hooksScheduled w - actionsExecuted (scheduler w)
     - of_nat (length (unstarted \<lparr>acts = scheduler w, kids = K\<rparr>))"

lemma added_libevent: "from_libevent e \<Longrightarrow> added e = []" "\<not> from_libevent e \<Longrightarrow> length (added e) = 1 \<and> started s e = []"
  by (cases e; simp)+

lemma append_run_counts:
  assumes "loop_run nd s fs t" and "loop_inv s" and "\<forall>f\<in>set fs. \<not> from_libevent f"
  shows "actionsExecuted (acts t) = actionsExecuted (acts s) \<and> length (unstarted t) = length (unstarted s) + length fs"
  using assms
proof (induction rule: loop_run.induct)
  case (run_snoc fs t f u)
  have "loop_inv t" using run_snoc.hyps(1) run_snoc.prems(1) by (rule loop_run_inv)
  from loop_step_effect(3) [OF this run_snoc.hyps(2)] added_libevent(2) [of f t] run_snoc.prems(2)
  have "length (unstarted u) = length (unstarted t) + 1" by (auto dest: arg_cong [where f = length])
  with run_snoc step_executed [OF run_snoc.hyps(2)] added_libevent(2) [of f t] show ?case by simp
qed simp

lemma only_appends_balance:
  assumes "only_appends w w'" and "loop_inv \<lparr>acts = scheduler w, kids = K\<rparr>"
  shows "balance w' K = balance w K"
proof -
  from assms(1) obtain es where es: "\<forall>e\<in>set es. \<not> from_libevent e"
    "hooksScheduled w' = hooksScheduled w + of_nat (length es)"
    "run_events True es \<lparr>acts = scheduler w, kids = K\<rparr> = Some \<lparr>acts = scheduler w', kids = K\<rparr>"
    by (auto simp add: only_appends_def)
  from append_run_counts [OF run_events_loop_run [OF es(3)] assms(2) es(1)] es(2) show ?thesis
    by (simp add: balance_def)
qed

lemma action_step_balance:
  assumes "loop_step nd \<lparr>acts = scheduler w, kids = K\<rparr> e \<lparr>acts = a, kids = K'\<rparr>" and "from_libevent e"
    and "loop_inv \<lparr>acts = scheduler w, kids = K\<rparr>"
  shows "balance (w\<lparr>scheduler := a\<rparr>) K' = balance w K"
proof -
  let ?s = "\<lparr>acts = scheduler w, kids = K\<rparr>"
  have "unstarted ?s = started ?s e @ unstarted \<lparr>acts = a, kids = K'\<rparr>"
    using loop_step_effect(3) [OF assms(3,1)] added_libevent(1) [OF assms(2)] by simp
  then have "of_nat (length (unstarted ?s)) =
      of_nat (length (started ?s e)) + (of_nat (length (unstarted \<lparr>acts = a, kids = K'\<rparr>)) :: size_t)"
    by (simp only: length_append of_nat_add)
  with step_executed [OF assms(1)] show ?thesis by (simp add: balance_def)
qed

lemma server_step_balance:
  assumes "server_step P D s e t" and "loop_inv (actions_of s)"
  shows "balance (sv_world t) (sv_kids t) = balance (sv_world s) (sv_kids s)"
proof -
  from assms(1) have en: "server_enabled e s" and cb: "server_callback D e s = Val t"
    by (auto simp add: server_step_iff)
  have inv: "loop_inv \<lparr>acts = scheduler (sv_world s), kids = sv_kids s\<rparr>"
    using assms(2) by (simp add: actions_of_def)
  show ?thesis
    using assms(1)
  proof (cases rule: server_step_cases)
    case (call i c path meth upload final ok k)
    with only_appends_balance [OF slot_call_appends [OF call(1)] inv] show ?thesis by simp
  next
    case (completed i)
    then show ?thesis by simp
  next
    case other
    show ?thesis
    proof (cases "\<exists>f. e = Action_event f")
      case True
      then obtain f where f: "e = Action_event f" by blast
      with cb obtain a where a: "run_event (d_ndebug D) f (scheduler (sv_world s)) = Val a"
        "t = s\<lparr>sv_world := (sv_world s)\<lparr>scheduler := a\<rparr>, sv_kids := kids_after f (actions_of s)\<rparr>"
        by (auto simp add: action_callback_def bnd_Val_iff)
      with f en have "loop_step (d_ndebug D) \<lparr>acts = scheduler (sv_world s), kids = sv_kids s\<rparr> f
          \<lparr>acts = a, kids = kids_after f (actions_of s)\<rparr>" and "from_libevent f"
        by (auto simp add: loop_step_iff actions_of_def)
      from action_step_balance [OF this inv] a(2) show ?thesis by simp
    next
      case False
      with other(2) obtain n where "e = Signal_event n" by blast
      with cb deliver_signal_frame [of n s] show ?thesis by auto
    qed
  qed
qed

lemma counters_balance:
  assumes "server_run any_event D (server_start ls w K) es t"
    and "loop_inv \<lparr>acts = scheduler w, kids = K\<rparr>" and "actions (scheduler w) = []"
  shows "hooksScheduled (sv_world t) - hooksScheduled w
     = (actionsExecuted (scheduler (sv_world t)) - actionsExecuted (scheduler w))
       + of_nat (length (unstarted (actions_of t)))"
proof -
  have "loop_inv (actions_of t) \<and> balance (sv_world t) (sv_kids t) = balance w K"
    using assms(1)
  proof (rule machine_run_inv)
    show "loop_inv (actions_of (server_start ls w K)) \<and> balance (sv_world (server_start ls w K)) (sv_kids (server_start ls w K)) = balance w K"
      using assms(2) by (simp add: server_start_actions) (simp add: server_start_def)
  next
    fix s e u
    assume a: "loop_inv (actions_of s) \<and> balance (sv_world s) (sv_kids s) = balance w K"
      and step: "server_step any_event D s e u"
    from server_step_simulated [OF step] a have "loop_inv (actions_of u)" by (blast intro: loop_run_inv)
    with server_step_balance [OF step] a
    show "loop_inv (actions_of u) \<and> balance (sv_world u) (sv_kids u) = balance w K" by simp
  qed
  moreover have "unstarted \<lparr>acts = scheduler w, kids = K\<rparr> = []"
    using assms(3) by (simp add: unstarted_def names_def)
  ultimately have "hooksScheduled (sv_world t) - actionsExecuted (scheduler (sv_world t)) - of_nat (length (unstarted (actions_of t)))
      = hooksScheduled w - actionsExecuted (scheduler w)"
    by (simp add: balance_def actions_of_def)
  then show ?thesis by (simp add: algebra_simps)
qed

text \<open>
  (C15) The numbers of the status page agree with the queue: in every state the server can reach, the hooks
  scheduled since the start of the pass are those executed since then and those that are still
  waiting (all queued ones but the running command), modulo the 64 bits of the counters. No request
  and no callback is ever counted twice or forgotten.
\<close>

theorem status_counters_agree:
  assumes "server_run any_event D (server_start ls w K) es t"
    and "loop_inv \<lparr>acts = scheduler w, kids = K\<rparr>" and "actions (scheduler w) = []"
  shows "hooksScheduled (sv_world t) - hooksScheduled w
     = (actionsExecuted (scheduler (sv_world t)) - actionsExecuted (scheduler w))
       + of_nat (length (unstarted (actions_of t)))"
  using assms by (rule counters_balance)

theorem status_counters_agree_witness:
  "hooksScheduled (sv_world (site_final []))
     = actionsExecuted (scheduler (sv_world (site_final []))) + of_nat (length (unstarted (actions_of (site_final []))))"
proof -
  have "loop_inv \<lparr>acts = scheduler site_world, kids = {}\<rparr>"
    using initial_loop_inv by (simp add: site_world_def initial_loop_def)
  from status_counters_agree [OF site_final_any this] show ?thesis
    by (simp add: site_world_def initial_actions_def)
qed

end
