(* ===== verification/Main_Loop.thy ===== *)
theory Main_Loop
  imports Server_Facts Hook_Setup Log_Watchdog
begin

text \<open>
  The program as a whole: \<open>main\<close> of \<open>src/main.cpp\<close>. Every pass of its loop loads the configuration, builds
  the server, the hooks and the action list, runs the event loop until a signal ends it, and destroys
  all of them; a reload is the next pass. What survives a pass is what the code keeps in static
  variables: the counters, the list of started processes, and the event base. What the outside
  contributes to a pass (files, users, the clock, the events) is the record \<open>pass\<close>.
\<close>

section \<open>The configuration file\<close>

text \<open>\<open>config::file\<close>; \<open>parse\<close> is \<open>toml::parse\<close> on the text and the name of the file.\<close>

definition config_load :: "files \<Rightarrow> (string \<Rightarrow> string \<Rightarrow> string + 't) \<Rightarrow> string \<Rightarrow> 't res" where
  "config_load F parse fileName =
     (case read_file F fileName of
        None \<Rightarrow> Throw (System_error fileName)
      | Some stream \<Rightarrow> toml_res (parse stream fileName))"

definition file_contains :: "'t toml \<Rightarrow> 't \<Rightarrow> string \<Rightarrow> bool res" where
  "file_contains T root key = item_contains T root key"

definition file_key :: "'t toml \<Rightarrow> 't \<Rightarrow> string \<Rightarrow> 't res" where
  "file_key T root key = item_key T root key"

section \<open>State of the program\<close>

text \<open>What does not depend on the pass: the build, the libraries, the identity of the process.\<close>

record ('c, 'j, 't) platform =
  pf_ndebug :: bool
  pf_toml :: "'t toml"
  pf_parse :: "string \<Rightarrow> string \<Rightarrow> string + 't"
  pf_aton :: "string \<Rightarrow> 32 word option"
  pf_libs :: "('c, 'j) services"
  pf_time_text :: "int \<Rightarrow> string"
  pf_version :: string
  pf_uid :: uid_t

text \<open>
  What the outside contributes to one pass: the files and users at its start, the answers of the HTTP
  library, the start time, the events while the loop runs, and the answers of \<open>waitid\<close>
  to the destructor of a running process.
\<close>

record 'c pass =
  ps_files :: files
  ps_users :: user_db
  ps_mhd_start :: "bool \<Rightarrow> int \<Rightarrow> mhd_option list \<Rightarrow> bool"
  ps_epoll :: bool
  ps_time :: int
  ps_events :: "'c server_event list"
  ps_polls :: "nat \<Rightarrow> bool"

text \<open>Between two passes; \<open>pr_singleton\<close> says whether \<open>action_list::impl::singleton\<close> is set.\<close>

record program =
  pr_world :: world
  pr_kids :: "int set"
  pr_io :: io_context
  pr_singleton :: bool

definition initial_program :: program where
  "initial_program =
     \<lparr>pr_world = \<lparr>hooksRequests = 0, hooksGoodRequests = 0, hooksScheduled = 0, scheduler = initial_actions\<rparr>,
      pr_kids = {}, pr_io = new_io_context, pr_singleton = False\<rparr>"

section \<open>The objects of a pass\<close>

text \<open>The constructor of \<open>action_list\<close>: the counters and the process list are static.\<close>

definition create_actions :: "bool \<Rightarrow> program \<Rightarrow> program res" where
  "create_actions ndebug p =
     bnd (cassert ndebug (\<not> pr_singleton p)) (\<lambda>_.
     let s = (scheduler (pr_world p))\<lparr>execEv := False, timeoutEv := None, killEv := None, actions := []\<rparr> in
     Val (p\<lparr>pr_world := (pr_world p)\<lparr>scheduler := s\<rparr>, pr_singleton := True\<rparr>))"

text \<open>The numbers of Linux.\<close>

definition SIGHUP :: int where "SIGHUP = 1"
definition SIGINT :: int where "SIGINT = 2"
definition SIGUSR1 :: int where "SIGUSR1 = 10"
definition SIGTERM_number :: int where "SIGTERM_number = 15"

lemmas signal_numbers = SIGHUP_def SIGINT_def SIGUSR1_def SIGTERM_number_def

definition main_listeners :: "bool \<Rightarrow> main_handler signal_listener list res" where
  "main_listeners ndebug =
     bnd (listener_add ndebug [SIGHUP, SIGINT, SIGTERM_number] new_signal_listener) (\<lambda>sigs1.
     let sigs1 = listener_wait Quit_application sigs1 in
     bnd (listener_add ndebug [SIGUSR1] new_signal_listener) (\<lambda>sigs2.
     let sigs2 = listener_wait Reload_application sigs2 in
     Val [sigs1, sigs2]))"

definition signals_of_main :: "main_handler signal_listener list" where
  "signals_of_main =
     [\<lparr>sigs = {SIGHUP, SIGINT, SIGTERM_number}, sig_handler = Some Quit_application\<rparr>,
      \<lparr>sigs = {SIGUSR1}, sig_handler = Some Reload_application\<rparr>]"

lemma main_listeners_eq [simp]: "main_listeners nd = Val signals_of_main"
  by (simp add: main_listeners_def signals_of_main_def listener_add_fresh signal_numbers new_signal_listener_def
      listener_wait_def insert_commute)

section \<open>One pass\<close>

text \<open>
  Everything in front of \<open>io.run()\<close>: what the callbacks use, and the state the loop starts in. The watchdog
  (\<^theory_text>\<open>Log_Watchdog\<close>) is left out: its timer only notifies systemd, and its constructor cannot fail.
\<close>

definition pass_setup ::
  "('c, 'j, 't) platform \<Rightarrow> string \<Rightarrow> 'c pass \<Rightarrow> program \<Rightarrow> (('c, 'j) deployment \<times> 'c server_state) res" where
  "pass_setup P fileName rd p =
     bnd (config_load (ps_files rd) (pf_parse P) fileName) (\<lambda>root.
     bnd (create_actions (pf_ndebug P) p) (\<lambda>p.
     bnd (main_listeners (pf_ndebug P)) (\<lambda>listeners.
     bnd (file_key (pf_toml P) root ''httpd'') (\<lambda>cfg.
     bnd (http_server (pf_ndebug P) (pf_toml P) (ps_files rd) (pf_aton P) cfg) (\<lambda>httpd.
     bnd (start_server (pf_ndebug P) (ps_mhd_start rd) (ps_epoll rd) httpd) (\<lambda>httpd.
     bnd (setup_handlers (pf_ndebug P) (pf_toml P) (ps_users rd) (pf_uid P) root) (\<lambda>hooks.
     Val (\<lparr>d_ndebug = pf_ndebug P, d_libs = pf_libs P, d_time_text = pf_time_text P, d_version = pf_version P,
           d_handlers = resolve (ps_time rd) hooks, d_limit = contentSizeLimit httpd\<rparr>,
          (server_start listeners (pr_world p) (pr_kids p))\<lparr>sv_io := pr_io p\<rparr>))))))))"

text \<open>The children a destructor reaps: those of the queued items, if one of its six polls succeeds.\<close>

definition destroyed_kids :: "(nat \<Rightarrow> bool) \<Rightarrow> 'f action_state \<Rightarrow> int set" where
  "destroyed_kids polls s =
     (if \<exists>i\<in>set [0..<6]. polls i then set (map (pid_at (procs s)) (owned (actions s))) else {})"

text \<open>
  The end of the loop's body. The connections and the server are gone with the slots; the singleton
  pointer is cleared by the destructor of the action list.
\<close>

definition pass_teardown :: "'c pass \<Rightarrow> 'c server_state \<Rightarrow> program res" where
  "pass_teardown rd t =
     bnd (destroy_actions (ps_polls rd) (scheduler (sv_world t))) (\<lambda>a.
     Val \<lparr>pr_world = (sv_world t)\<lparr>scheduler := a\<rparr>,
          pr_kids = sv_kids t - destroyed_kids (ps_polls rd) (scheduler (sv_world t)),
          pr_io = sv_io t, pr_singleton = False\<rparr>)"

text \<open>\<open>io.run()\<close> returns when a handler has called \<open>stop\<close>; before that the server waits for events.\<close>

datatype 'c pass_end = Waits "'c server_state" | Ends bool program

definition main_pass :: "('c, 'j, 't) platform \<Rightarrow> string \<Rightarrow> 'c pass \<Rightarrow> program \<Rightarrow> 'c pass_end res" where
  "main_pass P fileName rd p =
     bnd (pass_setup P fileName rd p) (\<lambda>(D, s).
     bnd (io_run sv_io (\<lambda>io s. s\<lparr>sv_io := io\<rparr>) (server_callback D) (ps_events rd) s) (\<lambda>(stopped, t).
     if stopped then bnd (pass_teardown rd t) (\<lambda>p. Val (Ends (sv_restart t) p))
     else Val (Waits t)))"

section \<open>The loop\<close>

text \<open>
  How far the program has come: it serves, it is about to make a pass, it has exited with a status, or
  it was ended by a fault.
\<close>

datatype 'c program_end = Serving "'c server_state" | Next_pass program | Exited int | Crashed fault

fun ended_by :: "fault \<Rightarrow> 'c program_end" where
  "ended_by (Exit_process n) = Exited n"
| "ended_by f = Crashed f"

text \<open>
  The \<open>catch\<close> clause of \<open>main\<close>; \<open>log_fatal\<close> exits. What it writes depends on the text of the exception,
  which is left out here.
\<close>

definition main_catch :: "exn \<Rightarrow> 'c program_end" where
  "main_catch e =
     (case fst (log_fatal (\<lambda>_. []) initial_log []) of
        Abort f \<Rightarrow> ended_by f
      | _ \<Rightarrow> Exited 0)"

fun main_loop :: "('c, 'j, 't) platform \<Rightarrow> string \<Rightarrow> 'c pass list \<Rightarrow> program \<Rightarrow> 'c program_end" where
  "main_loop P fileName [] p = Next_pass p"
| "main_loop P fileName (rd # rds) p =
     (case main_pass P fileName rd p of
        Val (Waits t) \<Rightarrow> Serving t
      | Val (Ends restart p) \<Rightarrow> if restart then main_loop P fileName rds p else Exited 0
      | Throw e \<Rightarrow> main_catch e
      | Abort f \<Rightarrow> ended_by f)"

text \<open>\<open>main\<close> itself, on the options of the command line.\<close>

definition program_main :: "('c, 'j, 't) platform \<Rightarrow> options \<Rightarrow> 'c pass list \<Rightarrow> 'c program_end" where
  "program_main P vm rds =
     (case fst (start_logging vm) of
        Val fileName \<Rightarrow> main_loop P fileName rds initial_program
      | Throw e \<Rightarrow> main_catch e
      | Abort f \<Rightarrow> ended_by f)"

end
