(* ===== verification/Main_Passes.thy ===== *)
theory Main_Passes
  imports Main_Loop Action_Facts
begin

text \<open>
  The passes of the main loop: the state the event loop starts in, what the loop does until a signal of
  \<open>main\<close> is delivered, and what the destruction at the end of a pass leaves.
\<close>

section \<open>The start of a pass\<close>

text \<open>
  Between two passes no process object of an earlier pass may be listed as started: \<open>clean\<close>.
\<close>

definition clean :: "program \<Rightarrow> bool" where
  "clean p \<longleftrightarrow> \<not> pr_singleton p \<and> mProcesses (procs (scheduler (pr_world p))) = None
     \<and> (\<forall>a. mem (procs (scheduler (pr_world p))) a \<noteq> None \<longrightarrow> a < brk (procs (scheduler (pr_world p))))
     \<and> (\<forall>k\<in>pr_kids p. 0 < k)"

lemma initial_clean: "clean initial_program"
  by (simp add: clean_def initial_program_def initial_actions_def empty_procs_def)

text \<open>The state the event loop starts in.\<close>

definition pass_start :: "program \<Rightarrow> 'c server_state" where
  "pass_start p = server_start signals_of_main
     ((pr_world p)\<lparr>scheduler := (scheduler (pr_world p))
        \<lparr>execEv := False, timeoutEv := None, killEv := None, actions := []\<rparr>\<rparr>) (pr_kids p)"

lemma pass_setup_start:
  "pass_setup P fileName rd p = Val (D, s) \<Longrightarrow>
     s\<lparr>sv_io := (sv_io s)\<lparr>loop_break := False\<rparr>\<rparr> = pass_start p \<and> sv_io (pass_start p :: 'c server_state) = new_io_context"
  by (auto simp add: pass_setup_def create_actions_def bnd_Val_iff pass_start_def server_start_def Let_def
      new_io_context_def)

lemma pass_start_inv: "clean p \<Longrightarrow> loop_inv (actions_of (pass_start p))"
  by (simp add: clean_def pass_start_def actions_of_def server_start_def loop_inv_def waiting_def)

lemma pass_start_simps [simp]:
  "sv_listeners (pass_start p) = signals_of_main" "\<not> sv_restart (pass_start p)"
  "\<not> loop_break (sv_io (pass_start p))"
  by (simp_all add: pass_start_def server_start_def new_io_context_def)

section \<open>The event loop until a signal\<close>

lemma callback_frame:
  assumes "server_callback D e s = Val t" and "\<And>n. e \<noteq> Signal_event n"
  shows "sv_io t = sv_io s \<and> sv_restart t = sv_restart s \<and> sv_listeners t = sv_listeners s"
  using assms
  by (cases e) (auto simp add: action_callback_def bnd_Val_iff elim: server_callE split: phase.splits)

lemma run_loops:
  assumes "server_run P D s es t" and "\<And>n. Signal_event n \<notin> set es" and "\<not> loop_break (sv_io s)"
  shows "event_loop sv_io (server_callback D) es s = Val (False, t)
     \<and> sv_io t = sv_io s \<and> sv_restart t = sv_restart s \<and> sv_listeners t = sv_listeners s"
  using assms
proof (induction rule: machine_run.induct)
  case (mr_snoc es t e u)
  then have "server_callback D e t = Val u" by (simp add: server_step_iff)
  moreover have "\<And>n. e \<noteq> Signal_event n" using mr_snoc.prems(1) by auto
  ultimately have "sv_io u = sv_io t \<and> sv_restart u = sv_restart t \<and> sv_listeners u = sv_listeners t"
    and "server_callback D e t = Val u" by (auto dest: callback_frame)
  with mr_snoc show ?case by (simp add: event_loop_append)
qed simp

lemma deliver_main_signal:
  assumes "sv_listeners t = signals_of_main" and "n \<in> {SIGHUP, SIGINT, SIGTERM_number, SIGUSR1}"
  shows "deliver_signal n t = t\<lparr>sv_restart := sv_restart t \<or> n = SIGUSR1, sv_io := io_stop (sv_io t)\<rparr>"
  using assms by (auto simp add: deliver_signal_def signals_of_main_def listener_callback_def signal_numbers)

text \<open>A pass whose events are \<open>es\<close> and then a signal of \<open>main\<close>.\<close>

definition signalled :: "('c, 'j, 't) platform \<Rightarrow> string \<Rightarrow> 'c pass \<Rightarrow> program \<Rightarrow> int \<Rightarrow> 'c server_state \<Rightarrow> bool" where
  "signalled P fileName rd p n t \<longleftrightarrow> (\<exists>D s es fs. pass_setup P fileName rd p = Val (D, s)
     \<and> server_run any_event D (pass_start p) es t \<and> (\<forall>k. Signal_event k \<notin> set es)
     \<and> ps_events rd = es @ Signal_event n # fs \<and> n \<in> {SIGHUP, SIGINT, SIGTERM_number, SIGUSR1})"

lemma signalled_stops:
  assumes "signalled P fileName rd p n t"
  shows "main_pass P fileName rd p = bnd (pass_teardown rd (deliver_signal n t)) (\<lambda>q. Val (Ends (n = SIGUSR1) q))"
proof -
  from assms obtain D s es fs where a: "pass_setup P fileName rd p = Val (D, s)"
    "server_run any_event D (pass_start p) es t" "\<And>k. Signal_event k \<notin> set es"
    "ps_events rd = es @ Signal_event n # fs" "n \<in> {SIGHUP, SIGINT, SIGTERM_number, SIGUSR1}"
    by (auto simp add: signalled_def)
  have r: "event_loop sv_io (server_callback D) es (pass_start p) = Val (False, t)"
    "\<not> sv_restart t" "sv_listeners t = signals_of_main"
    using run_loops [OF a(2,3)] by simp_all
  note d = deliver_main_signal [OF r(3) a(5)]
  have "event_loop sv_io (server_callback D) (ps_events rd) (pass_start p) = Val (True, deliver_signal n t)"
    unfolding a(4) event_loop_append r(1) by (simp add: d io_stop_def)
  then have "io_run sv_io (\<lambda>io s. s\<lparr>sv_io := io\<rparr>) (server_callback D) (ps_events rd) s = Val (True, deliver_signal n t)"
    unfolding io_run_def pass_setup_start [OF a(1), THEN conjunct1] .
  moreover have "sv_restart (deliver_signal n t) = (n = SIGUSR1)" using d r(2) by simp
  ultimately show ?thesis using a(1) by (simp add: main_pass_def)
qed

lemma signalled_inv: "signalled P fileName rd p n t \<Longrightarrow> clean p \<Longrightarrow> loop_inv (actions_of t)"
  using sim.steps_simulated [of any_event] pass_start_inv [of p]
  by (fastforce simp add: signalled_def dest: loop_run_inv)

text \<open>The destruction at the end of a pass: always possible, and what is left of the scheduler.\<close>

definition kept_counters :: "world \<Rightarrow> world \<Rightarrow> bool" where
  "kept_counters w w' \<longleftrightarrow> hooksRequests w' = hooksRequests w \<and> hooksGoodRequests w' = hooksGoodRequests w
     \<and> hooksScheduled w' = hooksScheduled w \<and> actionsExecuted (scheduler w') = actionsExecuted (scheduler w)
     \<and> actionsFailed (scheduler w') = actionsFailed (scheduler w)
     \<and> actionFailTm (scheduler w') = actionFailTm (scheduler w)"

text \<open>
  The process list starts with a freed object. Appended items get new objects, so this stays so until the
  action list itself runs.
\<close>

definition dangling :: "addr \<Rightarrow> 'f action_state \<Rightarrow> bool" where
  "dangling a s \<longleftrightarrow> mProcesses (procs s) = Some a \<and> mem (procs s) a = None \<and> a < brk (procs s)"

lemma appends_dangling:
  "run_events nd es s = Some t \<Longrightarrow> \<forall>e\<in>set es. \<not> from_libevent e \<Longrightarrow> dangling a (acts s) \<Longrightarrow> dangling a (acts t)"
proof (induction es arbitrary: s)
  case (Cons e es)
  from Cons.prems obtain u where u: "run_event nd e (acts s) = Val u"
    "run_events nd es \<lparr>acts = u, kids = kids_after e s\<rparr> = Some t" by (auto split: res.splits if_splits)
  have "dangling a u" using u(1) Cons.prems(2,3)
    by (cases e) (auto simp add: schedule_command_eq append_process_def append_function_def append_item_def Let_def
        dangling_def)
  with Cons.IH [OF u(2)] Cons.prems(2) show ?case by simp
qed simp

lemma connection_step_dangling:
  assumes "server_step P D s e t" and "\<And>f. e \<noteq> Action_event f" and "\<And>n. e \<noteq> Signal_event n"
    and "dangling a (scheduler (sv_world s))"
  shows "dangling a (scheduler (sv_world t))"
proof -
  have "only_appends (sv_world s) (sv_world t)"
    using assms(1-3) by (cases e) (auto simp add: server_step_iff split: phase.splits dest: server_call_appends)
  then obtain es where "\<forall>e\<in>set es. \<not> from_libevent e"
    "run_events True es \<lparr>acts = scheduler (sv_world s), kids = {}\<rparr> = Some \<lparr>acts = scheduler (sv_world t), kids = {}\<rparr>"
    unfolding only_appends_def by blast
  with appends_dangling [OF this(2,1), of a] assms(4) show ?thesis by simp
qed

lemma connection_run_dangling:
  assumes "server_run P D s es t" and "\<And>f. Action_event f \<notin> set es" and "\<And>n. Signal_event n \<notin> set es"
    and "dangling a (scheduler (sv_world s))"
  shows "dangling a (scheduler (sv_world t))"
  using assms
proof (induction rule: machine_run.induct)
  case (mr_snoc es t e u)
  have "dangling a (scheduler (sv_world t))" using mr_snoc by auto
  with mr_snoc.hyps(2) show ?case
    by (intro connection_step_dangling [of P D t e u a]) (use mr_snoc.prems in auto)
qed

lemma teardown_spec:
  assumes "loop_inv (actions_of t)"
  shows "\<exists>q. pass_teardown rd (deliver_signal n t) = Val q \<and> kept_counters (sv_world t) (pr_world q)
     \<and> \<not> pr_singleton q \<and> actions (scheduler (pr_world q)) = [] \<and> (clean q \<longleftrightarrow> \<not> busy (scheduler (sv_world t)))
     \<and> mProcesses (procs (scheduler (pr_world q))) = mProcesses (procs (scheduler (sv_world t)))
     \<and> (\<forall>a. mProcesses (procs (scheduler (pr_world q))) = Some a \<longrightarrow> dangling a (scheduler (pr_world q)))"
proof -
  let ?s = "scheduler (sv_world t)"
  from assms have inv: "loop_inv \<lparr>acts = ?s, kids = sv_kids t\<rparr>" by (simp add: actions_of_def)
  from destroy_actions_spec [OF this, of "ps_polls rd"] obtain ps where
    d: "destroy_actions (ps_polls rd) ?s =
       Val (?s\<lparr>procs := ps, actions := [], execEv := False, timeoutEv := None, killEv := None\<rparr>)"
    and ps: "mProcesses ps = mProcesses (procs ?s)" "brk ps = brk (procs ?s)"
      "\<forall>a. mem ps a = (if a \<in> set (owned (actions ?s)) then None else mem (procs ?s) a)"
    by (elim exE conjE) (rule that)
  have b: "mem (procs ?s) a \<noteq> None \<longrightarrow> a < brk (procs ?s)" "\<forall>k\<in>sv_kids t. 0 < k" for a
    using inv by (auto simp add: loop_inv_def)
  have dead: "mem ps a = None \<and> a < brk (procs ?s)" if "mProcesses (procs ?s) = Some a" for a
  proof -
    have a: "a \<in> set (owned (actions ?s))"
      using that inv by (auto simp add: loop_inv_def waiting_def running_def)
    have "waiting ?s \<or> running (sv_kids t) ?s" using inv by (simp add: loop_inv_def)
    from owned_live [OF this a] b(1) have "a < brk (procs ?s)" by blast
    with a ps(3) show ?thesis by simp
  qed
  from d b ps dead process_list_busy [OF inv] show ?thesis
    by (auto simp add: pass_teardown_def deliver_signal_frame kept_counters_def clean_def dangling_def)
qed

text \<open>A reload while no command runs.\<close>

definition idle_pass :: "('c, 'j, 't) platform \<Rightarrow> string \<Rightarrow> program \<Rightarrow> 'c pass \<Rightarrow> program \<Rightarrow> bool" where
  "idle_pass P fileName p rd q \<longleftrightarrow> (\<exists>t. signalled P fileName rd p SIGUSR1 t \<and> \<not> busy (scheduler (sv_world t))
     \<and> pass_teardown rd (deliver_signal SIGUSR1 t) = Val q)"

lemma idle_pass_clean: "idle_pass P fileName p rd q \<Longrightarrow> clean p \<Longrightarrow> clean q"
proof -
  assume "idle_pass P fileName p rd q" and "clean p"
  then obtain t where t: "signalled P fileName rd p SIGUSR1 t" "\<not> busy (scheduler (sv_world t))"
    "pass_teardown rd (deliver_signal SIGUSR1 t) = Val q" by (auto simp add: idle_pass_def)
  from teardown_spec [OF signalled_inv [OF t(1) \<open>clean p\<close>], of rd SIGUSR1] t(2,3) show ?thesis by auto
qed

lemma idle_pass_next:
  "idle_pass P fileName p rd q \<Longrightarrow> main_loop P fileName (rd # rds) p = main_loop P fileName rds q"
  by (auto simp add: idle_pass_def signalled_stops)

lemma idle_passes_next:
  "machine_run (idle_pass P fileName) p rds q \<Longrightarrow> main_loop P fileName (rds @ later) p = main_loop P fileName later q"
  by (induction arbitrary: later rule: machine_run.induct) (simp_all add: idle_pass_next del: main_loop.simps(2))

text \<open>The limit for bodies is a number of 64 bits, whatever the configuration says.\<close>

lemma if_entry_keeps:
  assumes "if_entry T cfg key conv setter m = Val m'" and "g m" and "\<And>x m m'. setter x m = Val m' \<Longrightarrow> g m \<Longrightarrow> g m'"
  shows "g m'"
  using assms by (auto simp add: if_entry_def bnd_Val_iff split: if_splits)

lemma setters_keep_limit:
  "set_ip nd aton addr m = Val m' \<Longrightarrow> contentSizeLimit m' = contentSizeLimit m"
  "set_port nd p m = Val m' \<Longrightarrow> contentSizeLimit m' = contentSizeLimit m"
  "set_connection_timeout nd k m = Val m' \<Longrightarrow> contentSizeLimit m' = contentSizeLimit m"
  "set_local_cert nd c m = Val m' \<Longrightarrow> contentSizeLimit m' = contentSizeLimit m"
  "set_private_key c m = Val m' \<Longrightarrow> contentSizeLimit m' = contentSizeLimit m"
  "set_max_connections nd k m = Val m' \<Longrightarrow> contentSizeLimit m' = contentSizeLimit m"
  "set_max_connections_per_ip nd k m = Val m' \<Longrightarrow> contentSizeLimit m' = contentSizeLimit m"
  "set_memory_limit nd b m = Val m' \<Longrightarrow> contentSizeLimit m' = contentSizeLimit m"
  "start_server nd mhd_start epoll m = Val m' \<Longrightarrow> contentSizeLimit m' = contentSizeLimit m"
  by (auto simp add: set_ip_def set_port_def set_connection_timeout_def set_local_cert_def set_private_key_def
      set_max_connections_def set_max_connections_per_ip_def set_memory_limit_def start_server_def Let_def
      bnd_Val_iff split: option.splits if_splits)

lemma http_server_limit:
  assumes "http_server nd T F aton cfg = Val m"
  shows "contentSizeLimit m < 2 ^ 64"
proof -
  let ?ok = "\<lambda>m. contentSizeLimit m < 2 ^ 64"
  note keep = if_entry_keeps [where g = ?ok]
  from assms obtain ip m1 p m2 m3 m4 m5 m6 m7 m8 where
    "set_ip nd aton ip fresh_server = Val m1" "set_port nd p m1 = Val m2" "set_connection_timeout nd 30 m2 = Val m3"
    and m4: "if_entry T cfg ''certificate'' (load_file T F) (set_local_cert nd) m3 = Val m4"
    and m5: "if_entry T cfg ''private_key'' (load_file T F) set_private_key m4 = Val m5"
    and m6: "if_entry T cfg ''max_connections'' (item_to T T_int) (set_max_connections nd) m5 = Val m6"
    and m7: "if_entry T cfg ''max_connections_per_ip'' (item_to T T_int) (set_max_connections_per_ip nd) m6 = Val m7"
    and m8: "if_entry T cfg ''memory_limit'' (\<lambda>c. item_to_int_range T c 0 (2 ^ 63 - 1))
       (\<lambda>bytes. set_memory_limit nd (nat bytes)) m7 = Val m8"
    and m9: "if_entry T cfg ''content_size_limit'' (item_to T T_uint)
       (\<lambda>bytes. set_content_size_limit nd (nat bytes)) m8 = Val m"
    by (auto simp add: http_server_def bnd_Val_iff)
  then have "?ok m3" by (simp add: setters_keep_limit fresh_server_def)
  from keep [OF m4 this] have "?ok m4" by (simp add: setters_keep_limit)
  from keep [OF m5 this] have "?ok m5" by (simp add: setters_keep_limit)
  from keep [OF m6 this] have "?ok m6" by (simp add: setters_keep_limit)
  from keep [OF m7 this] have "?ok m7" by (simp add: setters_keep_limit)
  from keep [OF m8 this] have "?ok m8" by (simp add: setters_keep_limit)
  with m9 show ?thesis
    by (auto simp add: if_entry_def set_content_size_limit_def bnd_Val_iff split: if_splits dest!: item_to_bounds)
qed

lemma pass_setup_deployment:
  assumes "pass_setup P fileName rd p = Val (D, s)"
  shows "d_libs D = pf_libs P \<and> d_limit D < 2 ^ 64 \<and> d_ndebug D = pf_ndebug P"
  using assms
  by (auto simp add: pass_setup_def bnd_Val_iff setters_keep_limit dest: http_server_limit)

end
