(* ===== verification/Example_Main.thy ===== *)
theory Example_Main
  imports Main_Passes Server_Progress
begin

text \<open>
  A concrete configuration file whose set-up gives the installation of \<^theory_text>\<open>Example_Site\<close>, and passes
  of the program on it: an idle one, and one that is told to reload while a command runs.
\<close>

section \<open>The configuration\<close>

definition site_hook :: "string \<Rightarrow> string \<Rightarrow> (string \<times> toml_tree) list \<Rightarrow> toml_tree" where
  "site_hook type nm entries = T_table
     ([(''type'', T_string type), (''name'', T_string nm), (''uri_path'', T_string ''/api/deploy''),
       (''token'', T_string ''secret''), (''environment'', T_array [T_string ''LANG=C'']),
       (''run_as'', T_table [(''user'', T_string ''nobody'')])] @ entries)"

definition site_root :: toml_tree where
  "site_root = T_table
     [(''httpd'', T_table [(''ip'', T_string ''127.0.0.1''), (''port'', T_integer 8080),
         (''content_size_limit'', T_integer 65535)]),
      (''hooks'', T_array
         [site_hook ''debug'' ''debug'' [],
          site_hook ''pipeline'' ''deploy''
            [(''job_name'', T_array [T_string ''build-this'', T_string ''build-that'']), (''status'', T_string ''success''),
             (''command'', T_string ''/usr/bin/echo Hello, world!'')]])]"

definition site_platform :: "(headers, jtree, toml_tree) platform" where
  "site_platform = \<lparr>pf_ndebug = False, pf_toml = tree_toml, pf_parse = (\<lambda>text fileName. Inr site_root),
     pf_aton = (\<lambda>addr. Some 0x0100007F), pf_libs = site, pf_time_text = site_time, pf_version = ''1.0'', pf_uid = 0\<rparr>"

definition site_file :: string where
  "site_file = ''/etc/gitlab-hook/config.ini''"

definition site_pass :: "bool \<Rightarrow> headers server_event list \<Rightarrow> headers pass" where
  "site_pass readable es =
     \<lparr>ps_files = \<lparr>is_relative = (\<lambda>p. False), beside = (\<lambda>f p. p), read_file = (\<lambda>p. if readable then Some ''toml'' else None)\<rparr>,
      ps_users = example_users, ps_mhd_start = (\<lambda>tls port options. True), ps_epoll = True,
      ps_time = 0, ps_events = es, ps_polls = (\<lambda>i. False)\<rparr>"

lemma site_created:
  "create tree_toml example_users 0 (site_hook ''debug'' ''debug'' []) = Val site_debug"
  "create tree_toml example_users 0 (site_hook ''pipeline'' ''deploy''
     [(''job_name'', T_array [T_string ''build-this'', T_string ''build-that'']), (''status'', T_string ''success''),
      (''command'', T_string ''/usr/bin/echo Hello, world!'')]) = Val site_pipeline"
proof -
  have t: "trimmed ''/usr/bin/echo Hello, world!'' = ''/usr/bin/echo Hello, world!''" by code_simp
  have r: "[0..<2] = [0, Suc 0]" "[0..<Suc 0] = [0]" by (simp_all add: numeral_2_eq_2)
  show "create tree_toml example_users 0 (site_hook ''debug'' ''debug'' []) = Val site_debug"
    by (simp add: site_hook_def config_eval site_debug_def site_data_def Let_def r)
  show "create tree_toml example_users 0 (site_hook ''pipeline'' ''deploy''
     [(''job_name'', T_array [T_string ''build-this'', T_string ''build-that'']), (''status'', T_string ''success''),
      (''command'', T_string ''/usr/bin/echo Hello, world!'')]) = Val site_pipeline"
    by (simp add: site_hook_def config_eval site_pipeline_def site_data_def Let_def t r)
qed

lemma site_setup:
  "setup_handlers False tree_toml example_users 0 site_root =
     Val ([''/status'' \<mapsto> Ref_status, ''/api/deploy'' \<mapsto> Ref_hook 0], [site_chain])"
proof -
  let ?t1 = "[''/status'' \<mapsto> Ref_status]"
  let ?t2 = "[''/status'' \<mapsto> Ref_status, ''/api/deploy'' \<mapsto> Ref_hook 0]"
  let ?hooks = "[site_hook ''debug'' ''debug'' [],
          site_hook ''pipeline'' ''deploy''
            [(''job_name'', T_array [T_string ''build-this'', T_string ''build-that'']), (''status'', T_string ''success''),
             (''command'', T_string ''/usr/bin/echo Hello, world!'')]]"
  have root: "item_key tree_toml site_root ''hooks'' = Val (T_array ?hooks)" "item_size tree_toml (T_array ?hooks) = Val 2"
    by (simp_all add: site_root_def tree_toml_def item_key_def item_size_def)
  have idx: "item_index tree_toml (T_array ?hooks) 0 = Val (?hooks ! 0)"
    "item_index tree_toml (T_array ?hooks) (Suc 0) = Val (?hooks ! 1)"
    by (simp_all add: tree_toml_def item_index_def)
  have add: "add_handler Map.empty ''/status'' Ref_status = Val ?t1"
    "add_handler ?t1 ''/api/deploy'' (Ref_hook 0) = Val ?t2"
    by (simp_all add: add_handler_def stored_path_def slash_def)
  have reg: "register_hook False site_debug (?t1, []) = Val (?t2, [site_debug])"
    "register_hook False site_pipeline (?t2, [site_debug]) = Val (?t2, [site_chain])"
    using add by (simp_all add: register_hook_def site_debug_def site_pipeline_def site_chain_def site_data_def chain_def)
  have range: "[0..<2] = [0, Suc 0]" by (simp add: numeral_2_eq_2)
  show ?thesis
    unfolding setup_handlers_def add root bnd.simps range register_loop.simps idx nth_Cons_0 nth_Cons_Suc One_nat_def
      site_created reg by (rule refl)
qed

lemma site_server:
  "\<exists>m. bnd (file_key tree_toml site_root ''httpd'')
       (http_server False tree_toml (ps_files (site_pass True es)) (\<lambda>addr. Some 0x0100007F)) = Val m
     \<and> start_server False (\<lambda>tls port options. True) True m = Val (m\<lparr>daemon := True\<rparr>)
     \<and> contentSizeLimit m = 65535"
  by (simp add: site_root_def tree_toml_def file_key_def item_key_def http_server_def string_at_def item_to_string_def
      set_ip_def fresh_server_def set_port_def set_connection_timeout_def if_entry_def item_contains_def
      set_content_size_limit_def start_server_def server_options_def option_set_def option_if_def capacity_def
      item_to_def item_to_int_range_def cassert_def Let_def)

section \<open>Passes\<close>

lemma site_pass_setup:
  assumes "\<not> pr_singleton p"
  shows "\<exists>s. pass_setup site_platform site_file (site_pass True es) p = Val (site_deployment, s)"
proof -
  obtain m cfg where m: "file_key tree_toml site_root ''httpd'' = Val cfg"
    "http_server False tree_toml (ps_files (site_pass True es)) (\<lambda>addr. Some 0x0100007F) cfg = Val m"
    "start_server False (\<lambda>tls port options. True) True m = Val (m\<lparr>daemon := True\<rparr>)" "contentSizeLimit m = 65535"
    using site_server [of es] by (auto simp add: bnd_Val_iff)
  have l: "config_load (ps_files (site_pass True es)) (pf_parse site_platform) site_file = Val site_root"
    by (simp add: config_load_def site_pass_def site_platform_def)
  obtain q where q: "create_actions False p = Val q"
    using assms by (simp add: create_actions_def cassert_def)
  have h: "resolve 0 ([''/status'' \<mapsto> Ref_status, ''/api/deploy'' \<mapsto> Ref_hook 0], [site_chain]) = site_handlers"
    by (rule ext) (simp add: resolve_def site_handlers_def)
  have p: "pf_ndebug site_platform = False" "pf_toml site_platform = tree_toml" "pf_uid site_platform = 0"
    "pf_aton site_platform = (\<lambda>addr. Some 0x0100007F)" "ps_mhd_start (site_pass True es) = (\<lambda>tls port options. True)"
    "ps_epoll (site_pass True es) = True" "ps_users (site_pass True es) = example_users" "ps_time (site_pass True es) = 0"
    by (simp_all add: site_platform_def site_pass_def)
  show ?thesis
    unfolding pass_setup_def l bnd.simps p q main_listeners_eq m site_setup h
    by (simp add: site_deployment_def m(4) site_platform_def)
qed

lemma site_pass_start: "pass_start initial_program = server_start signals_of_main site_world {}"
  by (simp add: pass_start_def initial_program_def site_world_def initial_actions_def)

text \<open>A pass in which nothing happens before the signal.\<close>

lemma site_signalled:
  assumes "\<not> pr_singleton p" and "n \<in> {SIGHUP, SIGINT, SIGTERM_number, SIGUSR1}"
  shows "signalled site_platform site_file (site_pass True [Signal_event n]) p n (pass_start p)"
  using site_pass_setup [OF assms(1), of "[Signal_event n]"] assms(2)
  by (force simp add: signalled_def site_pass_def intro: mr_nil)

text \<open>A pass in which two hooks are scheduled; the command of the second one runs when the signal comes.\<close>

definition site_outside :: "callable outside" where
  "site_outside = \<lparr>fork_result = 200, thrown_by = (\<lambda>_. None), now = 7, reaped = (\<lambda>_. False)\<rparr>"

definition busy_events :: "headers server_event list" where
  "busy_events = site_events @ [Action_event (Ev_exec site_outside)] @ [Action_event (Ev_exec site_outside)]"

lemma exec_function_then_command:
  assumes inv: "loop_inv s" and w: "waiting (acts s)" and acts: "actions (acts s) = [i, j]"
    and fresh: "it_process i = None" "it_process j = Some a" and pid: "200 \<notin> kids s"
  shows "\<exists>t u. loop_step nd s (Ev_exec site_outside) t \<and> loop_step nd t (Ev_exec site_outside) u \<and> busy (acts u)"
proof -
  from inv acts fresh obtain f k where f: "it_function i = Some f" "it_timeout j = Some k"
    by (auto simp add: loop_inv_def item_ok_def)
  from w acts fresh obtain p where p: "mem (procs (acts s)) a = Some p"
    by (auto simp add: waiting_def idle_object_def)
  let ?a = "(acts s)\<lparr>actions := [j], execEv := True, actionsExecuted := actionsExecuted (acts s) + 1\<rparr>"
  have en: "enabled (Ev_exec site_outside) s" using w acts pid by (simp add: waiting_def site_outside_def)
  have one: "run_event nd (Ev_exec site_outside) (acts s) = Val ?a"
    using acts fresh f by (simp add: exec_function_eq [of _ i "[j]" f] site_outside_def)
  obtain b where two: "run_event nd (Ev_exec site_outside) ?a = Val b" "timeoutEv b = Some k"
    using fresh f p by (simp add: exec_process_eq [of _ j "[]" a k p] site_outside_def)
  have k: "kids_after (Ev_exec site_outside) s = kids s" using acts fresh by (simp add: front_is_process_def)
  have first: "loop_step nd s (Ev_exec site_outside) \<lparr>acts = ?a, kids = kids s\<rparr>"
    using step [OF en one] by (simp only: k)
  have second: "loop_step nd \<lparr>acts = ?a, kids = kids s\<rparr> (Ev_exec site_outside)
      \<lparr>acts = b, kids = kids_after (Ev_exec site_outside) \<lparr>acts = ?a, kids = kids s\<rparr>\<rparr>" (is "loop_step nd _ _ ?u")
    by (rule step) (use two pid in \<open>simp_all add: site_outside_def\<close>)
  have "busy (acts ?u)" using two(2) by (simp add: busy_def)
  with first second show ?thesis by blast
qed

lemma site_busy:
  "\<exists>t. signalled site_platform site_file (site_pass True (busy_events @ [Signal_event SIGUSR1])) initial_program SIGUSR1 t
     \<and> busy (scheduler (sv_world t))"
proof -
  let ?s = "site_final signals_of_main"
  have run: "server_run any_event site_deployment (pass_start initial_program) site_events ?s"
    unfolding site_pass_start by (rule site_final_any)
  have "loop_inv (actions_of (pass_start initial_program :: headers server_state))"
    by (rule pass_start_inv [OF initial_clean])
  with run have inv: "loop_inv (actions_of ?s)"
    using sim.steps_simulated [OF run] by (blast intro: loop_run_inv)
  obtain i j a where acts: "actions (acts (actions_of ?s)) = [i, j]" "it_process i = None" "it_process j = Some a"
    using site_final(7) [of signals_of_main] by (auto simp add: actions_of_def Cons_eq_map_conv map_eq_Cons_conv)
  have w: "waiting (acts (actions_of ?s))"
    using inv acts by (auto simp add: loop_inv_def running_def)
  obtain u v where "loop_step (d_ndebug site_deployment) (actions_of ?s) (Ev_exec site_outside) u"
    "loop_step (d_ndebug site_deployment) u (Ev_exec site_outside) v" "busy (acts v)"
  proof -
    have "200 \<notin> kids (actions_of ?s)" using site_final(6) [of signals_of_main] by (simp add: actions_of_def)
    from exec_function_then_command [OF inv w acts this, of "d_ndebug site_deployment"] that show ?thesis by blast
  qed
  moreover from action_step [OF this(1)] obtain t1 where
    "server_step any_event site_deployment ?s (Action_event (Ev_exec site_outside)) t1" "actions_of t1 = u" by auto
  ultimately obtain t2 where t: "server_step any_event site_deployment ?s (Action_event (Ev_exec site_outside)) t1"
    "server_step any_event site_deployment t1 (Action_event (Ev_exec site_outside)) t2" "busy (acts (actions_of t2))"
    using action_step [of site_deployment t1] by (metis from_libevent.simps(3))
  have "server_run any_event site_deployment (pass_start initial_program) busy_events t2"
    unfolding busy_events_def append_assoc [symmetric] by (rule mr_snoc [OF mr_snoc [OF run t(1)] t(2)])
  moreover have "\<forall>k. Signal_event k \<notin> set busy_events"
    by (simp add: busy_events_def site_events_def site_prefix_def)
  moreover have "\<not> pr_singleton initial_program" by (simp add: initial_program_def)
  ultimately have "signalled site_platform site_file (site_pass True (busy_events @ [Signal_event SIGUSR1]))
      initial_program SIGUSR1 t2"
    using site_pass_setup [of initial_program "busy_events @ [Signal_event SIGUSR1]"]
    unfolding signalled_def by (auto simp add: site_pass_def)
  with t(3) show ?thesis by (auto simp add: actions_of_def)
qed

end
