(* ===== verification/Main_Facts.thy ===== *)
theory Main_Facts
  imports Example_Main
begin

text \<open>
  The properties of the whole program: which signal ends a pass in which way, what a reload keeps and
  what it loses, when the next pass starts from a clean state, and that over any number of reloads of
  an idle server no callback fails.
\<close>


section \<open>Properties\<close>

text \<open>
  (C12) The first signal that \<open>main\<close> listens for decides how the pass ends, whatever requests, timers and
  children were handled before it and whatever would have come after it: SIGHUP, SIGINT and SIGTERM
  make the program exit with status 0; SIGUSR1 starts the next pass, which keeps all counters of the
  status page and loses every queued hook.
\<close>

theorem signal_ends_the_pass:
  assumes "signalled P fileName rd p n t" and "clean p"
  shows "if n = SIGUSR1
    then \<exists>q. main_loop P fileName (rd # rds) p = main_loop P fileName rds q
       \<and> kept_counters (sv_world t) (pr_world q) \<and> actions (scheduler (pr_world q)) = []
    else main_loop P fileName (rd # rds) p = Exited 0"
  using teardown_spec [OF signalled_inv [OF assms], of rd n] signalled_stops [OF assms(1)] by auto

theorem signal_ends_the_pass_witness:
  "main_loop site_platform site_file [site_pass True [Signal_event SIGTERM_number]] initial_program = Exited 0"
proof -
  have "signalled site_platform site_file (site_pass True [Signal_event SIGTERM_number]) initial_program SIGTERM_number
      (pass_start initial_program)"
    by (rule site_signalled) (simp_all add: initial_program_def)
  from signal_ends_the_pass [OF this initial_clean, of "[]"] show ?thesis by (simp add: signal_numbers)
qed



text \<open>
  (C28) A configuration that cannot be read ends a running server: if at a reload the file cannot be opened or
  is not TOML, the pass before it is over already, with its connections closed and its queue lost,
  and the program exits with status -1.
\<close>

theorem broken_configuration_ends_server:
  assumes "signalled P fileName rd p SIGUSR1 t" and "clean p"
    and "read_file (ps_files rd') fileName = None
       \<or> (\<exists>text message. read_file (ps_files rd') fileName = Some text \<and> pf_parse P text fileName = Inl message)"
  shows "main_loop P fileName (rd # rd' # rds) p = Exited (- 1)"
proof -
  from teardown_spec [OF signalled_inv [OF assms(1,2)], of rd SIGUSR1] obtain q where
    "pass_teardown rd (deliver_signal SIGUSR1 t) = Val q" by blast
  moreover from assms(3) obtain e where "config_load (ps_files rd') (pf_parse P) fileName = Throw e"
    by (auto simp add: config_load_def)
  then have "main_pass P fileName rd' q = Throw e" for q by (simp add: main_pass_def pass_setup_def)
  ultimately show ?thesis by (simp add: signalled_stops [OF assms(1)] main_catch_def log_fatal_def)
qed

theorem broken_configuration_ends_server_witness:
  "main_loop site_platform site_file [site_pass True [Signal_event SIGUSR1], site_pass False []] initial_program
     = Exited (- 1)"
proof -
  have "signalled site_platform site_file (site_pass True [Signal_event SIGUSR1]) initial_program SIGUSR1
      (pass_start initial_program)"
    by (rule site_signalled) (simp_all add: initial_program_def)
  from broken_configuration_ends_server [OF this initial_clean] show ?thesis by (simp add: site_pass_def)
qed

text \<open>
  (C6) No callback fails in any pass: after any number of reloads of the idle program, with whatever
  configurations and events, for bodies within the configured limit, and as long as the HTTP library can
  create responses (when it cannot, the exception leaves a \<open>noexcept\<close> function and the program is
  terminated), every event that can occur in the pass that runs is handled to its end, except for a
  command that is due while \<open>fork\<close> fails. The program comes to that pass: started with the options of the command line, it goes on with the
  passes after the reloads.
\<close>

theorem no_callback_fails_in_any_pass:
  fixes P :: "('c, 'j, 't) platform"
  assumes "start_logging vm = (Val fileName, l)" and "machine_run (idle_pass P fileName) initial_program rds q"
    and "pass_setup P fileName rd q = Val (D, s)" and "server_run (fits D) D (pass_start q) es t"
    and "\<And>body. mhd_create (mhd (pf_libs P)) body" and "server_enabled e t" and "fits D e t"
  shows "(\<forall>later. program_main P vm (rds @ later) = main_loop P fileName later q)
     \<and> ((\<exists>u. server_callback D e t = Val u) \<or> fork_fails D e t)"
proof -
  note d = pass_setup_deployment [OF assms(3)]
  have "clean q"
    using assms(2) initial_clean by (rule machine_run_inv) (rule idle_pass_clean)
  then have inv: "loop_inv (actions_of (pass_start q :: 'c server_state))" by (rule pass_start_inv)
  from d assms(5) have create: "mhd_create (mhd (d_libs D)) body" and lim: "d_limit D < 2 ^ 64" for body by simp_all
  from server_run_invariant [OF assms(4) [unfolded pass_start_def] inv [unfolded pass_start_def] create lim]
  have "server_inv D t" .
  then have "works D e t \<or> fork_fails D e t"
    by (rule server_event_works) (use assms(5-7) d in simp_all)
  then show ?thesis using idle_passes_next [OF assms(2)] assms(1) by (auto simp add: works_def program_main_def)
qed

theorem no_callback_fails_in_any_pass_witness:
  "\<exists>q u. program_main site_platform (quiet_options\<lparr>opt_config := site_file\<rparr>) [site_pass True [Signal_event SIGUSR1]] = Next_pass q
     \<and> server_callback site_deployment (Request_first 1 good_headers ''/status'' ''GET'') (pass_start q) = Val u"
proof -
  let ?rd = "site_pass True [Signal_event SIGUSR1]"
  have sig: "signalled site_platform site_file ?rd initial_program SIGUSR1 (pass_start initial_program)"
    by (rule site_signalled) (simp_all add: initial_program_def)
  from teardown_spec [OF signalled_inv [OF sig initial_clean], of ?rd SIGUSR1] obtain q where
    q: "pass_teardown ?rd (deliver_signal SIGUSR1 (pass_start initial_program)) = Val q" by blast
  have "\<not> busy (scheduler (sv_world (pass_start initial_program :: headers server_state)))"
    by (simp add: pass_start_def server_start_def busy_def)
  with sig q have i: "idle_pass site_platform site_file initial_program ?rd q" by (auto simp add: idle_pass_def)
  then have run: "machine_run (idle_pass site_platform site_file) initial_program [?rd] q"
    using mr_snoc [OF mr_nil, of "idle_pass site_platform site_file"] by simp
  have "\<not> pr_singleton q" using idle_pass_clean [OF i initial_clean] by (simp add: clean_def)
  then obtain s where s: "pass_setup site_platform site_file (site_pass True []) q = Val (site_deployment, s)"
    using site_pass_setup by blast
  have en: "server_enabled (Request_first 1 good_headers ''/status'' ''GET'') (pass_start q)"
    by (simp add: pass_start_def server_start_def)
  obtain l where "start_logging (quiet_options\<lparr>opt_config := site_file\<rparr>) = (Val site_file, l)"
    by (simp add: start_logging_def command_line_def quiet_options_def Let_def)
  from no_callback_fails_in_any_pass [OF this run s mr_nil _ en] show ?thesis
    by (auto simp add: site_platform_def fork_fails_def dest: spec [of _ "[]"])
qed

end
