(* ===== verification/Main_Errors.thy ===== *)
theory Main_Errors
  imports Main_Facts
begin

text \<open>
  Errors at the start of a pass: whatever the configuration file, the users and the HTTP library are, the
  set-up gives a running server, or an exception that \<open>main\<close> reports; only an assertion can stop it
  otherwise, and a build without assertions has none.
\<close>

section \<open>Operations that only an assertion can abort\<close>

definition soft :: "bool \<Rightarrow> 'a res \<Rightarrow> bool" where
  "soft nd r \<longleftrightarrow> (\<forall>f. r = Abort f \<longrightarrow> \<not> nd \<and> f = Assertion)"

named_theorems soft_rules "results without aborts except for assertions"

lemma soft_simps [simp]: "soft nd (Val x)" "soft nd (Throw e)" "soft nd (cassert nd c)"
  by (auto simp add: soft_def cassert_def)

lemma soft_toml [simp]: "soft nd (toml_res t)"
  by (cases t) simp_all

lemma soft_bnd [soft_rules]: "soft nd r \<Longrightarrow> (\<And>x. r = Val x \<Longrightarrow> soft nd (f x)) \<Longrightarrow> soft nd (bnd r f)"
  by (cases r) (simp_all add: soft_def)

lemma soft_if [soft_rules]: "(c \<Longrightarrow> soft nd r) \<Longrightarrow> (\<not> c \<Longrightarrow> soft nd r') \<Longrightarrow> soft nd (if c then r else r')"
  by simp

lemma soft_option [soft_rules]:
  "(x = None \<Longrightarrow> soft nd r) \<Longrightarrow> (\<And>y. x = Some y \<Longrightarrow> soft nd (f y)) \<Longrightarrow> soft nd (case x of None \<Rightarrow> r | Some y \<Rightarrow> f y)"
  by (cases x) simp_all

lemma soft_items [simp]:
  "soft nd (item_key T v key)" "soft nd (item_index T v i)" "soft nd (item_size T v)" "soft nd (item_contains T v key)"
  "soft nd (item_to_string T v)" "soft nd (item_to_int_range T v low high)"
  by (simp_all add: item_key_def item_index_def item_size_def item_contains_def item_to_string_def
      item_to_int_range_def soft_bnd soft_option)

lemma soft_map_res: "(\<And>x. soft nd (f x)) \<Longrightarrow> soft nd (map_res f xs)"
  by (induction xs) (simp_all add: soft_bnd)

lemma soft_entries [simp]:
  "soft nd (string_at T v key)" "soft nd (string_view_at T v key)" "soft nd (string_list_from T v)"
  "soft nd (string_set_from T v)" "soft nd (item_to T k v)" "soft nd (load_file T F v)"
  by (auto simp add: string_at_def string_view_at_def string_list_from_def string_set_from_def item_to_def
      load_file_def Let_def split: prod.split intro!: soft_rules soft_map_res)

lemma soft_optional: "(\<And>c. soft nd (conv c)) \<Longrightarrow> soft nd (optional_entry T v key dflt conv)"
  by (auto simp add: optional_entry_def intro!: soft_rules)

lemma soft_users [simp]: "soft nd (user_group_from T db v)"
  by (auto simp add: user_group_from_def user_group_of_names_def user_group_of_user_def Let_def
      split: option.split intro!: soft_rules)

lemma soft_create [simp]: "soft nd (create T db uid v)"
  by (auto simp add: create_def debug_hook_def pipeline_hook_def hook_base_def Let_def
      intro!: soft_rules soft_optional)

lemma soft_chain [simp]: "soft nd (chain nd h other)"
  by (auto simp add: chain_def cassert_def soft_def)

lemma soft_add_handler [simp]: "soft nd (add_handler table path h)"
  by (auto simp add: add_handler_def Let_def intro!: soft_rules)

lemma soft_register_loop: "soft nd (register_loop nd T db uid cfg is st)"
proof (induction "is" arbitrary: st)
  case (Cons i "is")
  then show ?case
    by (auto simp add: register_hook_def split: prod.split intro!: soft_rules)
qed simp

lemma soft_setup_handlers [simp]: "soft nd (setup_handlers nd T db uid root)"
  by (auto simp add: setup_handlers_def soft_register_loop intro!: soft_rules)

lemma soft_if_entry: "(\<And>c. soft nd (conv c)) \<Longrightarrow> (\<And>x m. soft nd (setter x m)) \<Longrightarrow> soft nd (if_entry T cfg key conv setter m)"
  by (auto simp add: if_entry_def intro!: soft_rules)

lemma soft_setters [simp]:
  "soft nd (set_ip nd aton addr m)" "soft nd (set_port nd p m)" "soft nd (set_local_cert nd c m)"
  "soft nd (set_private_key c m)" "soft nd (set_max_connections nd k m)" "soft nd (set_max_connections_per_ip nd k m)"
  "soft nd (set_memory_limit nd b m)" "soft nd (set_content_size_limit nd b m)" "soft nd (set_connection_timeout nd k m)"
  by (auto simp add: set_ip_def set_port_def set_local_cert_def set_private_key_def set_max_connections_def
      set_max_connections_per_ip_def set_memory_limit_def set_content_size_limit_def set_connection_timeout_def
      Let_def intro!: soft_rules)

lemma soft_http_server [simp]: "soft nd (http_server nd T F aton cfg)"
  by (auto simp add: http_server_def intro!: soft_rules soft_if_entry)

lemma soft_start_server [simp]: "soft nd (start_server nd mhd_start epoll m)"
proof -
  obtain data where "server_options nd m = Val data" using server_options_Val by blast
  then show ?thesis by (auto simp add: start_server_def intro!: soft_rules)
qed

lemma soft_pass_setup: "soft (pf_ndebug P) (pass_setup P fileName rd p)"
  by (auto simp add: pass_setup_def config_load_def create_actions_def file_key_def Let_def
      split: prod.split intro!: soft_rules)

section \<open>The property\<close>

text \<open>
  (C14) A pass starts, or the program says why not: for every configuration file, user database and answer of
  the HTTP library the set-up either gives a running server or ends the program with status -1 through
  the \<open>catch\<close> clause of \<open>main\<close>. There is no undefined behaviour, no call of \<open>std::terminate\<close> and no
  endless loop; the only other end is a failed assertion, in a build that has them.
\<close>

theorem start_fails_cleanly:
  "(\<exists>D s. pass_setup P fileName rd p = Val (D, s)) \<or> main_loop P fileName (rd # rds) p = Exited (- 1)
   \<or> main_loop P fileName (rd # rds) p = Crashed Assertion \<and> pf_ndebug P = False"
proof (cases "pass_setup P fileName rd p")
  case (Val r)
  then show ?thesis by (cases r) simp
next
  case (Throw e)
  then show ?thesis by (simp add: main_pass_def main_catch_def log_fatal_def)
next
  case (Abort f)
  with soft_pass_setup [of P fileName rd p] show ?thesis by (auto simp add: soft_def main_pass_def)
qed

theorem start_fails_cleanly_witness:
  "main_loop site_platform site_file [site_pass False []] initial_program = Exited (- 1)
   \<and> (\<exists>D s. pass_setup site_platform site_file (site_pass True []) initial_program = Val (D, s))"
proof -
  have "\<nexists>D s. pass_setup site_platform site_file (site_pass False []) initial_program = Val (D, s)"
    by (simp add: pass_setup_def config_load_def site_pass_def)
  moreover have "main_loop site_platform site_file [site_pass False []] initial_program \<noteq> Crashed Assertion"
    by (simp add: main_pass_def pass_setup_def config_load_def site_pass_def main_catch_def log_fatal_def)
  moreover have "\<not> pr_singleton initial_program" by (simp add: initial_program_def)
  ultimately show ?thesis
    using start_fails_cleanly [of site_platform site_file "site_pass False []" initial_program "[]"]
      site_pass_setup [of initial_program "[]"] by blast
qed

end
