(* ===== verification/Command_History.thy ===== *)
theory Command_History
  imports Server_Progress Job_Queue Command_Facts Hook_Facts
begin

text \<open>
  What the server schedules, exactly: every call for a request appends one job for each hook of the chain
  that accepts the event in the body, in the order of the chain, and nothing else in the server adds a
  job. Over a whole run the jobs that were started, followed by those that wait, are therefore the jobs
  that the history of the requests asks for.
\<close>

section \<open>What one hook schedules\<close>

text \<open>The variables of an environment that report the event and its matching builds.\<close>

definition env_carries :: "'j json_api \<Rightarrow> environment \<Rightarrow> string \<Rightarrow> 'j \<Rightarrow> string \<Rightarrow> bool" where
  "env_carries J env var v key \<longleftrightarrow>
     (\<exists>s. string_of_key J v key = Val s \<and> getenv (env_get env) var = Some (c_str s))"

definition reports_event :: "'j json_api \<Rightarrow> string set \<Rightarrow> 'j \<Rightarrow> environment \<Rightarrow> bool" where
  "reports_event J jobs js env \<longleftrightarrow> (\<exists>attrs project builds pid url server.
       at_key J js ''object_attributes'' = Val attrs \<and> at_key J js ''project'' = Val project
     \<and> builds_of J js = Val builds
     \<and> getenv (env_get env) ''CI_JOB_NAMES''
         = Some (c_str (join_words (map (job_name J) (filter (job_matches J jobs) builds))))
     \<and> getenv (env_get env) ''CI_JOB_IDS''
         = Some (c_str (join_words (map (\<lambda>job. number_text (uint64_of_key J job ''id''))
             (filter (job_matches J jobs) builds))))
     \<and> env_carries J env ''CI_COMMIT_REF_NAME'' attrs ''ref'' \<and> env_carries J env ''CI_COMMIT_SHA'' attrs ''sha''
     \<and> uint64_of_key J attrs ''id'' = Val pid
     \<and> getenv (env_get env) ''CI_PIPELINE_ID'' = Some (c_str (nat_to_string (unat pid)))
     \<and> env_carries J env ''CI_PROJECT_PATH'' project ''path_with_namespace''
     \<and> env_carries J env ''CI_PROJECT_TITLE'' project ''name'' \<and> env_carries J env ''CI_PROJECT_URL'' project ''web_url''
     \<and> string_of_key J project ''web_url'' = Val url \<and> server_of_url url = Val server
     \<and> getenv (env_get env) ''CI_SERVER_URL'' = Some (c_str server))"

lemma carries_env: "carries J p var v key = env_carries J (p_env p) var v key"
  by (simp add: carries_def env_carries_def)

lemma pipeline_process_reports:
  assumes "pipeline_process J d statuses jobs event js w = (Val Accepted_outcome, w')"
  shows "\<exists>p. scheduled_process w' = Some p \<and> reports_event J jobs js (p_env p)"
  using scheduled_command_environment [OF assms] unfolding carries_env reports_event_def
  by (elim exE conjE) (intro exI conjI; assumption)

text \<open>The job a hook asks for when it accepts an event.\<close>

fun job_for :: "'j json_api \<Rightarrow> string \<Rightarrow> 'j \<Rightarrow> hook_data \<times> hook_kind \<Rightarrow> callable job \<Rightarrow> bool" where
  "job_for J event js (d, Debug_hook) j \<longleftrightarrow> j = Functor (hook_name d) (Print_event event (j_dump J js))"
| "job_for J event js (d, Pipeline_hook statuses jobs) j \<longleftrightarrow> event = ''Pipeline Hook'' \<and> mCommand d \<noteq> [] \<and> (\<exists>program args env.
       j = Command (hook_name d) program args env (mUserGroup d) (mTimeout d)
     \<and> (program, args) = split_command (mCommand d) \<and> reports_event J jobs js env)"

text \<open>A part of the program that appends exactly the given jobs to the action list.\<close>

definition schedules :: "callable job list \<Rightarrow> world \<Rightarrow> world \<Rightarrow> bool" where
  "schedules js w w' \<longleftrightarrow> (\<exists>es. (\<forall>e\<in>set es. appends_job e) \<and> concat (map added_jobs es) = map Some js
     \<and> (\<forall>nd K. run_events nd es \<lparr>acts = scheduler w, kids = K\<rparr> = Some \<lparr>acts = scheduler w', kids = K\<rparr>))"

lemma schedules_none: "scheduler w' = scheduler w \<Longrightarrow> schedules [] w w'"
  by (simp add: schedules_def exI [of _ "[]"])

lemma schedules_append:
  assumes "schedules is u v" and "schedules js v w"
  shows "schedules (is @ js) u w"
proof -
  obtain es fs where "\<forall>e\<in>set es. appends_job e" "concat (map added_jobs es) = map Some is"
    "\<forall>nd K. run_events nd es \<lparr>acts = scheduler u, kids = K\<rparr> = Some \<lparr>acts = scheduler v, kids = K\<rparr>"
    "\<forall>e\<in>set fs. appends_job e" "concat (map added_jobs fs) = map Some js"
    "\<forall>nd K. run_events nd fs \<lparr>acts = scheduler v, kids = K\<rparr> = Some \<lparr>acts = scheduler w, kids = K\<rparr>"
    using assms by (auto simp add: schedules_def)
  then show ?thesis
    unfolding schedules_def by (intro exI [of _ "es @ fs"]) (auto simp add: run_events_append)
qed

lemma schedules_from: "scheduler v = scheduler w \<Longrightarrow> schedules js v w' = schedules js w w'"
  by (simp add: schedules_def)

lemma schedules_event:
  assumes "appends_job e" and "\<And>nd. run_event nd e (scheduler w) = Val (scheduler w')" and "added_jobs e = [Some j]"
  shows "schedules [j] w w'"
proof -
  have "enabled e s \<and> kids_after e s = kids s" for s
    using assms(1) by (cases e) auto
  with assms show ?thesis by (auto simp add: schedules_def intro!: exI [of _ "[e]"])
qed

lemma execute_command_event:
  assumes "execute_command J d js env w = (res, w')"
  obtains (nothing) "w' = w" "res \<noteq> Val Accepted_outcome"
    | (command) program args p where "res = Val Accepted_outcome" "mCommand d \<noteq> []" "(program, args) = split_command (mCommand d)"
        "scheduled_process w' = Some p"
        "\<And>nd. run_event nd (Ev_command (hook_name d) program args (p_env p) (mUserGroup d) (mTimeout d)) (scheduler w)
           = Val (scheduler w')" "hooksScheduled w' = hooksScheduled w + 1"
proof -
  obtain program args where sp: "split_command (mCommand d) = (program, args)" by force
  have frame: "mem (procs (append_item i s)) = mem (procs s)" "actions (append_item i s) = actions s @ [i]"
    for i and s :: "callable action_state"
    by (simp_all add: append_item_def Let_def)
  show thesis
  proof (cases "mCommand d = []")
    case True
    with assms have "w' = w" "res \<noteq> Val Accepted_outcome" by (auto simp add: execute_command_def)
    then show thesis by (rule nothing)
  next
    case False
    show thesis
    proof (cases "command_environment J js (mEnvironment d) env")
      case (Val env')
      with False sp assms have "res = Val Accepted_outcome" and w': "w' = w\<lparr>scheduler := append_process (hook_name d)
          (brk (procs (scheduler w))) (mTimeout d) ((scheduler w)\<lparr>procs := (procs (scheduler w))
          \<lparr>brk := Suc (brk (procs (scheduler w))), mem := (mem (procs (scheduler w)))(brk (procs (scheduler w)) \<mapsto>
             fresh_impl\<lparr>p_program := program, p_args := args, p_env := env', p_user := mUserGroup d\<rparr>)\<rparr>\<rparr>),
          hooksScheduled := hooksScheduled w + 1\<rparr>"
        by (auto simp add: execute_command_def schedule_command_eq)
      then show thesis
        by (intro command [of program args "fresh_impl\<lparr>p_program := program, p_args := args, p_env := env', p_user := mUserGroup d\<rparr>"])
          (simp_all add: False sp schedule_command_eq scheduled_process_def append_process_def frame)
    next
      case (Throw e)
      with False assms have "w' = w" "res \<noteq> Val Accepted_outcome" by (auto simp add: execute_command_def)
      then show thesis by (rule nothing)
    next
      case (Abort f)
      with False assms have "w' = w" "res \<noteq> Val Accepted_outcome" by (auto simp add: execute_command_def)
      then show thesis by (rule nothing)
    qed
  qed
qed

lemma pipeline_process_execute:
  assumes "pipeline_process J d statuses jobs event js w = (res, w')"
  obtains (nothing) "w' = w" "res \<noteq> Val Accepted_outcome"
    | (command) env where "event = ''Pipeline Hook''" "execute_command J d js env w = (res, w')"
proof -
  have split: "then_do (r, w) f = (res, w') \<longleftrightarrow>
      (case r of Val x \<Rightarrow> f x w = (res, w') | Throw e \<Rightarrow> res = Throw e \<and> w' = w | Abort a \<Rightarrow> res = Abort a \<and> w' = w)"
    for r :: "'x res" and f
    by (cases r) auto
  have "w' = w \<and> res \<noteq> Val Accepted_outcome
      \<or> event = ''Pipeline Hook'' \<and> (\<exists>env. execute_command J d js env w = (res, w'))"
    using assms unfolding pipeline_process_def
    by (auto simp add: split split: if_splits res.splits prod.splits)
  then show thesis
    by (elim disjE exE conjE) (rule nothing, assumption+, rule command)
qed

lemma pipeline_process_job:
  assumes "pipeline_process J d statuses jobs event js w = (Val Accepted_outcome, w')"
  shows "\<exists>j. job_for J event js (d, Pipeline_hook statuses jobs) j \<and> schedules [j] w w'"
  using assms
proof (cases rule: pipeline_process_execute)
  case nothing
  then show ?thesis by simp
next
  case (command env)
  from command(2) show ?thesis
  proof (cases rule: execute_command_event)
    case nothing
    then show ?thesis by simp
  next
    case c: (command program args p)
    let ?j = "Command (hook_name d) program args (p_env p) (mUserGroup d) (mTimeout d)"
    from pipeline_process_reports [OF assms] c(4) have r: "reports_event J jobs js (p_env p)" by simp
    have "job_for J event js (d, Pipeline_hook statuses jobs) ?j"
      unfolding job_for.simps by (intro conjI exI) (rule command(1) c(2) refl c(3) r)+
    moreover have "schedules [?j] w w'" by (rule schedules_event [OF _ c(5)]) simp_all
    ultimately show ?thesis by blast
  qed
qed

text \<open>An accepted event appends the hook's job and counts it; otherwise nothing changes.\<close>

lemma pipeline_process_accepts:
  assumes "pipeline_process J d statuses jobs event js w = (Val Accepted_outcome, w')"
    and "loop_inv \<lparr>acts = scheduler w, kids = K\<rparr>"
  shows "(\<exists>program args env. (program, args) = split_command (mCommand d) \<and> reports_event J jobs js env
        \<and> jobs_of (scheduler w') = jobs_of (scheduler w)
            @ [Some (Command (hook_name d) program args env (mUserGroup d) (mTimeout d))])
     \<and> loop_inv \<lparr>acts = scheduler w', kids = K\<rparr> \<and> hooksScheduled w' = hooksScheduled w + 1"
  using assms(1)
proof (cases rule: pipeline_process_execute)
  case nothing
  then show ?thesis by simp
next
  case (command env)
  from command(2) show ?thesis
  proof (cases rule: execute_command_event)
    case nothing
    then show ?thesis by simp
  next
    case c: (command program args p)
    from pipeline_process_reports [OF assms(1)] c(4) have r: "reports_event J jobs js (p_env p)" by simp
    have e: "run_event True (Ev_command (hook_name d) program args (p_env p) (mUserGroup d) (mTimeout d))
        (acts \<lparr>acts = scheduler w, kids = K\<rparr>) = Val (scheduler w')" using c(5) by simp
    from append_jobs [OF assms(2) _ e] have jobs: "jobs_of (scheduler w') = jobs_of (scheduler w)
        @ [Some (Command (hook_name d) program args (p_env p) (mUserGroup d) (mTimeout d))]" by simp
    from command_step_inv [OF assms(2), of True "hook_name d" program args "p_env p" "mUserGroup d" "mTimeout d"] e
    have "loop_inv \<lparr>acts = scheduler w', kids = K\<rparr>" by auto
    with c(3,6) r jobs show ?thesis by (intro conjI exI)
  qed
qed

lemma pipeline_process_refuses:
  assumes "pipeline_process J d statuses jobs event js w = (res, w')" and "res \<noteq> Val Accepted_outcome"
  shows "w' = w"
  using assms(1)
proof (cases rule: pipeline_process_execute)
  case (command env)
  from command(2) show ?thesis by (cases rule: execute_command_event) (use assms(2) in auto)
qed

text \<open>
  (C18) A pipeline hook that processes an event without an exception schedules its command exactly if the
  event is a pipeline event, its status is one of the configured ones (any, if none is configured),
  at least one of its builds has a configured name and succeeded, and the configured command is not
  empty. Then one job is appended at the end of the action list, with the words of the command, an
  environment that reports the event, and the hook's user and timeout, and the hook is counted; the list
  stays in a state in which this job is due when its turn comes. Otherwise nothing changes.
\<close>

theorem pipeline_hook_triggers_iff:
  assumes "pipeline_process J d statuses jobs event js w = (Val oc, w')"
    and "loop_inv \<lparr>acts = scheduler w, kids = K\<rparr>"
  shows "(oc = Accepted_outcome \<longleftrightarrow> event = ''Pipeline Hook''
     \<and> (\<exists>status. status_of J js = Val status \<and> (statuses = {} \<or> status \<in> statuses))
     \<and> (\<exists>builds. builds_of J js = Val builds \<and> (\<exists>job\<in>set builds. job_matches J jobs job))
     \<and> mCommand d \<noteq> [])
   \<and> (if oc = Accepted_outcome
      then (\<exists>program args env. (program, args) = split_command (mCommand d) \<and> reports_event J jobs js env
              \<and> jobs_of (scheduler w') = jobs_of (scheduler w)
                  @ [Some (Command (hook_name d) program args env (mUserGroup d) (mTimeout d))])
           \<and> loop_inv \<lparr>acts = scheduler w', kids = K\<rparr> \<and> hooksScheduled w' = hooksScheduled w + 1
      else w' = w)"
proof
  show "oc = Accepted_outcome \<longleftrightarrow> event = ''Pipeline Hook''
     \<and> (\<exists>status. status_of J js = Val status \<and> (statuses = {} \<or> status \<in> statuses))
     \<and> (\<exists>builds. builds_of J js = Val builds \<and> (\<exists>job\<in>set builds. job_matches J jobs job))
     \<and> mCommand d \<noteq> []"
    using assms(1) by (rule pipeline_outcome_iff)
  show "if oc = Accepted_outcome
      then (\<exists>program args env. (program, args) = split_command (mCommand d) \<and> reports_event J jobs js env
              \<and> jobs_of (scheduler w') = jobs_of (scheduler w)
                  @ [Some (Command (hook_name d) program args env (mUserGroup d) (mTimeout d))])
           \<and> loop_inv \<lparr>acts = scheduler w', kids = K\<rparr> \<and> hooksScheduled w' = hooksScheduled w + 1
      else w' = w"
    using pipeline_process_accepts [of J d statuses jobs event js w w' K] pipeline_process_refuses [OF assms(1)] assms
    by simp
qed

lemma hook_process_job:
  assumes "hook_process J l event js w = (Val Accepted_outcome, w')"
  shows "\<exists>j. job_for J event js l j \<and> schedules [j] w w'"
proof (cases "(J, l, event, js, w)" rule: hook_process.cases)
  case (1 J' d event' js' v)
  let ?f = "Print_event event (j_dump J js)"
  from 1 assms have w': "w' = w\<lparr>scheduler := append_function (hook_name d) ?f (scheduler w), hooksScheduled := hooksScheduled w + 1\<rparr>"
    by (simp add: debug_process_def execute_function_def)
  have "schedules [Functor (hook_name d) ?f] w w'"
    by (rule schedules_event [of "Ev_function (hook_name d) ?f"]) (simp_all add: w')
  with 1 show ?thesis by simp
next
  case (2 J' d statuses jobs event' js' v)
  with assms have "pipeline_process J d statuses jobs event js w = (Val Accepted_outcome, w')" by simp
  from pipeline_process_job [OF this] 2 show ?thesis by simp
qed

section \<open>What one request schedules\<close>

lemma chain_loop_jobs:
  "chain_loop J token peer event js ls count w = (res, w') \<Longrightarrow>
     \<exists>jobs. list_all2 (job_for J event js) (accepting J event js (asked J token peer event js ls)) jobs \<and> schedules jobs w w'"
proof (induction ls arbitrary: count w)
  case Nil
  then show ?case by (simp add: asked_def accepting_def schedules_none)
next
  case (Cons l ls)
  let ?jobs = "\<lambda>ls jobs. list_all2 (job_for J event js) (accepting J event js (asked J token peer event js ls)) jobs"
  show ?case
  proof (cases "selects token peer l")
    case False
    with Cons.prems Cons.IH [of count w] show ?thesis by (simp add: asked_def)
  next
    case True
    obtain r v where h: "hook_process J l event js w = (r, v)" by force
    with hook_process_acts [of J event js l w] have r: "decision J event js l = r" and same: "r \<noteq> Val Accepted_outcome \<Longrightarrow> v = w"
      by (auto simp add: acts_as_def split: if_splits)
    consider (more) oc where "r = Val oc" "oc \<noteq> Stop" | (stop) "\<forall>oc. r \<noteq> Val oc" | (never) "r = Val Stop" by blast
    then show ?thesis
    proof cases
      case more
      then obtain n where "chain_loop J token peer event js ls n v = (res, w')"
        using h True Cons.prems by (cases oc) auto
      from Cons.IH [OF this] obtain jobs where jobs: "?jobs ls jobs" "schedules jobs v w'" by blast
      show ?thesis
      proof (cases "oc = Accepted_outcome")
        case True
        with h more hook_process_job [of J l event js w v] obtain j where j: "job_for J event js l j" "schedules [j] w v" by auto
        with jobs schedules_append [OF j(2) jobs(2)] show ?thesis
          using r more True \<open>selects token peer l\<close> by (intro exI [of _ "j # jobs"]) (simp add: asked_def accepting_def)
      next
        case False
        with r more same jobs \<open>selects token peer l\<close> show ?thesis
          by (intro exI [of _ jobs]) (simp add: asked_def accepting_def)
      qed
    next
      case stop
      with h True Cons.prems have "w' = v" by (cases r) auto
      with stop same r True show ?thesis by (auto simp add: asked_def accepting_def intro!: schedules_none)
    next
      case never
      with r decision_not_Stop [of J event js l] show ?thesis by simp
    qed
  qed
qed

text \<open>
  What a request triggers: the request is the connection, the path and the body; the event is in the
  headers of the connection and the document in the body, and the hooks are those of the chain
  registered for the path that are asked and accept the event.
\<close>

definition header_of :: "'c mhd \<Rightarrow> 'c \<Rightarrow> string \<Rightarrow> string" where
  "header_of M c key = (case mhd_header M c key of None \<Rightarrow> [] | Some v \<Rightarrow> v)"

definition peer_text :: "('c, 'j) services \<Rightarrow> 'c \<Rightarrow> string" where
  "peer_text S c = addr_to_string (inet_ntop S) (mhd_client_addr (mhd S) c)"

definition hooks_triggered ::
  "('c, 'j) deployment \<Rightarrow> 'c \<Rightarrow> string \<Rightarrow> string \<Rightarrow> (string \<times> 'j \<times> hook_data \<times> hook_kind) list" where
  "hooks_triggered D c path body =
     (let J = json (d_libs D); event = header_of (mhd (d_libs D)) c ''X-Gitlab-Event'' in
      case (find_handler (d_handlers D) path, j_parse J body) of
        (Val (Some (Hook_handler h)), Inr js) \<Rightarrow>
          if log_request J js = Val ()
          then map (\<lambda>l. (event, js, l)) (accepting J event js
            (asked J (header_of (mhd (d_libs D)) c ''X-Gitlab-Token'') (peer_text (d_libs D) c) event js (links h)))
          else []
      | _ \<Rightarrow> [])"

fun asks :: "'j json_api \<Rightarrow> string \<times> 'j \<times> hook_data \<times> hook_kind \<Rightarrow> callable job \<Rightarrow> bool" where
  "asks J (event, js, l) j = job_for J event js l j"

lemma asks_map: "list_all2 (asks J) (map (\<lambda>l. (event, js, l)) ls) jobs = list_all2 (job_for J event js) ls jobs"
  by (simp add: list_all2_map1)

text \<open>A request whose body is awaited: it has the continuation of the hook found for its path.\<close>

definition request_of :: "('c, 'j) deployment \<Rightarrow> 'c \<Rightarrow> string \<Rightarrow> 'c hook_request \<Rightarrow> bool" where
  "request_of D c path r \<longleftrightarrow> rconn r = c \<and> (\<forall>k. rhandler r = Some k \<longrightarrow>
     (\<exists>h. find_handler (d_handlers D) path = Val (Some (Hook_handler h)) \<and> k = Continue h (peer_text (d_libs D) c)))"

definition request_waiting :: "('c, 'j) deployment \<Rightarrow> 'c \<Rightarrow> string \<Rightarrow> 'c hook_request \<Rightarrow> bool" where
  "request_waiting D c path r \<longleftrightarrow> request_of D c path r \<and> has_body (rmethod r) \<and> rhandler r \<noteq> None"

lemma request_waitingE:
  assumes "request_waiting D c path r"
  obtains h where "find_handler (d_handlers D) path = Val (Some (Hook_handler h))"
    "rhandler r = Some (Continue h (peer_text (d_libs D) c))" "rconn r = c" "has_body (rmethod r)"
  using assms by (auto simp add: request_waiting_def request_of_def)

lemma process_content_jobs:
  assumes "process_content nd (d_libs D) h (peer_text (d_libs D) c) r w = (res, w')"
    and "find_handler (d_handlers D) path = Val (Some (Hook_handler h))"
    and "rconn r = c" and "has_body (rmethod r)" and "rstate r = Completed"
  shows "\<exists>jobs. list_all2 (asks (json (d_libs D))) (hooks_triggered D c path (content r)) jobs \<and> schedules jobs w w'"
proof -
  let ?J = "json (d_libs D)" and ?w = "w\<lparr>hooksGoodRequests := hooksGoodRequests w + 1\<rparr>"
  have body: "req_content nd r = Val (content r)" using assms(4,5) by (simp add: req_content_def)
  have headers: "req_header (mhd (d_libs D)) key r = header_of (mhd (d_libs D)) c key" for key
    using assms(3) by (simp add: req_header_def header_of_def)
  have none: "hooks_triggered D c path (content r) = [] \<and> w' = ?w"
    if "\<And>js. j_parse ?J (content r) = Inr js \<Longrightarrow> log_request ?J js \<noteq> Val ()"
    using assms(1) that body
    by (cases "j_parse ?J (content r)"; cases "log_request ?J (projr (j_parse ?J (content r)))")
      (auto simp add: process_content_def hooks_triggered_def Let_def assms(2))
  show ?thesis
  proof (cases "\<exists>js. j_parse ?J (content r) = Inr js \<and> log_request ?J js = Val ()")
    case True
    then obtain js where js: "j_parse ?J (content r) = Inr js" "log_request ?J js = Val ()" by blast
    with assms(1) have "chain_loop ?J (header_of (mhd (d_libs D)) c ''X-Gitlab-Token'') (peer_text (d_libs D) c)
        (header_of (mhd (d_libs D)) c ''X-Gitlab-Event'') js (links h) 0 ?w = (res, w')"
      by (simp add: process_content_def Let_def headers body)
    from chain_loop_jobs [OF this] js assms(2) show ?thesis
      by (simp add: hooks_triggered_def Let_def asks_map schedules_from [of ?w w])
  next
    case False
    have "hooks_triggered D c path (content r) = [] \<and> w' = ?w"
      by (rule none) (use False in simp)
    then show ?thesis by (intro exI [of _ "[]"]) (simp add: schedules_none)
  qed
qed

section \<open>What one call schedules\<close>

lemma run_handler_request_of:
  assumes "run_handler nd (d_libs D) tt v h (fresh_request c m path limit) w = (res, r, w')"
    and "find_handler (d_handlers D) path = Val (Some h)"
  shows "request_of D c path r"
proof (cases h)
  case (Status_handler start)
  with assms(1) show ?thesis
    by (auto simp add: run_handler_def status_page_def respond_static_none respond_string_none fresh_request_def
        request_of_def split: if_splits)
next
  case (Hook_handler hk)
  have "peer_of (d_libs D) (fresh_request c m path limit) = peer_text (d_libs D) c"
    by (simp add: peer_of_def peer_text_def req_peer_address_def)
  with assms Hook_handler show ?thesis
    by (auto simp add: run_handler_def hook_call_eq Let_def respond_static_none fresh_request_def request_of_def
        split: if_splits option.splits)
qed

lemma newRequest_origin:
  assumes "newRequest nd (mhd (d_libs D)) (run_handler nd (d_libs D) tt v) (d_handlers D) limit c path meth s = (res, s')"
    and "connCls s = None"
  shows "scheduler (world s') = scheduler (world s) \<and> (\<forall>r. connCls s' = Some r \<longrightarrow> request_of D c path r)"
proof (cases "methodFrom meth = M_none \<or> find_handler (d_handlers D) path = Val None")
  case True
  with assms show ?thesis by (auto simp add: newRequest_def Let_def split: if_splits prod.splits)
next
  case False
  then obtain h where h: "methodFrom meth \<noteq> M_none" "find_handler (d_handlers D) path = Val (Some h)"
    using find_handler_total [of "d_handlers D" path] by auto
  obtain res1 r w1 where e: "run_handler nd (d_libs D) tt v h (fresh_request c (methodFrom meth) path limit) (world s)
      = (res1, r, w1)" by (metis prod.exhaust)
  from run_handler_scheduler [OF e] run_handler_request_of [OF e h(2)] h e assms show ?thesis
    by (auto simp add: newRequest_def Let_def split: res.splits prod.splits)
qed

lemma slot_call_first:
  assumes "slot_call D c path meth [] free_slot w = (Val ok, k)"
  shows "scheduler (world k) = scheduler w"
    and "ok \<Longrightarrow> queued_responses k = [] \<Longrightarrow> connCls k = Some r \<Longrightarrow> request_waiting D c path r"
proof -
  have o: "scheduler (world k) = scheduler w \<and> (\<forall>r. connCls k = Some r \<longrightarrow> request_of D c path r)"
    using assms unfolding slot_call_def by (elim answerCb_step) (auto dest!: newRequest_origin)
  then show "scheduler (world k) = scheduler w" by simp
  show "request_waiting D c path r" if "ok" "queued_responses k = []" "connCls k = Some r"
  proof -
    have "(\<exists>ok k. slot_call D c path meth [] free_slot w = (Val ok, k) \<and> length (queued_responses k) = (if ok then 1 else 0))
        \<or> (\<exists>r w'. slot_call D c path meth [] free_slot w
              = (Val True, \<lparr>connCls = Some r, queued_responses = [], world = w'\<rparr>) \<and> awaiting (d_limit D) r)"
      unfolding slot_call_def free_slot_simps by (rule hh.first_call [OF find_handler_total refl])
    with assms that have "awaiting (d_limit D) r" by auto
    with o that show ?thesis by (simp add: request_waiting_def awaiting_def)
  qed
qed

lemma slot_call_piece:
  fixes r :: "'a hook_request"
  assumes "slot_call D c path meth upload sl w = (Val ok, k)" and "sl_request sl = Some r" and "upload \<noteq> []"
  shows "world k = w" and "connCls k = Some r' \<Longrightarrow> request_waiting D c path r \<Longrightarrow> request_waiting D c path r'"
proof -
  have keep: "addContent nd M upload r = Val (ok, r') \<Longrightarrow> rconn r' = rconn r \<and> rhandler r' = rhandler r \<and> rmethod r' = rmethod r"
    for nd ok M and r' :: "'a hook_request"
    by (auto simp add: addContent_def res_simps split: if_splits)
  from assms show "world k = w"
    by (auto simp add: slot_call_def answerCb_def split: res.splits prod.splits)
  from assms show "request_waiting D c path r'" if "connCls k = Some r'" "request_waiting D c path r"
    using that by (auto simp add: slot_call_def answerCb_def request_waiting_def request_of_def
        split: res.splits prod.splits dest!: keep)
qed

lemma slot_call_last:
  assumes "slot_call D c path meth [] sl w = (Val ok, k)" and "sl_request sl = Some r" and "request_waiting D c path r"
  shows "\<exists>jobs. list_all2 (asks (json (d_libs D))) (hooks_triggered D c path (content r)) jobs \<and> schedules jobs w (world k)"
proof -
  let ?nd = "d_ndebug D" and ?S = "d_libs D" and ?r = "r\<lparr>rstate := Completed\<rparr>"
  let ?s = "\<lparr>connCls = Some r, queued_responses = sl_responses sl, world = w\<rparr>"
  from assms(3) obtain h where h: "find_handler (d_handlers D) path = Val (Some (Hook_handler h))"
    "rhandler r = Some (Continue h (peer_text ?S c))" "rconn r = c" "has_body (rmethod r)" by (rule request_waitingE)
  obtain res s where c: "completeRequest ?nd (mhd ?S) (hook_continue ?nd ?S) c r ?s = (res, s)" by force
  with assms(1,2) have "mhd_no_on_throw (res, s) = (Val ok, k)" by (simp add: slot_call_def answerCb_def)
  then have k: "k = s" "res \<noteq> Abort f" for f by (cases res; simp)+
  obtain res1 r1 w1 where hk: "hook_continue ?nd ?S (Continue h (peer_text ?S c)) ?r w = (res1, r1, w1)"
    by (metis prod.exhaust)
  then obtain res2 where p: "process_content ?nd ?S h (peer_text ?S c) ?r w = (res2, w1)"
    using hook_continue_world [OF hk] h(3) by auto
  from c h(2) hk k(2) have "world s = w1"
    by (auto simp add: completeRequest_def Let_def cassert_def split: res.splits prod.splits if_splits)
  with process_content_jobs [OF p h(1)] h(3,4) k(1) show ?thesis by simp
qed

section \<open>What one step schedules\<close>

definition slot_waiting :: "('c, 'j) deployment \<Rightarrow> 'c slot \<Rightarrow> bool" where
  "slot_waiting D sl \<longleftrightarrow> (\<forall>c path meth r. sl_phase sl = Receiving c path meth \<longrightarrow> sl_request sl = Some r
     \<longrightarrow> request_waiting D c path r)"

lemma slot_waitingD:
  "slot_waiting D sl \<Longrightarrow> sl_phase sl = Receiving c path meth \<Longrightarrow> sl_request sl = Some r \<Longrightarrow> request_waiting D c path r"
  by (simp add: slot_waiting_def)

lemma server_step_waiting:
  assumes "server_step P D s e t" and "\<And>i. slot_inv (sv_slots s i)" and "\<And>i. slot_waiting D (sv_slots s i)"
  shows "slot_waiting D (sv_slots t i)"
  using assms(1)
proof (cases rule: server_step_cases)
  case (call j c path meth upload final ok k)
  have "slot_waiting D (slot_after c path meth final ok k)"
  proof (cases "ok \<and> queued_responses k = [] \<and> \<not> final")
    case False
    then show ?thesis by (auto simp add: slot_waiting_def slot_after_def)
  next
    case True
    have "request_waiting D c path r'" if "connCls k = Some r'" for r'
    proof (cases "sl_phase (sv_slots s j) = Idle")
      case idle: True
      with call slot_inv_idle [OF assms(2) [of j]] have "slot_call D c path meth [] free_slot (sv_world s) = (Val ok, k)" by auto
      from slot_call_first(2) [OF this] True that show ?thesis by simp
    next
      case False
      with call True have ph: "sl_phase (sv_slots s j) = Receiving c path meth" and u: "upload \<noteq> []" by auto
      with assms(2) [of j] obtain r where r: "sl_request (sv_slots s j) = Some r" by (auto simp add: slot_inv_def)
      from slot_call_piece(2) [OF call(1) r u that] slot_waitingD [OF assms(3) ph r] show ?thesis by simp
    qed
    then show ?thesis by (simp add: slot_waiting_def slot_after_def)
  qed
  with call(2) assms(3) [of i] show ?thesis by (cases "i = j") auto
next
  case (completed j)
  with assms(3) [of i] show ?thesis by (cases "i = j") (auto simp add: slot_waiting_def)
next
  case other
  with assms(3) show ?thesis by auto
qed

lemma server_run_waiting:
  assumes "server_run P D (server_start ls w K) es s"
  shows "slot_waiting D (sv_slots s i)"
proof -
  have "(\<forall>i. slot_inv (sv_slots s i)) \<and> (\<forall>i. slot_waiting D (sv_slots s i))"
    using assms
    by (rule machine_run_inv)
      (auto simp add: server_start_def slot_waiting_def [of D free_slot] intro: server_step_slots server_step_waiting)
  then show ?thesis by simp
qed

text \<open>What an event of the server triggers: only the last call for a request does.\<close>

fun triggered :: "('c, 'j) deployment \<Rightarrow> 'c server_state \<Rightarrow> 'c server_event \<Rightarrow> (string \<times> 'j \<times> hook_data \<times> hook_kind) list" where
  "triggered D s (Request_last i) =
     (case (sl_phase (sv_slots s i), sl_request (sv_slots s i)) of
        (Receiving c path meth, Some r) \<Rightarrow> hooks_triggered D c path (content r)
      | _ \<Rightarrow> [])"
| "triggered D s e = []"

text \<open>A report of the action list, for the events of the server.\<close>

fun of_actions :: "(callable loop_state \<Rightarrow> callable event \<Rightarrow> 'n list) \<Rightarrow> 'c server_state \<Rightarrow> 'c server_event \<Rightarrow> 'n list" where
  "of_actions report s (Action_event e) = report (actions_of s) e"
| "of_actions report s e = []"

lemma server_step_jobs:
  assumes "server_step P D s e t" and "\<And>i. slot_inv (sv_slots s i)" and "\<And>i. slot_waiting D (sv_slots s i)"
  obtains (calls) jobs where "list_all2 (asks (json (d_libs D))) (triggered D s e) jobs"
      "schedules jobs (sv_world s) (sv_world t)" "sv_kids t = sv_kids s" "\<forall>f. e \<noteq> Action_event f"
    | (action) f where "e = Action_event f" "from_libevent f" "loop_step (d_ndebug D) (actions_of s) f (actions_of t)"
  using assms(1)
proof (cases rule: server_step_cases)
  case (call j c path meth upload final ok k)
  show thesis
  proof (cases "e = Request_last j")
    case True
    with call have ph: "sl_phase (sv_slots s j) = Receiving c path meth" and u: "upload = []" by auto
    with assms(2) [of j] obtain r where r: "sl_request (sv_slots s j) = Some r" by (auto simp add: slot_inv_def)
    from slot_call_last [OF call(1) [unfolded u] r slot_waitingD [OF assms(3) ph r]] True call(2) ph r show thesis
      by (auto intro: calls)
  next
    case False
    have "scheduler (world k) = scheduler (sv_world s)"
    proof (cases "sl_phase (sv_slots s j) = Idle")
      case True
      with call slot_inv_idle [OF assms(2) [of j]] have "slot_call D c path meth [] free_slot (sv_world s) = (Val ok, k)" by auto
      then show ?thesis by (rule slot_call_first)
    next
      case idle: False
      with call False have ph: "sl_phase (sv_slots s j) = Receiving c path meth" and u: "upload \<noteq> []" by auto
      with assms(2) [of j] obtain r where r: "sl_request (sv_slots s j) = Some r" by (auto simp add: slot_inv_def)
      from slot_call_piece(1) [OF call(1) r u] show ?thesis by simp
    qed
    moreover have "triggered D s e = []" "\<forall>f. e \<noteq> Action_event f" using call(3) False by auto
    ultimately show thesis using call(2) by (intro calls [of "[]"]) (simp_all add: schedules_none)
  qed
next
  case (completed j)
  then show thesis by (intro calls [of "[]"]) (simp_all add: schedules_none)
next
  case other
  from assms(1) have cb: "server_callback D e s = Val t" and en: "server_enabled e s" by (auto simp add: server_step_iff)
  show thesis
  proof (cases "\<exists>f. e = Action_event f")
    case True
    then obtain f where f: "e = Action_event f" by blast
    with cb en show thesis
      by (intro action) (auto simp add: action_callback_def bnd_Val_iff loop_step_iff actions_of_def)
  next
    case False
    with other(2) cb deliver_signal_frame [of _ s] show thesis
      by (intro calls [of "[]"]) (auto simp add: schedules_none)
  qed
qed

section \<open>The history of the commands\<close>

lemma list_all2_in:
  assumes "list_all2 P xs ys" and "x \<in> set xs"
  obtains y where "y \<in> set ys" "P x y"
  using assms by (metis in_set_conv_nth list_all2_conv_all_nth)

lemma traced_in:
  assumes "traced step report s es ns t" and "x \<in> set ns"
  shows "\<exists>es1 e es2 ns1 u v. es = es1 @ e # es2 \<and> traced step report s es1 ns1 u \<and> step u e v \<and> x \<in> set (report u e)"
  using assms
proof (induction rule: traced.induct)
  case (traced_snoc es ns t e u)
  show ?case
  proof (cases "x \<in> set ns")
    case True
    with traced_snoc.IH obtain es1 f es2 ns1 v w where "es = es1 @ f # es2" "traced step report s es1 ns1 v" "step v f w"
      "x \<in> set (report v f)" by blast
    then show ?thesis by (intro exI [of _ es1] exI [of _ f] exI [of _ "es2 @ [e]"]) auto
  next
    case False
    with traced_snoc.hyps traced_snoc.prems show ?thesis
      by (intro exI [of _ es] exI [of _ e] exI [of _ "[]"] exI [of _ ns] exI [of _ t] exI [of _ u]) auto
  qed
qed simp

text \<open>
  A log of the action list: what is left in the queue and what leaves it, event by event. The jobs that
  hooks append enter it, and appending takes nothing out.
\<close>

locale job_log =
  fixes left :: "callable loop_state \<Rightarrow> callable job option list"
    and leaves :: "callable loop_state \<Rightarrow> callable event \<Rightarrow> callable job option list"
  assumes law: "loop_inv s \<Longrightarrow> loop_step nd s e t \<Longrightarrow> left s @ added_jobs e = leaves s e @ left t"
    and append_keeps: "appends_job e \<Longrightarrow> leaves s e = []"
    and empty: "actions (acts s) = [] \<Longrightarrow> left s = []"
begin

lemma appended:
  assumes "loop_run nd s es t" and "loop_inv s" and "\<forall>e\<in>set es. appends_job e"
  shows "left t = left s @ concat (map added_jobs es)"
  using assms
proof (induction rule: loop_run.induct)
  case (run_snoc es t e u)
  have "loop_inv t" using run_snoc.hyps(1) run_snoc.prems(1) by (rule loop_run_inv)
  from law [OF this run_snoc.hyps(2)] append_keeps [of e t] run_snoc show ?case by simp
qed simp

lemma scheduled:
  assumes "schedules jobs w w'" and "loop_inv \<lparr>acts = scheduler w, kids = K\<rparr>"
  shows "left \<lparr>acts = scheduler w', kids = K\<rparr> = left \<lparr>acts = scheduler w, kids = K\<rparr> @ map Some jobs"
proof -
  from assms(1) obtain es where es: "\<forall>e\<in>set es. appends_job e" "concat (map added_jobs es) = map Some jobs"
    "run_events True es \<lparr>acts = scheduler w, kids = K\<rparr> = Some \<lparr>acts = scheduler w', kids = K\<rparr>"
    by (auto simp add: schedules_def)
  from appended [OF run_events_loop_run [OF es(3)] assms(2) es(1)] es(2) show ?thesis by simp
qed

lemma step_history:
  assumes "server_step P D s e t" and "\<And>i. slot_inv (sv_slots s i)" and "\<And>i. slot_waiting D (sv_slots s i)"
    and "loop_inv (actions_of s)"
  shows "\<exists>jobs. list_all2 (asks (json (d_libs D))) (triggered D s e) jobs
     \<and> left (actions_of s) @ map Some jobs = of_actions leaves s e @ left (actions_of t)"
  using assms(1-3)
proof (cases rule: server_step_jobs)
  case (calls jobs)
  have "loop_inv \<lparr>acts = scheduler (sv_world s), kids = sv_kids s\<rparr>" using assms(4) by (simp add: actions_of_def)
  from scheduled [OF calls(2) this] calls(3) have "left (actions_of t) = left (actions_of s) @ map Some jobs"
    by (simp add: actions_of_def)
  moreover have "of_actions leaves s e = []" using calls(4) by (cases e) simp_all
  ultimately show ?thesis using calls(1) by auto
next
  case (action f)
  from action(2) have "added_jobs f = []" by (cases f) simp_all
  with law [OF assms(4) action(3)] action(1) show ?thesis by (intro exI [of _ "[]"]) simp
qed

lemma run_history:
  assumes "traced (server_step P D) (triggered D) (server_start ls w K) es ts s"
    and "traced (server_step P D) (of_actions leaves) (server_start ls w K) es js s'"
    and "loop_inv \<lparr>acts = scheduler w, kids = K\<rparr>" and "actions (scheduler w) = []"
  shows "s' = s \<and> (\<exists>jobs. list_all2 (asks (json (d_libs D))) ts jobs \<and> map Some jobs = js @ left (actions_of s))"
  using assms(1,2)
proof (induction arbitrary: js s' rule: traced.induct)
  case traced_nil
  then have "js = []" "s' = server_start ls w K" by (auto elim: traced.cases)
  then show ?case using assms(4) by (simp add: server_start_actions empty)
next
  case (traced_snoc es ts t e u)
  from traced_snoc.prems obtain js1 t' where t': "traced (server_step P D) (of_actions leaves) (server_start ls w K) es js1 t'"
    "server_step P D t' e s'" "js = js1 @ of_actions leaves t' e" by (auto elim: traced.cases)
  from traced_snoc.IH [OF t'(1)] obtain jobs where same: "t' = t"
    and jobs: "list_all2 (asks (json (d_libs D))) ts jobs" "map Some jobs = js1 @ left (actions_of t)" by blast
  have run: "server_run P D (server_start ls w K) es t" using traced_snoc.hyps(1) by (rule traced_run)
  then have any: "server_run any_event D (server_start ls w K) es t" by (rule server_run_mono) simp
  from step_history [OF traced_snoc.hyps(2) server_run_slots [OF any] server_run_waiting [OF run] reached_actions(1) [OF run assms(3)]]
  obtain more where more: "list_all2 (asks (json (d_libs D))) (triggered D t e) more"
    "left (actions_of t) @ map Some more = of_actions leaves t e @ left (actions_of u)" by blast
  have "s' = u" using t'(2) traced_snoc.hyps(2) same by (auto simp add: server_step_iff)
  moreover have "map Some (jobs @ more) = js @ left (actions_of u)" using jobs(2) more(2) t'(3) same by simp
  moreover have "list_all2 (asks (json (d_libs D))) (ts @ triggered D t e) (jobs @ more)"
    using jobs(1) more(1) by (rule list_all2_appendI)
  ultimately show ?case by blast
qed

end

interpretation starting_log: job_log unstarted_jobs started_jobs
proof unfold_locales
  fix s t :: "callable loop_state" and e nd
  show "loop_inv s \<Longrightarrow> loop_step nd s e t \<Longrightarrow> unstarted_jobs s @ added_jobs e = started_jobs s e @ unstarted_jobs t"
    by (rule loop_step_jobs)
  show "appends_job e \<Longrightarrow> started_jobs s e = []" by (cases e) simp_all
  show "actions (acts s) = [] \<Longrightarrow> unstarted_jobs s = []" by (simp add: unstarted_jobs_def jobs_of_def)
qed

interpretation ending_log: job_log queued_jobs ended_jobs
proof unfold_locales
  fix s t :: "callable loop_state" and e nd
  show "loop_inv s \<Longrightarrow> loop_step nd s e t \<Longrightarrow> queued_jobs s @ added_jobs e = ended_jobs s e @ queued_jobs t"
    by (rule loop_step_jobs)
  show "appends_job e \<Longrightarrow> ended_jobs s e = []" by (cases e) simp_all
  show "actions (acts s) = [] \<Longrightarrow> queued_jobs s = []" by (simp add: queued_jobs_def jobs_of_def)
qed

text \<open>
  (C2) The server runs exactly the commands its requests ask for, in their order: over any run of the
  server, with any number of connections and any interleaving, the jobs started so far followed by
  those still waiting are, one by one and in order, the jobs of the hooks that accepted the events of
  the requests, in the order of the last calls for these requests and, for one request, in the order of
  the chain. Nothing is started that no hook accepted, nothing is started twice, reordered or lost, and
  each job has the words, environment, user and timeout its hook asks for.
\<close>

theorem history_determines_commands:
  assumes "traced (server_step any_event D) (triggered D) (server_start ls w K) es ts s"
    and "traced (server_step any_event D) (of_actions started_jobs) (server_start ls w K) es js s"
    and "loop_inv \<lparr>acts = scheduler w, kids = K\<rparr>" and "actions (scheduler w) = []"
  shows "\<exists>jobs. list_all2 (asks (json (d_libs D))) ts jobs \<and> map Some jobs = js @ unstarted_jobs (actions_of s)"
  using starting_log.run_history [OF assms] by blast

lemma site_inv: "loop_inv \<lparr>acts = scheduler site_world, kids = {}\<rparr>" "actions (scheduler site_world) = []"
  using initial_loop_inv by (simp_all add: site_world_def initial_loop_def initial_actions_def)

theorem pipeline_hook_triggers_iff_witness:
  "\<exists>w'. pipeline_process site_json site_data {''success''} {''build-this'', ''build-that''} ''Pipeline Hook'' site_doc
       site_world = (Val Accepted_outcome, w')
     \<and> (\<exists>j. jobs_of (scheduler w') = [Some j]) \<and> hooksScheduled w' = hooksScheduled site_world + 1"
proof -
  obtain w' where w': "pipeline_process site_json site_data {''success''} {''build-this'', ''build-that''}
      ''Pipeline Hook'' site_doc site_world = (Val Accepted_outcome, w')"
    using site_pipeline_runs [of site_world] by (elim exE) (rule that)
  have "jobs_of (scheduler site_world) = []" using site_inv(2) by (simp add: jobs_of_def)
  with pipeline_hook_triggers_iff [OF w' site_inv(1)] w' show ?thesis by auto
qed

lemma site_unstarted: "length (unstarted_jobs (actions_of (site_final ls))) = 2"
proof -
  have "sv_kids (site_final ls) = {}" by (rule site_final(6))
  with reached_actions(1) [OF site_final_any [of ls] site_inv(1)] have "\<not> busy (acts (actions_of (site_final ls)))"
    by (auto simp add: loop_inv_def running_def waiting_def busy_def actions_of_def)
  moreover have "length (jobs_of (acts (actions_of (site_final ls)))) = 2" by (simp add: site_final(5))
  ultimately show ?thesis by (simp add: unstarted_jobs_def)
qed

theorem history_determines_commands_witness:
  "\<exists>ts js jobs. traced (server_step any_event site_deployment) (triggered site_deployment)
       (server_start [] site_world {}) site_events ts (site_final [])
     \<and> length ts = length js + 2 \<and> list_all2 (asks site_json) ts jobs
     \<and> map Some jobs = js @ unstarted_jobs (actions_of (site_final []))"
proof -
  obtain ts js where t: "traced (server_step any_event site_deployment) (triggered site_deployment)
       (server_start [] site_world {}) site_events ts (site_final [])"
    "traced (server_step any_event site_deployment) (of_actions started_jobs)
       (server_start [] site_world {}) site_events js (site_final [])"
    using traced_ex [OF site_final_any] by metis
  from history_determines_commands [OF t site_inv] obtain jobs where
    jobs: "list_all2 (asks site_json) ts jobs" "map Some jobs = js @ unstarted_jobs (actions_of (site_final []))"
    by (auto simp add: site_deployment_def site_def)
  from arg_cong [OF jobs(2), of length] have "length ts = length js + 2"
    using list_all2_lengthD [OF jobs(1)] by (simp add: site_unstarted)
  with t(1) jobs show ?thesis by (intro exI conjI)
qed

end
