(* ===== verification/Command_Origin.thy ===== *)
theory Command_Origin
  imports Command_History
begin

text \<open>
  Where the commands of the server come from: every job in the queue of the running server goes back to
  the last call for an authorised request, whose body determines its environment, and to a hook of the
  chain configured for the path, which determines its program, arguments, user and timeout.
\<close>

section \<open>Where the queued jobs come from\<close>

text \<open>
  Somewhere in the run the last call for an authorised request was made: the request is in the slot of its
  connection, with the body received up to then. A job is requested by a body if a hook that the request
  triggers asks for it, and originates in the run when it is requested by a body that was received.
\<close>

definition received :: "('c, 'j) deployment \<Rightarrow> 'c server_state \<Rightarrow> 'c server_event list \<Rightarrow> 'c \<Rightarrow> string \<Rightarrow> string \<Rightarrow> bool" where
  "received D s0 es c path body \<longleftrightarrow> (\<exists>es1 i es2 s r. es = es1 @ Request_last i # es2 \<and> server_run any_event D s0 es1 s
     \<and> sl_phase (sv_slots s i) = Receiving c path ''POST'' \<and> sl_request (sv_slots s i) = Some r \<and> content r = body
     \<and> authorised (d_libs D) (d_handlers D) c path ''POST'')"

definition requested :: "('c, 'j) deployment \<Rightarrow> 'c \<Rightarrow> string \<Rightarrow> string \<Rightarrow> callable job \<Rightarrow> bool" where
  "requested D c path body j \<longleftrightarrow> (\<exists>x\<in>set (hooks_triggered D c path body). asks (json (d_libs D)) x j)"

definition originates :: "('c, 'j) deployment \<Rightarrow> 'c server_state \<Rightarrow> 'c server_event list \<Rightarrow> callable job \<Rightarrow> bool" where
  "originates D s0 es j \<longleftrightarrow> (\<exists>c path body. received D s0 es c path body \<and> requested D c path body j)"

lemma found_and_parsed:
  obtains (hook) h js where "p = (Val (Some (Hook_handler h)), Inr js)"
    | (status) n q where "p = (Val (Some (Status_handler n)), q)" | (none) q where "p = (Val None, q)"
    | (throws) e q where "p = (Throw e, q)" | (aborts) f q where "p = (Abort f, q)"
    | (broken) h e where "p = (Val (Some (Hook_handler h)), Inl e)"
proof -
  obtain f q where "p = (f, q)" by (cases p)
  with that show thesis
    by (cases f; cases q; cases "case f of Val x \<Rightarrow> x | _ \<Rightarrow> None"; cases "the (case f of Val x \<Rightarrow> x | _ \<Rightarrow> None)") auto
qed

lemma requestedE:
  assumes "requested D c path body j"
  obtains h js l where "find_handler (d_handlers D) path = Val (Some (Hook_handler h))"
    "j_parse (json (d_libs D)) body = Inr js" "l \<in> set (links h)"
    "selects (header_of (mhd (d_libs D)) c ''X-Gitlab-Token'') (peer_text (d_libs D) c) l"
    "job_for (json (d_libs D)) (header_of (mhd (d_libs D)) c ''X-Gitlab-Event'') js l j"
proof -
  let ?J = "json (d_libs D)" and ?event = "header_of (mhd (d_libs D)) c ''X-Gitlab-Event''"
    and ?token = "header_of (mhd (d_libs D)) c ''X-Gitlab-Token''" and ?peer = "peer_text (d_libs D) c"
  from assms obtain x where x: "x \<in> set (hooks_triggered D c path body)" "asks ?J x j" by (auto simp add: requested_def)
  obtain h js where h: "find_handler (d_handlers D) path = Val (Some (Hook_handler h))" "j_parse ?J body = Inr js"
    using x(1)
    by (cases "(find_handler (d_handlers D) path, j_parse ?J body)" rule: found_and_parsed)
      (auto simp add: hooks_triggered_def Let_def)
  with x obtain l where l: "x = (?event, js, l)" "l \<in> set (accepting ?J ?event js (asked ?J ?token ?peer ?event js (links h)))"
    by (auto simp add: hooks_triggered_def Let_def split: if_splits)
  then have "l \<in> set (links h)" "selects ?token ?peer l" by (auto simp add: accepting_def asked_def dest!: set_takeWhileD)
  with h l(1) x(2) show thesis by (intro that) simp_all
qed

lemma triggered_received:
  assumes "server_run any_event D (server_start ls w K) es1 s" and "x \<in> set (triggered D s e)"
  shows "\<exists>c path body. received D (server_start ls w K) (es1 @ e # es2) c path body \<and> x \<in> set (hooks_triggered D c path body)"
proof -
  from assms(2) obtain i where e: "e = Request_last i" by (cases e) auto
  with assms(2) obtain c path meth r where ph: "sl_phase (sv_slots s i) = Receiving c path meth"
    and r: "sl_request (sv_slots s i) = Some r" and x: "x \<in> set (hooks_triggered D c path (content r))"
    by (cases "sl_phase (sv_slots s i)"; cases "sl_request (sv_slots s i)") auto
  from slot_waitingD [OF server_run_waiting [OF assms(1)] ph r] server_run_guarded [OF assms(1), of i] ph r
  have auth: "authorised (d_libs D) (d_handlers D) c path meth" by (simp add: slot_guarded_def request_waiting_def)
  then have "meth = ''POST''" by (auto simp add: authorised_def)
  with assms(1) ph r auth e have "received D (server_start ls w K) (es1 @ e # es2) c path (content r)"
    unfolding received_def by blast
  with x show ?thesis by blast
qed

lemma queued_jobs_originate:
  assumes "server_run any_event D (server_start ls w K) es s"
    and "loop_inv \<lparr>acts = scheduler w, kids = K\<rparr>" and "actions (scheduler w) = []"
    and "Some j \<in> set (jobs_of (scheduler (sv_world s)))"
  shows "originates D (server_start ls w K) es j"
proof -
  obtain ts where ts: "traced (server_step any_event D) (triggered D) (server_start ls w K) es ts s"
    using traced_ex [OF assms(1)] by blast
  obtain js where "traced (server_step any_event D) (of_actions ended_jobs) (server_start ls w K) es js s"
    using traced_ex [OF assms(1)] by blast
  from ending_log.run_history [OF ts this assms(2,3)] obtain jobs where
    jobs: "list_all2 (asks (json (d_libs D))) ts jobs" "map Some jobs = js @ queued_jobs (actions_of s)" by blast
  from assms(4) have "Some j \<in> set (map Some jobs)" unfolding jobs(2) by (simp add: queued_jobs_def actions_of_def)
  then obtain n where n: "n < length jobs" "jobs ! n = j" by (auto simp add: in_set_conv_nth)
  define x where "x = ts ! n"
  have x: "x \<in> set ts" "asks (json (d_libs D)) x j"
    using n jobs(1) list_all2_nthD2 [OF jobs(1) n(1)] by (auto simp add: x_def dest: list_all2_lengthD)
  from traced_in [OF ts x(1)] obtain es1 e es2 u where "es = es1 @ e # es2"
    "server_run any_event D (server_start ls w K) es1 u" "x \<in> set (triggered D u e)" by (blast dest: traced_run)
  with triggered_received [OF this(2,3)] x(2) show ?thesis unfolding originates_def requested_def by blast
qed

section \<open>What the child executes\<close>

text \<open>The child that \<open>fork\<close> makes when the exec event is handled: it runs \<open>start\<close> on the process in front.\<close>

definition forked_child ::
  "bool \<Rightarrow> user_db \<Rightarrow> 'u cred_calls \<Rightarrow> (string \<Rightarrow> bool) \<Rightarrow> 'f action_state \<Rightarrow> 'u \<Rightarrow> 'u child_end option" where
  "forked_child ndebug db sys exec_ok s u =
     (case front_process s of
        Val a \<Rightarrow> map_option (\<lambda>p. start_child ndebug db sys exec_ok p u) (mem (procs s) a)
      | _ \<Rightarrow> None)"

lemma forked_child_job:
  assumes "forked_child nd db sys exec_ok s u = Some x" and "loop_inv \<lparr>acts = s, kids = K\<rparr>"
  obtains p :: "completion impl" and name t where "x = start_child nd db sys exec_ok p u"
    "Some (Command name (p_program p) (p_args p) (p_env p) (p_user p) t) \<in> set (jobs_of s)"
proof -
  from assms(1) obtain i js a p where s: "actions s = i # js" "it_process i = Some a" "mem (procs s) a = Some p"
    and x: "x = start_child nd db sys exec_ok p u"
    by (auto simp add: forked_child_def front_process_def split: res.splits list.splits option.splits)
  with assms(2) obtain t where "it_timeout i = Some t" by (auto simp add: loop_inv_def item_ok_def)
  with s have "Some (Command (it_name i) (p_program p) (p_args p) (p_env p) (p_user p) t) \<in> set (jobs_of s)"
    by (simp add: jobs_of_def job_of_def)
  with x show thesis by (rule that)
qed

text \<open>
  Every command the server executes was requested: if in a run of the server a forked child executes a
  program, then earlier in the run the last call for an authorised POST was made, and a pipeline hook of
  the chain registered for its path, with the token of the request and admitting its peer, asked for the
  command. Program and arguments are the words of that hook's command; the environment block reports the
  event in the body of that request; and the child has the identity of the hook, or the server's own.
\<close>

theorem executed_command_was_requested:
  assumes "server_run any_event D (server_start ls w K) es s"
    and "loop_inv \<lparr>acts = scheduler w, kids = K\<rparr>" and "actions (scheduler w) = []"
    and "credential_contract sys uid_of gid_of"
    and "forked_child nd db sys exec_ok (scheduler (sv_world s)) u = Some (Execve program argv env u')"
  shows "\<exists>c path body h js d statuses jobs word args entries.
       received D (server_start ls w K) es c path body
     \<and> find_handler (d_handlers D) path = Val (Some (Hook_handler h))
     \<and> (d, Pipeline_hook statuses jobs) \<in> set (links h)
     \<and> selects (header_of (mhd (d_libs D)) c ''X-Gitlab-Token'') (peer_text (d_libs D) c) (d, Pipeline_hook statuses jobs)
     \<and> j_parse (json (d_libs D)) body = Inr js
     \<and> mCommand d \<noteq> [] \<and> split_command (mCommand d) = (word, args) \<and> program = c_str word
     \<and> argv = map (\<lambda>v. Some (c_str v)) (word # args) @ [None]
     \<and> reports_event (json (d_libs D)) jobs js entries \<and> env = env_get entries
     \<and> (if user_group_bool (mUserGroup d) then uid_of u' = mUid (mUserGroup d) \<and> gid_of u' = mGid (mUserGroup d)
        else u' = u)"
proof -
  have inv: "loop_inv \<lparr>acts = scheduler (sv_world s), kids = sv_kids s\<rparr>"
    using reached_actions(1) [OF assms(1,2)] by (simp add: actions_of_def)
  from assms(5) inv obtain p :: "completion impl" and name t where
    p: "Execve program argv env u' = start_child nd db sys exec_ok p u"
    and job: "Some (Command name (p_program p) (p_args p) (p_env p) (p_user p) t) \<in> set (jobs_of (scheduler (sv_world s)))"
    by (rule forked_child_job)
  from queued_jobs_originate [OF assms(1-3) job] obtain c path body where
    req: "received D (server_start ls w K) es c path body"
    and r: "requested D c path body (Command name (p_program p) (p_args p) (p_env p) (p_user p) t)"
    unfolding originates_def by (elim exE conjE) (rule that)
  from r obtain h js l where hook: "find_handler (d_handlers D) path = Val (Some (Hook_handler h))"
    "j_parse (json (d_libs D)) body = Inr js" "l \<in> set (links h)"
    "selects (header_of (mhd (d_libs D)) c ''X-Gitlab-Token'') (peer_text (d_libs D) c) l"
    and j: "job_for (json (d_libs D)) (header_of (mhd (d_libs D)) c ''X-Gitlab-Event'') js l
       (Command name (p_program p) (p_args p) (p_env p) (p_user p) t)"
    by (rule requestedE)
  obtain d kind where l: "l = (d, kind)" by force
  with j obtain statuses jobs where kind: "kind = Pipeline_hook statuses jobs" by (cases kind) auto
  from j [unfolded l kind job_for.simps] have cmd: "mCommand d \<noteq> []" "split_command (mCommand d) = (p_program p, p_args p)"
    "reports_event (json (d_libs D)) jobs js (p_env p)" "p_user p = mUserGroup d" by auto
  have ident: "if user_group_bool (mUserGroup d) then uid_of u' = mUid (mUserGroup d) \<and> gid_of u' = mGid (mUserGroup d)
      else u' = u"
    using child_runs_as_configured_user [OF assms(4) _ p [symmetric]] p cmd(4)
    by (auto simp add: start_child_def split: res.splits if_splits)
  have "program = c_str (p_program p)" "argv = argv_of p" "env = env_get (p_env p)"
    using p by (auto simp add: start_child_def split: res.splits if_splits)
  then have "program = c_str (p_program p)" "argv = map (\<lambda>v. Some (c_str v)) (p_program p # p_args p) @ [None]"
    "env = env_get (p_env p)" by (simp_all add: argv_of_def)
  with req hook [unfolded l kind] cmd ident show ?thesis
    by (intro exI [of _ c] exI [of _ path] exI [of _ body] exI [of _ h] exI [of _ js] exI [of _ d] exI [of _ statuses]
        exI [of _ jobs] exI [of _ "p_program p"] exI [of _ "p_args p"] exI [of _ "p_env p"] conjI)
qed

text \<open>The example: after the debug hook has run, the command of the deploy hook is due.\<close>

lemma site_hooks:
  assumes "find_handler site_handlers path = Val (Some (Hook_handler h))" and "l \<in> set (links h)"
  shows "l = (hdata site_debug, Debug_hook) \<or> l = (site_data, Pipeline_hook {''success''} {''build-this'', ''build-that''})"
proof -
  from assms(1) have "path \<noteq> []" "hd path = slash" by (auto simp add: find_handler_def split: if_splits)
  from find_handler_some [OF this, of site_handlers] assms(1) obtain q where "site_handlers q = Some (Hook_handler h)" by auto
  then have "h = site_chain" by (auto simp add: site_handlers_def split: if_splits)
  with assms(2) show ?thesis by (simp add: site_chain_def site_pipeline_def site_debug_def)
qed

lemma site_deploy_due:
  "\<exists>w s. server_run any_event site_deployment (server_start ls site_world {})
       (site_events @ [Action_event (Ev_exec w)]) s
     \<and> (\<exists>i a. actions (scheduler (sv_world s)) = [i] \<and> it_process i = Some a)"
proof -
  let ?s = "site_final ls"
  let ?w = "\<lparr>fork_result = 1, thrown_by = (\<lambda>_. None), now = 0, reaped = (\<lambda>_. False)\<rparr> :: callable outside"
  have "loop_inv \<lparr>acts = scheduler site_world, kids = {}\<rparr>"
    using initial_loop_inv by (simp add: site_world_def initial_loop_def)
  note inv = reached_actions(1) [OF site_final_any [of ls] this]
  from site_final(7) [of ls] obtain i1 i2 a where acts: "actions (acts (actions_of ?s)) = [i1, i2]"
    "it_process i1 = None" "it_process i2 = Some a"
    by (auto simp add: actions_of_def map_eq_Cons_conv)
  from inv acts obtain f where f: "it_function i1 = Some f" by (auto simp add: loop_inv_def item_ok_def)
  from inv acts have "waiting (acts (actions_of ?s))" by (auto simp add: loop_inv_def running_def)
  with acts have "enabled (Ev_exec ?w) (actions_of ?s)"
    by (simp add: waiting_def) (simp add: actions_of_def site_final(6))
  then obtain u where u: "loop_step False (actions_of ?s) (Ev_exec ?w) u" "actions (acts u) = [i2]"
    using exec_function_eq [of "(acts (actions_of ?s))\<lparr>execEv := False\<rparr>" i1 "[i2]" f False ?w] acts f
    by (auto simp add: loop_step_iff)
  then obtain t where t: "server_step any_event site_deployment ?s (Action_event (Ev_exec ?w)) t" "actions_of t = u"
    using action_step [of site_deployment ?s "Ev_exec ?w" u] by (auto simp add: site_deployment_def)
  have "server_run any_event site_deployment (server_start ls site_world {}) (site_events @ [Action_event (Ev_exec ?w)]) t"
    using site_final_any t(1) by (rule mr_snoc)
  moreover have "actions (scheduler (sv_world t)) = [i2]" using t(2) u(2) by (auto simp add: actions_of_def)
  ultimately show ?thesis using acts(3) by blast
qed

text \<open>Its child, if the server runs as root, and the user database knows the user of the hook.\<close>

lemma site_deploy_child:
  "\<exists>w s argv env u'. server_run any_event site_deployment (server_start ls site_world {})
       (site_events @ [Action_event (Ev_exec w)]) s
     \<and> forked_child False example_db simple_calls (\<lambda>_. True) (scheduler (sv_world s)) \<lparr>c_uid = 0, c_gid = 0, c_groups = []\<rparr>
         = Some (Execve ''/usr/bin/echo'' argv env u')"
proof -
  let ?u = "\<lparr>c_uid = 0, c_gid = 0, c_groups = []\<rparr>"
  obtain w s i a where run: "server_run any_event site_deployment (server_start ls site_world {})
       (site_events @ [Action_event (Ev_exec w)]) s"
    and front: "actions (scheduler (sv_world s)) = [i]" "it_process i = Some a"
    using site_deploy_due by blast
  have inv0: "loop_inv \<lparr>acts = scheduler site_world, kids = {}\<rparr>" and empty: "actions (scheduler site_world) = []"
    using initial_loop_inv by (simp_all add: site_world_def initial_loop_def initial_actions_def)
  have inv: "loop_inv \<lparr>acts = scheduler (sv_world s), kids = sv_kids s\<rparr>"
    using reached_actions(1) [OF run inv0] by (simp add: actions_of_def)
  then obtain p where p: "mem (procs (scheduler (sv_world s))) a = Some p"
    using owned_live [of "scheduler (sv_world s)" "sv_kids s" a] front by (auto simp add: loop_inv_def)
  then have child: "forked_child False example_db simple_calls (\<lambda>_. True) (scheduler (sv_world s)) ?u
      = Some (start_child False example_db simple_calls (\<lambda>_. True) p ?u)"
    using front by (simp add: forked_child_def front_process_def)
  then obtain name t where "Some (Command name (p_program p) (p_args p) (p_env p) (p_user p) t)
      \<in> set (jobs_of (scheduler (sv_world s)))"
    using inv front p by (auto simp add: jobs_of_def job_of_def loop_inv_def item_ok_def)
  from queued_jobs_originate [OF run inv0 empty this] obtain path h js token l where
    "find_handler site_handlers path = Val (Some (Hook_handler h))" "l \<in> set (links h)"
    "job_for site_json token js l (Command name (p_program p) (p_args p) (p_env p) (p_user p) t)"
    unfolding originates_def by (elim exE conjE requestedE) (simp add: site_deployment_def site_def)
  then have d: "(p_program p, p_args p) = split_command (mCommand site_data)" "p_user p = mUserGroup site_data"
    using site_hooks [of path h l] by auto
  have "split_command (mCommand site_data) = (''/usr/bin/echo'', [''Hello,'', ''world!''])"
    unfolding site_data_def by code_simp
  with d have "p_program p = ''/usr/bin/echo''" by simp
  with d(2) obtain argv env u' where "start_child False example_db simple_calls (\<lambda>_. True) p ?u = Execve ''/usr/bin/echo'' argv env u'"
    by (simp add: start_child_def impersonate_def example_db_def simple_calls_def sys_call_def
        user_group_bool_def invalid_id_def site_data_def c_str_def)
  with run child show ?thesis by (intro exI conjI) auto
qed

theorem executed_command_was_requested_witness:
  "\<exists>es s argv env u'. server_run any_event site_deployment (server_start [] site_world {}) es s
     \<and> forked_child False example_db simple_calls (\<lambda>_. True) (scheduler (sv_world s)) \<lparr>c_uid = 0, c_gid = 0, c_groups = []\<rparr>
         = Some (Execve ''/usr/bin/echo'' argv env u')
     \<and> (\<exists>c path body. received site_deployment (server_start [] site_world {}) es c path body)"
proof -
  obtain w s argv env u' where c: "server_run any_event site_deployment (server_start [] site_world {})
       (site_events @ [Action_event (Ev_exec w)]) s"
    "forked_child False example_db simple_calls (\<lambda>_. True) (scheduler (sv_world s)) \<lparr>c_uid = 0, c_gid = 0, c_groups = []\<rparr>
         = Some (Execve ''/usr/bin/echo'' argv env u')"
    using site_deploy_child by blast
  have inv0: "loop_inv \<lparr>acts = scheduler site_world, kids = {}\<rparr>" and empty: "actions (scheduler site_world) = []"
    using initial_loop_inv by (simp_all add: site_world_def initial_loop_def initial_actions_def)
  from executed_command_was_requested [OF c(1) inv0 empty simple_calls_contract c(2)] c show ?thesis by blast
qed

end
