(* ===== verification/Command_Config.thy ===== *)
theory Command_Config
  imports Command_Origin Example_Main
begin

text \<open>
  From the configuration file to \<open>execve\<close>: the hooks the handlers table refers to are those created from
  the entries of the configuration, so what a pass of \<open>main\<close> executes was configured there.
\<close>

section \<open>Registered hooks are configured hooks\<close>

definition configured_link :: "'t toml \<Rightarrow> user_db \<Rightarrow> uid_t \<Rightarrow> 't \<Rightarrow> hook_data \<times> hook_kind \<Rightarrow> bool" where
  "configured_link T db uid cfg l \<longleftrightarrow> (\<exists>i entry nhook. item_index T cfg i = Val entry
     \<and> create T db uid entry = Val nhook \<and> l = (hdata nhook, hkind nhook))"

definition all_configured :: "'t toml \<Rightarrow> user_db \<Rightarrow> uid_t \<Rightarrow> 't \<Rightarrow> hook list \<Rightarrow> bool" where
  "all_configured T db uid cfg hooks \<longleftrightarrow> (\<forall>h\<in>set hooks. \<forall>l\<in>set (links h). configured_link T db uid cfg l)"

lemma register_hook_configured:
  assumes "register_hook nd nhook st = Val st'" and "all_configured T db uid cfg (snd st)"
    and "item_index T cfg i = Val entry" and "create T db uid entry = Val nhook"
  shows "all_configured T db uid cfg (snd st')"
proof -
  obtain table hooks where st: "st = (table, hooks)" by (cases st)
  have new: "configured_link T db uid cfg (hdata nhook, hkind nhook)"
    using assms(3,4) by (auto simp add: configured_link_def)
  have single: "links nhook = [(hdata nhook, hkind nhook)]"
    using create_kinds [OF assms(4)] links_nonempty [of nhook] by auto
  show ?thesis
  proof (cases "find_same (uri_path (hdata nhook)) hooks")
    case None
    with assms(1) st have "\<exists>table'. st' = (table', hooks @ [nhook])" by (auto simp add: register_hook_def bnd_Val_iff)
    with assms(2) st new single show ?thesis by (auto simp add: all_configured_def)
  next
    case (Some j)
    with assms(1) st obtain g where c: "chain nd (hooks ! j) nhook = Val g" and st': "st' = (table, hooks[j := g])"
      by (auto simp add: register_hook_def bnd_Val_iff)
    have j: "hooks ! j \<in> set hooks" using find_same_Some [OF Some] by simp
    from c have "links g = (hdata (hooks ! j), hkind (hooks ! j)) # links nhook" by (simp add: chain_Val)
    moreover have "(hdata (hooks ! j), hkind (hooks ! j)) \<in> set (links (hooks ! j))"
      using links_nonempty [of "hooks ! j"] by simp
    ultimately have "\<forall>l\<in>set (links g). configured_link T db uid cfg l"
      using assms(2) st j new single by (auto simp add: all_configured_def)
    with assms(2) st st' show ?thesis by (auto simp add: all_configured_def dest!: set_update_subset_insert [THEN subsetD])
  qed
qed

lemma register_loop_configured:
  "register_loop nd T db uid cfg is st = Val st' \<Longrightarrow> all_configured T db uid cfg (snd st)
     \<Longrightarrow> all_configured T db uid cfg (snd st')"
  by (induction "is" arbitrary: st) (auto simp add: bnd_Val_iff intro: register_hook_configured)

lemma found_hook_configured:
  assumes "setup_handlers nd T db uid root = Val st"
    and "find_handler (resolve start st) path = Val (Some (Hook_handler h))" and "l \<in> set (links h)"
  shows "\<exists>cfg. item_key T root ''hooks'' = Val cfg \<and> configured_link T db uid cfg l"
proof -
  from assms(1) obtain cfg n where cfg: "item_key T root ''hooks'' = Val cfg" "item_size T cfg = Val n"
    by (auto simp add: setup_handlers_def bnd_Val_iff)
  from setup_handlers_Val [OF assms(1) cfg] have inv: "setup_inv st"
    and loop: "register_loop nd T db uid cfg [0..<n] ([''/status'' \<mapsto> Ref_status], []) = Val st" by auto
  from register_loop_configured [OF loop] have conf: "all_configured T db uid cfg (snd st)"
    by (simp add: all_configured_def)
  from assms(2) have "path \<noteq> []" "hd path = slash" by (auto simp add: find_handler_def split: if_splits)
  from find_handler_some [OF this, of "resolve start st"] assms(2) obtain q where
    "resolve start st q = Some (Hook_handler h)" by auto
  then obtain j where "fst st q = Some (Ref_hook j)" "h = snd st ! j"
    by (auto simp add: resolve_def split: option.splits handler_ref.splits)
  with inv have "h \<in> set (snd st)" by (auto simp add: setup_inv_def)
  with conf assms(3) cfg(1) show ?thesis by (auto simp add: all_configured_def)
qed

text \<open>The command and the identity of a created hook, as the entries of the configuration give them.\<close>

lemma created_command:
  assumes "create T db uid entry = Val nhook" and "mCommand (hdata nhook) \<noteq> []"
  shows "\<exists>c text. item_key T entry ''command'' = Val c \<and> item_to_string_view T c = Val text
     \<and> mCommand (hdata nhook) = trimmed text"
proof -
  from create_kinds [OF assms(1)] have "hook_base T db uid entry = Val (hdata nhook)" by blast
  from optional_entry_Val [OF hook_base_Val(5) [OF this]] assms(2) show ?thesis by (auto simp add: bnd_Val_iff)
qed

lemma created_token: "create T db uid entry = Val nhook \<Longrightarrow> string_view_at T entry ''token'' = Val (mToken (hdata nhook))"
  by (drule create_kinds [THEN conjunct2, THEN conjunct1]) (rule hook_base_Val(3))

section \<open>What a pass executes\<close>

text \<open>
  The entry of the configuration file for a pipeline hook, with its text for the command and its token, and
  the jobs it is made for.
\<close>

definition configured_pipeline ::
  "('c, 'j, 't) platform \<Rightarrow> string \<Rightarrow> 'c pass \<Rightarrow> 't \<Rightarrow> hook_data \<Rightarrow> string set \<Rightarrow> string \<Rightarrow> bool" where
  "configured_pipeline P fileName rd entry d jobs text \<longleftrightarrow> (\<exists>root hooks i c statuses nhook.
       config_load (ps_files rd) (pf_parse P) fileName = Val root
     \<and> item_key (pf_toml P) root ''hooks'' = Val hooks \<and> item_index (pf_toml P) hooks i = Val entry
     \<and> create (pf_toml P) (ps_users rd) (pf_uid P) entry = Val nhook \<and> hdata nhook = d
     \<and> hkind nhook = Pipeline_hook statuses jobs
     \<and> item_key (pf_toml P) entry ''command'' = Val c \<and> item_to_string_view (pf_toml P) c = Val text
     \<and> mCommand d = trimmed text)"

lemma pass_setup_handlers:
  assumes "pass_setup P fileName rd p = Val (D, s)"
  shows "\<exists>root hooks. config_load (ps_files rd) (pf_parse P) fileName = Val root
     \<and> setup_handlers (pf_ndebug P) (pf_toml P) (ps_users rd) (pf_uid P) root = Val hooks
     \<and> d_handlers D = resolve (ps_time rd) hooks"
  using assms by (auto simp add: pass_setup_def bnd_Val_iff)

text \<open>A pipeline hook found for a path, as its entry describes it: its words, its token and its user.\<close>

lemma found_pipeline_configured:
  assumes "pass_setup P fileName rd p = Val (D, s0)" and "find_handler (d_handlers D) path = Val (Some (Hook_handler h))"
    and "(d, Pipeline_hook statuses jobs) \<in> set (links h)" and "mCommand d \<noteq> []" and "split_command (mCommand d) = (word, args)"
  shows "\<exists>entry text. configured_pipeline P fileName rd entry d jobs text \<and> tokens (trimmed text) = word # args
     \<and> string_view_at (pf_toml P) entry ''token'' = Val (mToken d)
     \<and> configured_identity (pf_toml P) (ps_users rd) (pf_uid P = 0) entry (mUserGroup d)"
proof -
  let ?T = "pf_toml P"
  from pass_setup_handlers [OF assms(1)] obtain root hooks where
    root: "config_load (ps_files rd) (pf_parse P) fileName = Val root"
    and hooks: "setup_handlers (pf_ndebug P) ?T (ps_users rd) (pf_uid P) root = Val hooks"
      "d_handlers D = resolve (ps_time rd) hooks" by blast
  from found_hook_configured [OF hooks(1) assms(2) [unfolded hooks(2)] assms(3)] obtain cfg i entry nhook where
    cfg: "item_key ?T root ''hooks'' = Val cfg" "item_index ?T cfg i = Val entry"
      "create ?T (ps_users rd) (pf_uid P) entry = Val nhook"
    and d: "hdata nhook = d" "hkind nhook = Pipeline_hook statuses jobs"
    unfolding configured_link_def by (elim exE conjE) (rule that; simp)
  from created_command [OF cfg(3)] assms(4) d(1) obtain cc tx where
    tx: "item_key ?T entry ''command'' = Val cc" "item_to_string_view ?T cc = Val tx" "mCommand d = trimmed tx" by auto
  have conf: "configured_pipeline P fileName rd entry d jobs tx"
    unfolding configured_pipeline_def using root cfg d tx by (intro exI conjI)
  have words: "tokens (trimmed tx) = word # args"
    using split_command_tokens [of "trimmed tx"] trimmed_no_blank_front [of tx] assms(4,5) tx(3) by auto
  have "hook_base ?T (ps_users rd) (pf_uid P) entry = Val d" using create_kinds [OF cfg(3)] d(1) by simp
  from hook_base_identity [OF this] assms(4)
  have ident: "configured_identity ?T (ps_users rd) (pf_uid P = 0) entry (mUserGroup d)" by simp
  show ?thesis
    by (rule exI [of _ entry], rule exI [of _ tx], intro conjI)
      (rule conf words created_token [OF cfg(3), unfolded d(1)] ident)+
qed

text \<open>
  The identity of a forked child, for an entry of the configuration: the one the entry names under \<open>run_as\<close>,
  which it must name when the server runs as root, and otherwise the server's own. An id of 2^32-1 in the
  user database is the mark of no identity, with which the credentials stay as they are.
\<close>

definition runs_as_configured ::
  "('c, 'j, 't) platform \<Rightarrow> user_db \<Rightarrow> 't \<Rightarrow> ('i \<Rightarrow> uid_t) \<Rightarrow> ('i \<Rightarrow> uid_t) \<Rightarrow> 'i \<Rightarrow> 'i \<Rightarrow> bool" where
  "runs_as_configured P db entry uid_of gid_of u u' \<longleftrightarrow>
     (\<exists>b. item_contains (pf_toml P) entry ''run_as'' = Val b
        \<and> (if b \<or> pf_uid P = 0
           then \<exists>uid gid. run_as_ids (pf_toml P) db entry uid gid
                  \<and> (if uid \<noteq> invalid_id \<and> gid \<noteq> invalid_id then uid_of u' = uid \<and> gid_of u' = gid else u' = u)
           else u' = u))"

lemma runs_as_configuredI:
  assumes "configured_identity (pf_toml P) db (pf_uid P = 0) entry g"
    and "if user_group_bool g then uid_of u' = mUid g \<and> gid_of u' = mGid g else u' = u"
  shows "runs_as_configured P db entry uid_of gid_of u u'"
proof -
  from assms(1) obtain b where b: "item_contains (pf_toml P) entry ''run_as'' = Val b"
    "if b \<or> pf_uid P = 0 then run_as_ids (pf_toml P) db entry (mUid g) (mGid g) else g = null_user_group"
    by (auto simp add: configured_identity_def)
  show ?thesis
  proof (cases "b \<or> pf_uid P = 0")
    case True
    with b(2) have "\<exists>uid gid. run_as_ids (pf_toml P) db entry uid gid
        \<and> (if uid \<noteq> invalid_id \<and> gid \<noteq> invalid_id then uid_of u' = uid \<and> gid_of u' = gid else u' = u)"
      using assms(2) by (intro exI [of _ "mUid g"] exI [of _ "mGid g"]) (simp add: user_group_bool_def)
    with b(1) True show ?thesis unfolding runs_as_configured_def by (intro exI [of _ b]) simp
  next
    case False
    with b have "g = null_user_group" by simp
    then have "\<not> user_group_bool g" by simp
    with assms(2) have "u' = u" by simp
    with b(1) False show ?thesis unfolding runs_as_configured_def by (intro exI [of _ b]) simp
  qed
qed

text \<open>
  (C1) From the configuration file to \<open>execve\<close>: if in a pass of the program, started in the state of a fresh
  program or after an idle pass, after any events on any number of connections, a forked child executes a
  program, then the configuration file has an entry of a pipeline hook whose text for the command has as
  its words exactly this program and its arguments, and earlier in the pass the last call for an
  authorised POST was made whose token is the one of this entry, and whose body holds the event that the
  environment of the program reports. Nothing a client sends reaches the program's name or its arguments.
  The program runs with the user id and the group id that the entry names under \<open>run_as\<close>; only a server
  that is not root may have an entry without it, and then the program keeps the server's identity.
\<close>

theorem executed_command_is_configured:
  assumes "pass_setup P fileName rd p = Val (D, s0)" and "clean p"
    and "server_run any_event D (pass_start p) es s"
    and "credential_contract sys uid_of gid_of"
    and "forked_child nd db sys exec_ok (scheduler (sv_world s)) u = Some (Execve program argv env u')"
  shows "\<exists>entry d jobs text word args c path body js entries.
       configured_pipeline P fileName rd entry d jobs text \<and> tokens (trimmed text) = word # args
     \<and> program = c_str word \<and> argv = map (\<lambda>v. Some (c_str v)) (word # args) @ [None]
     \<and> received D (pass_start p) es c path body
     \<and> string_view_at (pf_toml P) entry ''token'' = Val (header_of (mhd (d_libs D)) c ''X-Gitlab-Token'')
     \<and> j_parse (json (d_libs D)) body = Inr js \<and> reports_event (json (d_libs D)) jobs js entries
     \<and> env = env_get entries
     \<and> runs_as_configured P (ps_users rd) entry uid_of gid_of u u'"
proof -
  let ?w = "(pr_world p)\<lparr>scheduler := (scheduler (pr_world p))\<lparr>execEv := False, timeoutEv := None, killEv := None, actions := []\<rparr>\<rparr>"
  have inv: "loop_inv \<lparr>acts = scheduler ?w, kids = pr_kids p\<rparr>" and none: "actions (scheduler ?w) = []"
    using pass_start_inv [OF assms(2)] by (simp_all only: pass_start_def server_start_actions) simp
  obtain c path body h js d statuses jobs word args entries where
    r: "received D (pass_start p) es c path body"
    and h: "find_handler (d_handlers D) path = Val (Some (Hook_handler h))"
      "(d, Pipeline_hook statuses jobs) \<in> set (links h)"
      "selects (header_of (mhd (d_libs D)) c ''X-Gitlab-Token'') (peer_text (d_libs D) c) (d, Pipeline_hook statuses jobs)"
    and js: "j_parse (json (d_libs D)) body = Inr js"
    and cmd: "mCommand d \<noteq> []" "split_command (mCommand d) = (word, args)" "program = c_str word"
      "argv = map (\<lambda>v. Some (c_str v)) (word # args) @ [None]"
    and env: "reports_event (json (d_libs D)) jobs js entries" "env = env_get entries"
    and ident: "if user_group_bool (mUserGroup d) then uid_of u' = mUid (mUserGroup d) \<and> gid_of u' = mGid (mUserGroup d)
        else u' = u"
    using executed_command_was_requested [OF assms(3) [unfolded pass_start_def] inv none assms(4,5)]
    by (elim exE conjE) (rule that, simp only: pass_start_def)
  from found_pipeline_configured [OF assms(1) h(1,2) cmd(1,2)] obtain entry tx where
    conf: "configured_pipeline P fileName rd entry d jobs tx" "tokens (trimmed tx) = word # args"
    and token: "string_view_at (pf_toml P) entry ''token'' = Val (mToken d)"
    and user: "configured_identity (pf_toml P) (ps_users rd) (pf_uid P = 0) entry (mUserGroup d)"
    by (elim exE conjE) (rule that)
  have "string_view_at (pf_toml P) entry ''token'' = Val (header_of (mhd (d_libs D)) c ''X-Gitlab-Token'')"
    using token h(3) by (simp add: selects_def)
  moreover have "runs_as_configured P (ps_users rd) entry uid_of gid_of u u'"
    using user ident by (rule runs_as_configuredI)
  ultimately show ?thesis using conf cmd(3,4) r js env by (intro exI conjI)
qed

theorem executed_command_is_configured_witness:
  "\<exists>rd s0 es s argv env u'. pass_setup site_platform site_file rd initial_program = Val (site_deployment, s0)
     \<and> server_run any_event site_deployment (pass_start initial_program) es s
     \<and> forked_child False example_db simple_calls (\<lambda>_. True) (scheduler (sv_world s)) \<lparr>c_uid = 0, c_gid = 0, c_groups = []\<rparr>
         = Some (Execve ''/usr/bin/echo'' argv env u')
     \<and> (\<exists>entry d jobs tx. configured_pipeline site_platform site_file rd entry d jobs tx)"
proof -
  obtain w s argv env u' where c: "server_run any_event site_deployment (pass_start initial_program)
       (site_events @ [Action_event (Ev_exec w)]) s"
    "forked_child False example_db simple_calls (\<lambda>_. True) (scheduler (sv_world s)) \<lparr>c_uid = 0, c_gid = 0, c_groups = []\<rparr>
         = Some (Execve ''/usr/bin/echo'' argv env u')"
    using site_deploy_child [of signals_of_main] unfolding site_pass_start by blast
  obtain s0 where s0: "pass_setup site_platform site_file (site_pass True []) initial_program = Val (site_deployment, s0)"
    using site_pass_setup [of initial_program "[]"] by (auto simp add: initial_program_def)
  from executed_command_is_configured [OF s0 initial_clean c(1) simple_calls_contract c(2)] s0 c show ?thesis by blast
qed

end
