(* ===== verification/Command_Triggered.thy ===== *)
theory Command_Triggered
  imports Command_Origin
begin

text \<open>
  What a request triggers is executed: after the last call for a request that a pipeline hook accepts
  there is a run of the action list in which the server forks a child that executes the hook's command.
\<close>

section \<open>The child of the job in front\<close>

lemma forked_child_front:
  fixes s :: "'f action_state"
  assumes "take 1 (jobs_of s) = [Some (Command name program args env user t)]"
  shows "\<exists>p :: completion impl. forked_child nd db sys exec_ok s u = Some (start_child nd db sys exec_ok p u)
     \<and> p_program p = program \<and> p_args p = args \<and> p_env p = env \<and> p_user p = user"
proof -
  from assms obtain i js where i: "actions s = i # js" "job_of (procs s) i = Some (Command name program args env user t)"
    by (cases "actions s") (auto simp add: jobs_of_def)
  then obtain a p where a: "it_process i = Some a" "mem (procs s) a = Some p"
    "p_program p = program" "p_args p = args" "p_env p = env" "p_user p = user"
    by (auto simp add: job_of_def map_option_case split: option.splits)
  with i(1) have "forked_child nd db sys exec_ok s u = Some (start_child nd db sys exec_ok p u)"
    by (simp add: forked_child_def front_process_def)
  with a show ?thesis by blast
qed

text \<open>The identity of the child: the hook's, if it has one, or else the server's own.\<close>

definition child_identity :: "bool \<Rightarrow> user_db \<Rightarrow> 'u cred_calls \<Rightarrow> user_group \<Rightarrow> 'u \<Rightarrow> 'u res" where
  "child_identity ndebug db sys user u = (if user_group_bool user then impersonate ndebug db sys user u else Val u)"

lemma start_child_executes:
  assumes "child_identity nd db sys (p_user p) u = Val u'" and "exec_ok (c_str (p_program p))"
  shows "start_child nd db sys exec_ok p u
     = Execve (c_str (p_program p)) (map (\<lambda>v. Some (c_str v)) (p_program p # p_args p) @ [None]) (env_get (p_env p)) u'"
  using assms by (simp add: start_child_def child_identity_def argv_of_def)

section \<open>A waiting job comes to the front\<close>

lemma waiting_job_starts:
  assumes "loop_inv (actions_of s)" and "finite (sv_kids s)" and "Some j \<in> set (unstarted_jobs (actions_of s))"
  shows "\<exists>fs wd v. server_run any_event D s (map Action_event fs) v \<and> (\<forall>f\<in>set fs. drives_queue f)
     \<and> length fs < 3 * length (actions (scheduler (sv_world s))) \<and> fork_result wd \<noteq> - 1
     \<and> (\<exists>x. server_step any_event D v (Action_event (Ev_exec wd)) x) \<and> take 1 (jobs_of (scheduler (sv_world v))) = [Some j]"
proof -
  have "finite (kids (actions_of s))" using assms(2) by (simp add: actions_of_def)
  from loop_drains [OF assms(1) this, of "d_ndebug D"] obtain fs u where
    fs: "\<forall>f\<in>set fs. drives_queue f" "length fs \<le> 3 * length (names (acts (actions_of s)))"
    "loop_run (d_ndebug D) (actions_of s) fs u" "names (acts u) = []" by blast
  have lib: "from_libevent f \<and> \<not> appends_job f" if "drives_queue f" for f :: "callable event" using that by (cases f) simp_all
  from traced_loop_run_ex [OF fs(3)] obtain js where
    js: "traced (loop_step (d_ndebug D)) started_jobs (actions_of s) fs js u" by blast
  have "js = unstarted_jobs (actions_of s)" by (rule drained_jobs_started [OF js assms(1) _ fs(4)]) (use fs(1) lib in blast)
  with traced_in [OF js] assms(3) obtain fs1 f fs2 ns1 v y where
    f: "fs = fs1 @ f # fs2" "traced (loop_step (d_ndebug D)) started_jobs (actions_of s) fs1 ns1 v"
    "loop_step (d_ndebug D) v f y" "Some j \<in> set (started_jobs v f)" by blast
  from f(1) fs(1) have dr: "\<forall>f\<in>set fs1. drives_queue f" "drives_queue f" by simp_all
  from action_run [OF traced_loop_run [OF f(2)]] dr(1) lib obtain t where
    t: "server_run any_event D s (map Action_event fs1) t" "actions_of t = v" by blast
  from f(4) obtain wd where wd: "f = Ev_exec wd" by (cases f) simp_all
  from action_step [of D t f y] t(2) f(3) lib [OF dr(2)] have "\<exists>x. server_step any_event D t (Action_event f) x" by blast
  moreover have "take 1 (jobs_of (scheduler (sv_world t))) = [Some j]"
    using f(4) t(2) wd by (cases "jobs_of (acts v)") (auto simp add: actions_of_def)
  moreover have "length fs1 < 3 * length (actions (scheduler (sv_world s)))"
    using fs(2) f(1) by (simp add: actions_of_def names_def)
  ultimately show ?thesis using t(1) dr wd by (intro exI [of _ fs1] exI [of _ wd] exI [of _ t]) simp
qed

section \<open>The last call schedules what the request triggers\<close>

lemma last_call_schedules:
  assumes "server_run (fits D) D (server_start ls w K) es s" and "loop_inv \<lparr>acts = scheduler w, kids = K\<rparr>"
    and "\<And>body. mhd_create (mhd (d_libs D)) body" and "d_limit D < 2 ^ 64"
    and "sl_phase (sv_slots s i) = Receiving c path meth" and "sl_request (sv_slots s i) = Some r"
    and "x \<in> set (hooks_triggered D c path (content r))"
  shows "\<exists>t j. server_step any_event D s (Request_last i) t \<and> asks (json (d_libs D)) x j
     \<and> Some j \<in> set (unstarted_jobs (actions_of t))"
proof -
  note any = server_run_mono [OF assms(1), of any_event]
  note inv = server_run_invariant [OF assms(1) _ assms(3,4)]
  have s: "server_inv D s" by (rule inv) (use assms(2) in \<open>simp add: server_start_actions\<close>)
  have en: "server_enabled (Request_last i) s" using assms(5) by simp
  from server_event_works [OF s en _ assms(3,4)] obtain t where "server_callback D (Request_last i) s = Val t"
    unfolding works_def fork_fails_def by auto
  with en have t: "server_step any_event D s (Request_last i) t" unfolding server_step_iff by blast
  from starting_log.step_history [OF t server_run_slots [OF any] server_run_waiting [OF any] reached_actions(1) [OF any assms(2)]]
  obtain jobs where jobs: "list_all2 (asks (json (d_libs D))) (hooks_triggered D c path (content r)) jobs"
    "unstarted_jobs (actions_of s) @ map Some jobs = unstarted_jobs (actions_of t)"
    using assms(5,6) by auto
  from jobs(1) assms(7) obtain j where "j \<in> set jobs" "asks (json (d_libs D)) x j" by (rule list_all2_in)
  moreover from this(1) have "Some j \<in> set (unstarted_jobs (actions_of t))" by (simp flip: jobs(2))
  ultimately show ?thesis using t by blast
qed

text \<open>
  (C3) What a request triggers is executed: in every state the server can reach within the limit on
  bodies, if the body of a request is complete and a pipeline hook accepts the event in it, then the last
  call for the request succeeds, and after it there are callbacks of the action list alone, fewer than
  three per queued hook with a \<open>fork\<close> that works, that lead to a state in which the exec event is handled and
  the forked child executes exactly the hook's command: program and arguments are its words, the
  environment reports the event, and the identity is the one \<open>impersonate\<close> gives for the hook's user, or
  the server's own. It is assumed that the bodies of all requests keep to the limit, that the HTTP library
  can create responses, and that the system grants the identity and can execute the program.
\<close>

theorem triggered_command_is_executed:
  assumes "server_run (fits D) D (server_start ls w K) es s" and "loop_inv \<lparr>acts = scheduler w, kids = K\<rparr>" and "finite K"
    and "\<And>body. mhd_create (mhd (d_libs D)) body" and "d_limit D < 2 ^ 64"
    and "sl_phase (sv_slots s i) = Receiving c path meth" and "sl_request (sv_slots s i) = Some r"
    and "(event, js, d, Pipeline_hook statuses jobs) \<in> set (hooks_triggered D c path (content r))"
    and "child_identity nd db sys (mUserGroup d) u = Val u'" and "exec_ok (c_str (fst (split_command (mCommand d))))"
  shows "\<exists>t fs v wd x word args entries. server_step any_event D s (Request_last i) t
     \<and> server_run any_event D t (map Action_event fs) v \<and> (\<forall>f\<in>set fs. drives_queue f)
     \<and> length fs < 3 * length (actions (scheduler (sv_world t)))
     \<and> fork_result wd \<noteq> - 1 \<and> server_step any_event D v (Action_event (Ev_exec wd)) x
     \<and> split_command (mCommand d) = (word, args) \<and> reports_event (json (d_libs D)) jobs js entries
     \<and> forked_child nd db sys exec_ok (scheduler (sv_world v)) u
         = Some (Execve (c_str word) (map (\<lambda>v. Some (c_str v)) (word # args) @ [None]) (env_get entries) u')"
proof -
  obtain t j where t: "server_step any_event D s (Request_last i) t"
    and j: "asks (json (d_libs D)) (event, js, d, Pipeline_hook statuses jobs) j" "Some j \<in> set (unstarted_jobs (actions_of t))"
    using last_call_schedules [OF assms(1,2,4,5,6,7,8)] by blast
  obtain word args entries where cmd: "j = Command (hook_name d) word args entries (mUserGroup d) (mTimeout d)"
    "(word, args) = split_command (mCommand d)" "reports_event (json (d_libs D)) jobs js entries"
    using j(1) unfolding asks.simps job_for.simps by (elim exE conjE) (rule that; simp)
  have run: "server_run any_event D (server_start ls w K) (es @ [Request_last i]) t"
    by (rule mr_snoc [OF server_run_mono [OF assms(1)] t]) simp
  note reached = reached_actions [OF run assms(2)]
  obtain fs wd v x where drain: "server_run any_event D t (map Action_event fs) v" "\<forall>f\<in>set fs. drives_queue f"
    "length fs < 3 * length (actions (scheduler (sv_world t)))" "fork_result wd \<noteq> - 1"
    "server_step any_event D v (Action_event (Ev_exec wd)) x" "take 1 (jobs_of (scheduler (sv_world v))) = [Some j]"
    using waiting_job_starts [OF reached(1) reached(2) [OF assms(3)] j(2)] by blast
  obtain p :: "completion impl" where p: "forked_child nd db sys exec_ok (scheduler (sv_world v)) u = Some (start_child nd db sys exec_ok p u)"
    "p_program p = word" "p_args p = args" "p_env p = entries" "p_user p = mUserGroup d"
    using forked_child_front [OF drain(6) [unfolded cmd(1)], where nd = nd and db = db and sys = sys and exec_ok = exec_ok and u = u]
    by blast
  have "start_child nd db sys exec_ok p u
      = Execve (c_str word) (map (\<lambda>v. Some (c_str v)) (word # args) @ [None]) (env_get entries) u'"
    using start_child_executes [of nd db sys p u u' exec_ok] assms(9,10) p cmd(2) [symmetric] by simp
  with t drain cmd(2) [symmetric] cmd(3) p(1) show ?thesis by (intro exI conjI) simp_all
qed

text \<open>The pipeline event of the example: the deploy hook echoes.\<close>

lemma site_triggers:
  "(''Pipeline Hook'', site_doc, site_data, Pipeline_hook {''success''} {''build-this'', ''build-that''})
     \<in> set (hooks_triggered site_deployment good_headers ''/api/deploy'' site_text)"
proof -
  let ?debug = "(hdata site_debug, Debug_hook)"
    and ?deploy = "(site_data, Pipeline_hook {''success''} {''build-this'', ''build-that''})"
  have parsed: "j_parse site_json site_text = Inr site_doc" "log_request site_json site_doc = Val ()"
    by (simp_all add: site_json_def jtree_api_def site_doc_def site_project_def log_request_def string_of_key_def at_key_def)
  have found: "find_handler site_handlers ''/api/deploy'' = Val (Some (Hook_handler site_chain))" by simp
  have "decision site_json ''Pipeline Hook'' site_doc ?debug = Val Accepted_outcome"
    by (simp add: decision_def debug_process_def execute_function_def)
  moreover have "decision site_json ''Pipeline Hook'' site_doc ?deploy = Val Accepted_outcome"
    using site_pipeline_runs [of site_world] by (elim exE) (simp add: decision_def)
  moreover have "links site_chain = [?debug, ?deploy]"
    by (simp add: site_chain_def site_pipeline_def site_debug_def)
  moreover have "selects ''secret'' ''10.0.0.1'' ?debug" "selects ''secret'' ''10.0.0.1'' ?deploy"
    by (simp_all add: selects_def site_debug_def site_data_def)
  ultimately have "?deploy \<in> set (accepting site_json ''Pipeline Hook'' site_doc
      (asked site_json ''secret'' ''10.0.0.1'' ''Pipeline Hook'' site_doc (links site_chain)))"
    by (simp add: accepting_def asked_def)
  with parsed found show ?thesis
    by (simp add: hooks_triggered_def Let_def site_deployment_def site_def site_mhd_def header_of_def good_headers_def
        peer_text_def addr_to_string_def c_str_def image_iff)
qed

theorem triggered_command_is_executed_witness:
  "\<exists>t fs v argv env u'. server_step any_event site_deployment (site_before []) (Request_last 0) t
     \<and> server_run any_event site_deployment t (map Action_event fs) v
     \<and> forked_child False example_db simple_calls (\<lambda>_. True) (scheduler (sv_world v)) \<lparr>c_uid = 0, c_gid = 0, c_groups = []\<rparr>
         = Some (Execve ''/usr/bin/echo'' argv env u')"
proof -
  have run: "server_run (fits site_deployment) site_deployment (server_start [] site_world {}) site_prefix (site_before [])"
    using site_prefix_exec by (blast intro: server_exec_run)
  have slot: "sl_phase (sv_slots (site_before []) 0) = Receiving good_headers ''/api/deploy'' ''POST''"
    "sl_request (sv_slots (site_before []) 0) = Some (site_receiving site_text)"
    using site_prefix_exec [of "[]"] by simp_all
  have split: "split_command (mCommand site_data) = (''/usr/bin/echo'', [''Hello,'', ''world!''])"
    unfolding site_data_def by code_simp
  obtain u' where u: "child_identity False example_db simple_calls (mUserGroup site_data) \<lparr>c_uid = 0, c_gid = 0, c_groups = []\<rparr> = Val u'"
    by (simp add: child_identity_def impersonate_def example_db_def simple_calls_def sys_call_def
        user_group_bool_def invalid_id_def site_data_def)
  have hook: "(''Pipeline Hook'', site_doc, site_data, Pipeline_hook {''success''} {''build-this'', ''build-that''})
      \<in> set (hooks_triggered site_deployment good_headers ''/api/deploy'' (content (site_receiving site_text)))"
    using site_triggers by (simp only: site_limit)
  have create: "mhd_create (mhd (d_libs site_deployment)) body" for body by (simp add: site_deployment_def)
  have limit: "d_limit site_deployment < 2 ^ 64" by (simp add: site_deployment_def)
  from triggered_command_is_executed [where exec_ok = "\<lambda>_. True", OF run site_inv(1) finite.emptyI create limit slot
      hook u TrueI] obtain t fs v word args entries where
    r: "server_step any_event site_deployment (site_before []) (Request_last 0) t"
      "server_run any_event site_deployment t (map Action_event fs) v"
    and w: "split_command (mCommand site_data) = (word, args)"
    and c: "forked_child False example_db simple_calls (\<lambda>_. True) (scheduler (sv_world v)) \<lparr>c_uid = 0, c_gid = 0, c_groups = []\<rparr>
      = Some (Execve (c_str word) (map (\<lambda>v. Some (c_str v)) (word # args) @ [None]) (env_get entries) u')"
    by (elim exE conjE) (rule that)
  from w split have "c_str word = ''/usr/bin/echo''" by (auto simp add: c_str_def)
  with c have "forked_child False example_db simple_calls (\<lambda>_. True) (scheduler (sv_world v)) \<lparr>c_uid = 0, c_gid = 0, c_groups = []\<rparr>
      = Some (Execve ''/usr/bin/echo'' (map (\<lambda>v. Some (c_str v)) (word # args) @ [None]) (env_get entries) u')" by simp
  with r show ?thesis by (intro exI conjI)
qed

end
