(* ===== verification/Child_Signals.thy ===== *)
theory Child_Signals
  imports Action_Facts
begin

text \<open>
  How the end of a child reaches \<open>onSigchld\<close>: the kernel raises SIGCHLD, which is discarded unless the
  process list has registered its event. The static list of \<open>process::list::singleton\<close> is created by
  the first \<open>process::start\<close>, behind its \<open>fork\<close>. The machine of \<^theory_text>\<open>Action_Loop\<close> is extended by the children
  that have exited and the pending signal. Either every exit is reported to the program, or the first
  child exited before the list existed, and then only the timers end its hook.
\<close>

section \<open>Registration and signals\<close>

text \<open>
  \<open>sg_list\<close>: the static list exists and its event is added (\<open>list::list\<close>); \<open>sg_zombies\<close>: the children that
  have exited and have not been waited for; \<open>sg_pending\<close>: SIGCHLD has been raised while the event was
  registered, and its callback has not run yet.
\<close>

record sigchld =
  sg_list :: bool
  sg_zombies :: "int set"
  sg_pending :: bool

definition no_signals :: sigchld where
  "no_signals = \<lparr>sg_list = False, sg_zombies = {}, sg_pending = False\<rparr>"

text \<open>The constructor \<open>list::list\<close> adds the event; the static object is constructed once.\<close>

definition list_constructor :: "sigchld \<Rightarrow> sigchld" where
  "list_constructor g = g\<lparr>sg_list := True\<rparr>"

definition list_singleton :: "sigchld \<Rightarrow> sigchld" where
  "list_singleton g = (if sg_list g then g else list_constructor g)"

text \<open>A child exits: without a handler the default action of SIGCHLD is to ignore it.\<close>

definition child_exits :: "int \<Rightarrow> sigchld \<Rightarrow> sigchld" where
  "child_exits pid g = g\<lparr>sg_zombies := insert pid (sg_zombies g), sg_pending := sg_pending g \<or> sg_list g\<rparr>"

text \<open>
  \<open>start\<close> in the parent: the child runs from \<open>fork\<close> on, and may exit (\<open>early\<close>) before the call of \<open>singleton\<close>
  has returned.
\<close>

definition start_signals :: "bool \<Rightarrow> int \<Rightarrow> sigchld \<Rightarrow> sigchld" where
  "start_signals early pid g = list_singleton (if early then child_exits pid g else g)"

section \<open>The machine\<close>

record 'f signal_state =
  sg_loop :: "'f loop_state"
  sg_signals :: sigchld

datatype 'f signal_event =
    Sg_callback "'f event" bool
  | Sg_exit int
  | Sg_deliver "'f outside" "wait_answer list"

definition initial_signals :: "'f signal_state" where
  "initial_signals = \<lparr>sg_loop = initial_loop, sg_signals = no_signals\<rparr>"

text \<open>A callback that forks, and its child.\<close>

fun forks :: "'f event \<Rightarrow> 'f loop_state \<Rightarrow> int option" where
  "forks (Ev_exec w) s = (if front_is_process (acts s) then Some (fork_result w) else None)"
| "forks e s = None"

fun is_sigchld :: "'f event \<Rightarrow> bool" where
  "is_sigchld (Ev_sigchld w ws) = True"
| "is_sigchld e = False"

text \<open>
  What \<open>waitid\<close> answers when it is called again and again: one answer for each child that has exited, in any
  order. A child is waited for by the call that answers with it, so those left are the answers that
  \<open>onSigchld\<close> did not ask for.
\<close>

definition child_answers :: "int set \<Rightarrow> wait_answer list \<Rightarrow> bool" where
  "child_answers Z ws \<longleftrightarrow> distinct (map si_pid ws) \<and> set (map si_pid ws) = Z
     \<and> (\<forall>x\<in>set ws. \<not> wait_failed x \<and> si_code x \<noteq> CLD_other)"

definition waited_for :: "wait_answer list \<Rightarrow> wait_answer list \<Rightarrow> int set" where
  "waited_for ws rest = si_pid ` set ws - si_pid ` set rest"

text \<open>
  The callback \<open>onSigchld\<close> runs when the signal is pending: which children it reaps is computed by its loop.
\<close>

inductive signal_step :: "bool \<Rightarrow> 'f signal_state \<Rightarrow> 'f signal_event \<Rightarrow> 'f signal_state \<Rightarrow> bool" for nd where
  callback: "loop_step nd (sg_loop s) e l \<Longrightarrow> \<not> is_sigchld e
    \<Longrightarrow> g = (case forks e (sg_loop s) of None \<Rightarrow> sg_signals s | Some pid \<Rightarrow> start_signals early pid (sg_signals s))
    \<Longrightarrow> signal_step nd s (Sg_callback e early) \<lparr>sg_loop = l, sg_signals = g\<rparr>"
| exits: "pid \<in> kids (sg_loop s) - sg_zombies (sg_signals s)
    \<Longrightarrow> signal_step nd s (Sg_exit pid) (s\<lparr>sg_signals := child_exits pid (sg_signals s)\<rparr>)"
| deliver: "sg_pending (sg_signals s) \<Longrightarrow> child_answers (sg_zombies (sg_signals s)) ws
    \<Longrightarrow> sigchld_loop nd procs (\<lambda>ps s. s\<lparr>procs := ps\<rparr>) (run_completion w) ws (acts (sg_loop s)) = Val (a, rest)
    \<Longrightarrow> signal_step nd s (Sg_deliver w ws)
          \<lparr>sg_loop = \<lparr>acts = a, kids = kids (sg_loop s) - waited_for ws rest\<rparr>,
           sg_signals = (sg_signals s)\<lparr>sg_zombies := sg_zombies (sg_signals s) - waited_for ws rest,
                                       sg_pending := False\<rparr>\<rparr>"

inductive signal_run :: "bool \<Rightarrow> ('f signal_state \<Rightarrow> 'f signal_event \<Rightarrow> bool) \<Rightarrow> 'f signal_state
    \<Rightarrow> 'f signal_event list \<Rightarrow> 'f signal_state \<Rightarrow> bool" for nd P s where
  sr_nil: "signal_run nd P s [] s"
| sr_snoc: "signal_run nd P s es t \<Longrightarrow> P t e \<Longrightarrow> signal_step nd t e u \<Longrightarrow> signal_run nd P s (es @ [e]) u"

text \<open>The steps that do not fall into the window: no child exits early while there is no list yet.\<close>

fun outside_window :: "'f signal_state \<Rightarrow> 'f signal_event \<Rightarrow> bool" where
  "outside_window s (Sg_callback e early) \<longleftrightarrow> (early \<longrightarrow> forks e (sg_loop s) \<noteq> None \<longrightarrow> sg_list (sg_signals s))"
| "outside_window s e \<longleftrightarrow> True"

section \<open>Every exit is reported\<close>

definition signals_inv :: "'f signal_state \<Rightarrow> bool" where
  "signals_inv s \<longleftrightarrow> loop_inv (sg_loop s) \<and> finite (kids (sg_loop s))
     \<and> sg_zombies (sg_signals s) \<subseteq> kids (sg_loop s)
     \<and> (kids (sg_loop s) \<noteq> {} \<longrightarrow> sg_list (sg_signals s))
     \<and> (sg_zombies (sg_signals s) \<noteq> {} \<longrightarrow> sg_pending (sg_signals s))"

lemma initial_signals_inv: "signals_inv initial_signals"
  using initial_loop_inv by (simp add: signals_inv_def initial_signals_def initial_loop_def no_signals_def)

lemma callback_kids:
  assumes "loop_step nd s e t" and "\<not> is_sigchld e"
  shows "kids t = (case forks e s of None \<Rightarrow> kids s | Some pid \<Rightarrow> insert pid (kids s))"
  using assms by (cases e) (auto simp add: loop_step_iff)

lemma start_signals_simps:
  "sg_list (start_signals early pid g)"
  "sg_zombies (start_signals early pid g) = (if early then insert pid (sg_zombies g) else sg_zombies g)"
  "sg_pending (start_signals early pid g) = (sg_pending g \<or> early \<and> sg_list g)"
  by (auto simp add: start_signals_def list_singleton_def list_constructor_def child_exits_def)

text \<open>The delivery is the step \<open>Ev_sigchld\<close> of the loop: no answer is left.\<close>

lemma deliver_step:
  assumes "loop_inv (sg_loop s)" and "sg_zombies (sg_signals s) \<subseteq> kids (sg_loop s)"
    and "signal_step nd s (Sg_deliver w ws) t"
  shows "sg_pending (sg_signals s) \<and> child_answers (sg_zombies (sg_signals s)) ws
     \<and> loop_step nd (sg_loop s) (Ev_sigchld w ws) (sg_loop t)
     \<and> kids (sg_loop t) = kids (sg_loop s) - sg_zombies (sg_signals s)
     \<and> sg_signals t = (sg_signals s)\<lparr>sg_zombies := {}, sg_pending := False\<rparr>"
  using assms(3)
proof cases
  case (deliver a rest)
  have ans: "\<forall>x\<in>set ws. \<not> wait_failed x \<and> si_code x \<noteq> CLD_other \<and> si_pid x \<in> kids (sg_loop s)"
    "distinct (map si_pid ws)" "si_pid ` set ws = sg_zombies (sg_signals s)"
    using deliver(3) assms(2) by (auto simp add: child_answers_def)
  moreover have "\<forall>k\<in>kids (sg_loop s). 0 < k" using assms(1) by (simp add: loop_inv_def)
  ultimately have "\<forall>x\<in>set ws. si_pid x \<noteq> 0" by force
  with deliver(4) have rest: "rest = []" by (rule sigchld_loop_rest)
  then have waited: "waited_for ws rest = sg_zombies (sg_signals s)" using ans(3) by (simp add: waited_for_def)
  have "run_event nd (Ev_sigchld w ws) (acts (sg_loop s)) = Val a"
    using deliver(4) by (simp add: childSignal_def on_sigchld_def)
  with ans deliver(1-3) waited show ?thesis by (simp add: loop_step_iff)
qed

lemma signal_step_inv:
  assumes "signal_step nd s e t" and "outside_window s e" and "signals_inv s"
  shows "signals_inv t"
  using assms(1)
proof cases
  case (callback e' l g early)
  have "loop_inv l" using callback(3) assms(3) by (auto simp add: signals_inv_def intro: loop_step_effect)
  with callback_kids [OF callback(3,4)] show ?thesis
    using assms(2,3) callback(1,2,5) by (cases "forks e' (sg_loop s)") (auto simp add: signals_inv_def start_signals_simps)
next
  case (exits pid)
  with assms(3) show ?thesis by (auto simp add: signals_inv_def child_exits_def)
next
  case (deliver ws w a rest)
  have "signal_step nd s (Sg_deliver w ws) t" using assms(1) deliver(1) by simp
  from deliver_step [OF _ _ this] assms(3) have step: "loop_step nd (sg_loop s) (Ev_sigchld w ws) (sg_loop t)"
    "kids (sg_loop t) = kids (sg_loop s) - sg_zombies (sg_signals s)"
    "sg_signals t = (sg_signals s)\<lparr>sg_zombies := {}, sg_pending := False\<rparr>"
    by (simp_all add: signals_inv_def)
  have "loop_inv (sg_loop t)" using step(1) assms(3) by (auto simp add: signals_inv_def intro: loop_step_effect)
  with step(2,3) assms(3) show ?thesis by (auto simp add: signals_inv_def)
qed

lemma signal_run_inv:
  "signal_run nd P s es t \<Longrightarrow> (\<And>s e. P s e \<Longrightarrow> outside_window s e) \<Longrightarrow> signals_inv s \<Longrightarrow> signals_inv t"
  by (induction rule: signal_run.induct) (auto intro: signal_step_inv)

text \<open>The answers of \<open>waitid\<close> for a set of children.\<close>

definition exit_answer :: "int \<Rightarrow> wait_answer" where
  "exit_answer pid = \<lparr>wait_failed = False, si_pid = pid, si_code = CLD_EXITED, si_status = 0\<rparr>"

lemma exit_answer_simps [simp]:
  "wait_failed (exit_answer k) = False" "si_pid (exit_answer k) = k" "si_code (exit_answer k) = CLD_EXITED"
  by (simp_all add: exit_answer_def)

lemma child_answers_exist:
  assumes "finite Z"
  shows "\<exists>ws. child_answers Z ws"
proof -
  from assms obtain ks where ks: "set ks = Z" "distinct ks" using finite_distinct_list by blast
  have "map si_pid (map exit_answer ks) = ks" by (simp add: o_def)
  with ks show ?thesis by (intro exI [of _ "map exit_answer ks"]) (auto simp add: child_answers_def)
qed

lemma deliver_possible:
  assumes "signals_inv s" and "sg_pending (sg_signals s)" and "child_answers (sg_zombies (sg_signals s)) ws"
  shows "\<exists>t. signal_step nd s (Sg_deliver w ws) t"
proof -
  have inv: "loop_inv \<lparr>acts = acts (sg_loop s), kids = kids (sg_loop s)\<rparr>"
    using assms(1) by (cases "sg_loop s") (simp add: signals_inv_def)
  have "\<forall>x\<in>set ws. \<not> wait_failed x \<and> si_code x \<noteq> CLD_other \<and> si_pid x \<in> kids (sg_loop s)"
    "distinct (map si_pid ws)" using assms(1,3) by (auto simp add: signals_inv_def child_answers_def)
  from sigchld_step_inv [OF inv this(2,1), of nd w] obtain a where "childSignal nd w ws (acts (sg_loop s)) = Val a"
    by blast
  then obtain rest where "sigchld_loop nd procs (\<lambda>ps s. s\<lparr>procs := ps\<rparr>) (run_completion w) ws (acts (sg_loop s)) = Val (a, rest)"
    by (auto simp add: childSignal_def on_sigchld_def bnd_Val_iff)
  from signal_step.deliver [OF assms(2,3) this] show ?thesis by blast
qed

lemma deliver_effect:
  assumes "signals_inv s" and "signal_step nd s (Sg_deliver w ws) t"
    and "busy (acts (sg_loop s))" and "front_pid (acts (sg_loop s)) \<in> sg_zombies (sg_signals s)"
  shows "names (acts (sg_loop t)) = tl (names (acts (sg_loop s))) \<and> \<not> busy (acts (sg_loop t))"
proof -
  have inv: "loop_inv \<lparr>acts = acts (sg_loop s), kids = kids (sg_loop s)\<rparr>"
    using assms(1) by (cases "sg_loop s") (simp add: signals_inv_def)
  have d: "child_answers (sg_zombies (sg_signals s)) ws" "loop_step nd (sg_loop s) (Ev_sigchld w ws) (sg_loop t)"
    using deliver_step [of s nd w ws t] assms(1,2) by (simp_all add: signals_inv_def)
  then have "distinct (map si_pid ws)" "\<forall>x\<in>set ws. \<not> wait_failed x \<and> si_code x \<noteq> CLD_other \<and> si_pid x \<in> kids (sg_loop s)"
    "childSignal nd w ws (acts (sg_loop s)) = Val (acts (sg_loop t))" "si_pid ` set ws = sg_zombies (sg_signals s)"
    by (auto simp add: loop_step_iff child_answers_def)
  with sigchld_step_inv [OF inv this(1,2), of nd w] assms(3,4) show ?thesis by (simp add: effect_def)
qed

text \<open>
  (C21) No exit of a child is lost once the process list exists: over any run of the event loop in which no
  child exits between the first \<open>fork\<close> and the creation of the list, whenever a child has exited the
  signal is pending, so that \<open>onSigchld\<close> can run. In whatever order \<open>waitid\<close> then answers with the exited
  children, the callback succeeds, and after it every one of them has been waited for, however many
  signals were merged into one, and no other child has; if the running command is among them its hook
  leaves the queue.
\<close>

theorem every_child_exit_is_reported:
  assumes "signal_run nd outside_window initial_signals es s" and "pid \<in> sg_zombies (sg_signals s)"
  shows "sg_pending (sg_signals s) \<and> (\<exists>ws. child_answers (sg_zombies (sg_signals s)) ws)
     \<and> (\<forall>w ws. child_answers (sg_zombies (sg_signals s)) ws \<longrightarrow> (\<exists>t. signal_step nd s (Sg_deliver w ws) t))
     \<and> (\<forall>w ws t. signal_step nd s (Sg_deliver w ws) t \<longrightarrow>
          sg_zombies (sg_signals t) = {} \<and> kids (sg_loop t) = kids (sg_loop s) - sg_zombies (sg_signals s)
          \<and> (busy (acts (sg_loop s)) \<and> front_pid (acts (sg_loop s)) = pid \<longrightarrow>
               names (acts (sg_loop t)) = tl (names (acts (sg_loop s))) \<and> \<not> busy (acts (sg_loop t))))"
proof -
  have inv: "signals_inv s" using assms(1) initial_signals_inv by (blast intro: signal_run_inv)
  then have pend: "sg_pending (sg_signals s)" "finite (sg_zombies (sg_signals s))"
    using assms(2) by (auto simp add: signals_inv_def intro: finite_subset)
  have "sg_zombies (sg_signals t) = {} \<and> kids (sg_loop t) = kids (sg_loop s) - sg_zombies (sg_signals s)"
    if "signal_step nd s (Sg_deliver w ws) t" for w ws t
    using deliver_step [OF _ _ that] inv by (simp add: signals_inv_def)
  moreover have "names (acts (sg_loop t)) = tl (names (acts (sg_loop s))) \<and> \<not> busy (acts (sg_loop t))"
    if "signal_step nd s (Sg_deliver w ws) t" and "busy (acts (sg_loop s)) \<and> front_pid (acts (sg_loop s)) = pid" for w ws t
    using that assms(2) by (intro deliver_effect [OF inv that(1)]) simp_all
  ultimately show ?thesis
    using pend child_answers_exist [OF pend(2)] deliver_possible [OF inv pend(1)] by simp
qed

text \<open>The example: the command of \<^theory_text>\<open>Action_Facts\<close> is scheduled and started, and its child exits.\<close>

definition example_deploy :: "unit event" where
  "example_deploy = Ev_command ''deploy'' ''/bin/true'' [] [] null_user_group 1"

lemma example_deploy_steps:
  "\<exists>l. loop_step False initial_loop example_deploy l \<and> front_is_process (acts l)
     \<and> (\<exists>m. loop_step False l (Ev_exec example_outside) m \<and> kids m = {100})"
  by (simp add: example_deploy_def loop_step_iff example_outside_def run_defs)

lemma example_started:
  "\<exists>s t. signal_run False P initial_signals [Sg_callback example_deploy False] s
     \<and> front_is_process (acts (sg_loop s)) \<and> \<not> sg_list (sg_signals s)
     \<and> signal_step False s (Sg_callback (Ev_exec example_outside) early) t
     \<and> kids (sg_loop t) = {100} \<and> sg_zombies (sg_signals t) = (if early then {100} else {})"
  if "P initial_signals (Sg_callback example_deploy False)"
proof -
  from example_deploy_steps obtain l m where l: "loop_step False initial_loop example_deploy l" "front_is_process (acts l)"
    and m: "loop_step False l (Ev_exec example_outside) m" "kids m = {100}" by blast
  let ?s = "\<lparr>sg_loop = l, sg_signals = no_signals\<rparr>"
  let ?t = "\<lparr>sg_loop = m, sg_signals = start_signals early 100 no_signals\<rparr>"
  have s: "signal_step False initial_signals (Sg_callback example_deploy False) ?s"
    using l(1) by (intro signal_step.callback) (simp_all add: initial_signals_def example_deploy_def)
  have "signal_run False P initial_signals ([] @ [Sg_callback example_deploy False]) ?s"
    using sr_nil that s by (rule sr_snoc)
  moreover have "signal_step False ?s (Sg_callback (Ev_exec example_outside) early) ?t"
    using m(1) l(2) by (intro signal_step.callback) (simp_all add: example_outside_def)
  ultimately show ?thesis
    using l(2) m(2) by (intro exI [of _ ?s] exI [of _ ?t]) (simp add: start_signals_simps no_signals_def)
qed

theorem every_child_exit_is_reported_witness:
  "\<exists>es s t. signal_run False outside_window initial_signals es (s :: unit signal_state) \<and> 100 \<in> sg_zombies (sg_signals s)
     \<and> signal_step False s (Sg_deliver example_outside [exit_answer 100]) t \<and> sg_zombies (sg_signals t) = {}"
proof -
  obtain s t where st: "signal_run False outside_window initial_signals [Sg_callback example_deploy False] s"
    "signal_step False s (Sg_callback (Ev_exec example_outside) False) t"
    "kids (sg_loop t) = {100}" "sg_zombies (sg_signals t) = {}"
    using example_started [of outside_window False] by (auto simp add: example_deploy_def)
  let ?es = "([Sg_callback example_deploy False] @ [Sg_callback (Ev_exec example_outside) False]) @ [Sg_exit 100]"
  let ?u = "t\<lparr>sg_signals := child_exits 100 (sg_signals t)\<rparr>"
  have "signal_step False t (Sg_exit 100) ?u" using st(3,4) by (intro signal_step.exits) simp
  with st(1,2) have run: "signal_run False outside_window initial_signals ?es ?u"
    by (intro sr_snoc) simp_all
  moreover have z: "100 \<in> sg_zombies (sg_signals ?u)" by (simp add: child_exits_def)
  moreover have "child_answers (sg_zombies (sg_signals ?u)) [exit_answer 100]"
    using st(4) by (simp add: child_answers_def child_exits_def)
  ultimately show ?thesis using every_child_exit_is_reported [OF run z] by blast
qed

section \<open>The window of the first start\<close>

text \<open>Before the list exists there is no child and no pending signal.\<close>

lemma no_list_no_kids:
  assumes "signal_run nd P initial_signals es s"
  shows "loop_inv (sg_loop s) \<and> sg_zombies (sg_signals s) \<subseteq> kids (sg_loop s) \<and> (sg_list (sg_signals s)
     \<or> kids (sg_loop s) = {} \<and> sg_zombies (sg_signals s) = {} \<and> \<not> sg_pending (sg_signals s))"
  using assms
proof (induction rule: signal_run.induct)
  case sr_nil
  show ?case using initial_loop_inv by (simp add: initial_signals_def initial_loop_def no_signals_def)
next
  case (sr_snoc es s e t)
  from sr_snoc.hyps(3) show ?case
  proof cases
    case (callback e' l g early)
    have "loop_inv l" using callback(3) sr_snoc.IH by (auto intro: loop_step_effect)
    with callback_kids [OF callback(3,4)] callback(2,5) sr_snoc.IH show ?thesis
      by (cases "forks e' (sg_loop s)") (auto simp add: start_signals_simps)
  next
    case (exits pid)
    with sr_snoc.IH show ?thesis by (auto simp add: child_exits_def)
  next
    case (deliver ws w a rest)
    have "signal_step nd s (Sg_deliver w ws) t" using sr_snoc.hyps(3) deliver(1) by simp
    from deliver_step [OF _ _ this] sr_snoc.IH have "loop_step nd (sg_loop s) (Ev_sigchld w ws) (sg_loop t)"
      "sg_signals t = (sg_signals s)\<lparr>sg_zombies := {}, sg_pending := False\<rparr>"
      by simp_all
    with deliver(3) sr_snoc.IH show ?thesis by (auto intro: loop_step_effect)
  qed
qed

text \<open>
  The child of the front command has exited unreported, no other child is alive, the timeout is running.
\<close>

definition unreported :: "int \<Rightarrow> string list \<Rightarrow> 'f signal_state \<Rightarrow> bool" where
  "unreported pid ns s \<longleftrightarrow> loop_inv (sg_loop s) \<and> timeoutEv (acts (sg_loop s)) \<noteq> None
     \<and> kids (sg_loop s) \<subseteq> sg_zombies (sg_signals s) \<and> pid \<in> sg_zombies (sg_signals s)
     \<and> \<not> sg_pending (sg_signals s) \<and> (\<exists>ms. names (acts (sg_loop s)) = ns @ ms)"

fun not_timeout :: "'f signal_state \<Rightarrow> 'f signal_event \<Rightarrow> bool" where
  "not_timeout s (Sg_callback Ev_timeout early) = False"
| "not_timeout s e = True"

lemma append_keeps_timer:
  assumes "appends_job e" and "run_event nd e s = Val t"
  shows "timeoutEv t = timeoutEv s \<and> (\<exists>ms. names t = names s @ ms)"
  using assms by (cases e)
    (auto simp add: schedule_command_eq append_process_def append_function_def append_item_def Let_def names_def)

lemma unreported_step:
  assumes "signal_step nd s e t" and "unreported pid ns s" and "not_timeout s e"
  shows "unreported pid ns t"
  using assms(1)
proof cases
  case (callback e' l g early)
  from assms(2) have inv: "loop_inv (sg_loop s)" and to: "timeoutEv (acts (sg_loop s)) \<noteq> None"
    by (simp_all add: unreported_def)
  have "running (kids (sg_loop s)) (acts (sg_loop s))" using waiting_or_running(2) [OF inv] to by blast
  with to have idle: "\<not> execEv (acts (sg_loop s))" "killEv (acts (sg_loop s)) = None" by (auto simp add: running_def)
  with callback(2-4) assms(3) have app: "appends_job e'" by (cases e') (auto simp add: loop_step_iff callback(1))
  then have "forks e' (sg_loop s) = None" by (cases e') simp_all
  with callback_kids [OF callback(3,4)] callback(5) have same: "kids l = kids (sg_loop s)" "g = sg_signals s" by simp_all
  from callback(3) append_keeps_timer [OF app] have "timeoutEv (acts l) = timeoutEv (acts (sg_loop s))
      \<and> (\<exists>ms. names (acts l) = names (acts (sg_loop s)) @ ms)" by (auto simp add: loop_step_iff)
  moreover have "loop_inv l" using callback(3) inv by (rule loop_step_effect(1) [rotated])
  ultimately show ?thesis using assms(2) callback(2) same by (auto simp add: unreported_def)
next
  case (exits k)
  with assms(2) show ?thesis by (auto simp add: unreported_def)
next
  case (deliver ws w a rest)
  with assms(2) show ?thesis by (auto simp add: unreported_def)
qed

lemma unreported_run:
  "signal_run nd not_timeout s es t \<Longrightarrow> unreported pid ns s \<Longrightarrow> unreported pid ns t"
  by (induction rule: signal_run.induct) (auto intro: unreported_step)

lemma early_start_unreported:
  assumes "signal_run nd P initial_signals es s" and "\<not> sg_list (sg_signals s)"
    and "front_is_process (acts (sg_loop s))" and "signal_step nd s (Sg_callback (Ev_exec w) True) t"
  shows "unreported (fork_result w) (names (acts (sg_loop s))) t"
  using assms(4)
proof cases
  case (callback l g)
  from no_list_no_kids [OF assms(1)] assms(2) have inv: "loop_inv (sg_loop s)" and none: "kids (sg_loop s) = {}"
    "sg_zombies (sg_signals s) = {}" "\<not> sg_pending (sg_signals s)" by auto
  from callback(2) have step: "enabled (Ev_exec w) (sg_loop s)" "run_event nd (Ev_exec w) (acts (sg_loop s)) = Val (acts l)"
    by (auto simp add: loop_step_iff)
  from exec_step_inv [OF inv step(1), of nd] step(2) assms(3) have
    eff: "effect (acts (sg_loop s)) (acts l) (names (acts (sg_loop s))) True []" by auto
  have "execEv (acts (sg_loop s))" using step(1) by simp
  with waiting_or_running(1) [OF inv] have "killEv (acts (sg_loop s)) = None" by (simp add: waiting_def)
  then have "killEv a = None" if "run_event nd (Ev_exec w) (acts (sg_loop s)) = Val a" for a
    using that assms(3) by (auto simp add: front_is_process_def executeNextAction_def executeProcess_def
        noexcept_eq_Val bnd_Val_iff split: list.splits option.splits)
  with step(2) have "killEv (acts l) = None" by blast
  with eff have "timeoutEv (acts l) \<noteq> None" by (auto simp add: effect_def busy_def)
  moreover have "loop_inv l" using callback(2) inv by (rule loop_step_effect(1) [rotated])
  moreover note callback_kids [OF callback(2,3)]
  ultimately show ?thesis
    using callback(1,4) assms(2,3) none eff by (auto simp add: unreported_def start_signals_simps effect_def)
qed

text \<open>
  (C33) The exit of the first child can be lost: \<open>process::start\<close> forks before it creates the process list,
  which registers SIGCHLD. If the first child exits in between, the signal is not pending, now or later,
  and no run of the event loop without the timeout ends its hook or starts another one, whatever is
  scheduled meanwhile: a command that has succeeded is treated as a hung one.
\<close>

theorem first_child_exit_can_be_lost:
  assumes "signal_run nd (\<lambda>s e. True) initial_signals es s" and "\<not> sg_list (sg_signals s)"
    and "front_is_process (acts (sg_loop s))" and "signal_step nd s (Sg_callback (Ev_exec w) True) t"
    and "signal_run nd not_timeout t fs u"
  shows "fork_result w \<in> sg_zombies (sg_signals u) \<and> \<not> sg_pending (sg_signals u)
     \<and> busy (acts (sg_loop u)) \<and> (\<exists>ns. names (acts (sg_loop u)) = names (acts (sg_loop s)) @ ns)"
  using unreported_run [OF assms(5) early_start_unreported [OF assms(1-4)]]
  by (auto simp add: unreported_def busy_def)

theorem first_child_exit_can_be_lost_witness:
  "\<exists>s t. signal_run False (\<lambda>s e. True) initial_signals [Sg_callback example_deploy False] s
     \<and> signal_step False s (Sg_callback (Ev_exec example_outside) True) t
     \<and> 100 \<in> sg_zombies (sg_signals t) \<and> \<not> sg_pending (sg_signals t) \<and> busy (acts (sg_loop t))"
proof -
  obtain s t where st: "signal_run False (\<lambda>s e. True) initial_signals [Sg_callback example_deploy False] s"
    "\<not> sg_list (sg_signals s)" "front_is_process (acts (sg_loop s))"
    "signal_step False s (Sg_callback (Ev_exec example_outside) True) t"
    using example_started [of "\<lambda>s e. True" True] by blast
  from first_child_exit_can_be_lost [OF st sr_nil] st(1,4) show ?thesis
    by (intro exI [of _ s] exI [of _ t]) (simp add: example_outside_def)
qed

end
