(* ===== verification/Status_Facts.thy ===== *)
theory Status_Facts
  imports Example_Site
begin

text \<open>
  The status page read back: a reader that takes the cells of the table from the page finds the counters
  the page was made from.
\<close>

section \<open>A reader of the page\<close>

text \<open>The rest of a text behind the first occurrence of a pattern.\<close>

fun stripped :: "string \<Rightarrow> string \<Rightarrow> string option" where
  "stripped [] s = Some s"
| "stripped (p # ps) (c # s) = (if p = c then stripped ps s else None)"
| "stripped (p # ps) [] = None"

fun behind :: "string \<Rightarrow> string \<Rightarrow> string option" where
  "behind pat [] = None"
| "behind pat (c # s) = (case stripped pat (c # s) of Some t \<Rightarrow> Some t | None \<Rightarrow> behind pat s)"

text \<open>The first cells of the table: what stands between the tag of a cell and the next tag.\<close>

definition cell_tag :: string where
  "cell_tag = ''<dd class=\"col-sm-9\">''"

fun cells :: "nat \<Rightarrow> string \<Rightarrow> string list" where
  "cells 0 s = []"
| "cells (Suc n) s =
     (case behind cell_tag s of
        None \<Rightarrow> []
      | Some t \<Rightarrow> takeWhile (\<lambda>c. c \<noteq> CHR ''<'') t # cells n t)"

definition no_tag :: "string \<Rightarrow> bool" where
  "no_tag s \<longleftrightarrow> CHR ''<'' \<notin> set s"

lemma behind_no_tag: "no_tag u \<Longrightarrow> behind cell_tag (u @ s) = behind cell_tag s"
  by (induction u) (auto simp add: no_tag_def cell_tag_def)

lemma takeWhile_no_tag: "no_tag u \<Longrightarrow> takeWhile (\<lambda>c. c \<noteq> CHR ''<'') (u @ CHR ''<'' # s) = u"
  by (induction u) (auto simp add: no_tag_def)

lemma count_text_no_tag: "no_tag (count_text n)"
proof -
  have "\<not> (48 \<le> (of_char CHR ''<'' :: nat) \<and> (of_char CHR ''<'' :: nat) \<le> 57)" by simp
  with nat_to_string_digits show ?thesis unfolding no_tag_def count_text_def by blast
qed

lemma decimal_count_text: "decimal_value (count_text n) = unat n"
  by (simp add: count_text_def decimal_value_nat_to_string)

section \<open>The rows\<close>

lemma behind_head: "behind cell_tag (html_head @ s) = Some s"
  by (simp add: html_head_def cell_tag_def)

lemma behind_rows:
  "behind cell_tag (html_row ''Good requests'' @ s) = Some s" "behind cell_tag (html_row ''Rejected requests'' @ s) = Some s"
  "behind cell_tag (html_row ''Hooks scheduled'' @ s) = Some s" "behind cell_tag (html_row ''Hooks executed'' @ s) = Some s"
  "behind cell_tag (html_row ''Hooks failed'' @ s) = Some s" "behind cell_tag (html_row ''Last failure'' @ s) = Some s"
  by (simp_all add: html_row_def cell_tag_def)

lemma row_front: "\<exists>r. html_row label = CHR ''<'' # r" "\<exists>r. html_foot = CHR ''<'' # r"
  by (simp_all add: html_row_def html_foot_def)

text \<open>One row: its cell is the text in front of the next row.\<close>

lemma cells_step:
  assumes "behind cell_tag s = Some (u @ t)" and "no_tag u" and "\<exists>r. t = CHR ''<'' # r"
  shows "cells (Suc n) s = u # cells n t"
proof -
  have "cells n (u @ t) = cells n t" by (cases n) (simp_all add: behind_no_tag [OF assms(2)])
  with assms show ?thesis by (auto simp add: takeWhile_no_tag)
qed

lemma front_append: "\<exists>r. u = c # r \<Longrightarrow> \<exists>r. u @ s = c # r"
  by auto

lemma status_cells:
  assumes "\<And>t. no_tag (time_text t)"
  shows "cells 7 (status_body time_text version start w) =
     [time_text start, count_text (hooksGoodRequests w), count_text (hooksRequests w - hooksGoodRequests w),
      count_text (hooksScheduled w), count_text (actionsExecuted (scheduler w)), count_text (actionsFailed (scheduler w)),
      if actionFailTm (scheduler w) \<noteq> 0 then time_text (actionFailTm (scheduler w)) else []]"
proof -
  have last: "no_tag (if actionFailTm (scheduler w) \<noteq> 0 then time_text (actionFailTm (scheduler w)) else [])"
    using assms by (simp add: no_tag_def)
  have seven: "7 = Suc (Suc (Suc (Suc (Suc (Suc (Suc 0))))))" by simp
  note front = front_append [OF row_front(1)] front_append [OF row_front(2)]
  show ?thesis
    unfolding seven status_body_def accessors
    by (simp only: cells_step [OF behind_head assms front(1)] cells_step [OF behind_rows(1) count_text_no_tag front(1)]
        cells_step [OF behind_rows(2) count_text_no_tag front(1)] cells_step [OF behind_rows(3) count_text_no_tag front(1)]
        cells_step [OF behind_rows(4) count_text_no_tag front(1)] cells_step [OF behind_rows(5) count_text_no_tag front(1)]
        cells_step [OF behind_rows(6) last front(2)] cells.simps(1))
qed

text \<open>
  The status page round trip: a GET of the status page is answered with code 200 and a page from which
  the counters can be read back - the cells of its table are, in order, the start time, the decimal
  texts of exactly the five counters of the program, and the time of the last failure, empty if there
  was none - whatever their values are, as long as rendered times contain no tag.
\<close>

theorem status_page_reads_back:
  assumes "rmethod r = M_get" and "response r = None" and "mhd_create (mhd S) (status_body time_text version start w)"
    and "\<And>t. no_tag (time_text t)"
  shows "\<exists>r' page. status_page nd S time_text version start r w = (Val (), r', w)
     \<and> responseCode r' = Some C_ok \<and> response r' = Some page
     \<and> map decimal_value (take 5 (tl (cells 7 page))) =
         map unat [hooksGoodRequests w, hooksRequests w - hooksGoodRequests w, hooksScheduled w,
                   actionsExecuted (scheduler w), actionsFailed (scheduler w)]
     \<and> cells 7 page ! 0 = time_text start
     \<and> cells 7 page ! 6 = (if actionFailTm (scheduler w) \<noteq> 0 then time_text (actionFailTm (scheduler w)) else [])"
  using assms(1-3) status_cells [where time_text = time_text and version = version and start = start and w = w, OF assms(4)]
  by (simp add: status_page_def respond_string_none respond_static_none decimal_count_text)

lemma site_time_no_tag: "no_tag (site_time t)"
proof -
  have "CHR ''<'' \<notin> set (nat_to_string n)" for n
    using nat_to_string_digits [of "CHR ''<''" n] by auto
  then show ?thesis by (simp add: no_tag_def site_time_def int_to_string_def)
qed

theorem status_page_reads_back_witness:
  "\<exists>r' page. status_page False site site_time ''1.0'' 0 (fresh_request good_headers M_get ''/status'' 0)
       (site_world\<lparr>hooksRequests := 1234, hooksGoodRequests := 1000\<rparr>)
     = (Val (), r', site_world\<lparr>hooksRequests := 1234, hooksGoodRequests := 1000\<rparr>)
     \<and> response r' = Some page \<and> map decimal_value (take 5 (tl (cells 7 page))) = [1000, 234, 0, 0, 0]"
proof -
  let ?w = "site_world\<lparr>hooksRequests := 1234, hooksGoodRequests := 1000\<rparr>"
  have v: "unat (1234 - 1000 :: size_t) = 234" "unat (1000 :: size_t) = 1000" by simp_all
  show ?thesis
    using status_page_reads_back [of "fresh_request good_headers M_get ''/status'' 0" site site_time "''1.0''" 0 ?w False]
      site_time_no_tag v by (auto simp add: site_world_def initial_actions_def)
qed

end
