(* ===== verification/Request_Counts.thy ===== *)
theory Request_Counts
  imports Server_Progress Status_Facts Hook_Facts
begin

text \<open>
  The history behind the numbers of the status page: which events of a run the counters of requests
  count. A request that has arrived at a hook is either complete, refused, abandoned by its client, or
  still being received.
\<close>

section \<open>What the events do\<close>

text \<open>The first call for a request whose method is known and whose path leads to a hook.\<close>

fun arrives :: "('c, 'j) deployment \<Rightarrow> 'c server_event \<Rightarrow> bool" where
  "arrives D (Request_first i c path meth) \<longleftrightarrow> methodFrom meth \<noteq> M_none
     \<and> (\<exists>h. find_handler (d_handlers D) path = Val (Some (Hook_handler h)))"
| "arrives D e \<longleftrightarrow> False"

fun admitted :: "('c, 'j) deployment \<Rightarrow> 'c server_event \<Rightarrow> bool" where
  "admitted D (Request_first i c path meth) \<longleftrightarrow> authorised (d_libs D) (d_handlers D) c path meth"
| "admitted D e \<longleftrightarrow> False"

definition refuses :: "('c, 'j) deployment \<Rightarrow> 'c server_event \<Rightarrow> bool" where
  "refuses D e \<longleftrightarrow> arrives D e \<and> \<not> admitted D e"

fun finishes :: "'c server_event \<Rightarrow> bool" where
  "finishes (Request_last i) \<longleftrightarrow> True"
| "finishes e \<longleftrightarrow> False"

fun executes :: "'c server_event \<Rightarrow> bool" where
  "executes (Action_event (Ev_exec w)) \<longleftrightarrow> True"
| "executes e \<longleftrightarrow> False"

text \<open>The connections whose request is being received, and the events that end a request before its body has.\<close>

definition receiving :: "'c server_state \<Rightarrow> nat set" where
  "receiving s = {i. \<exists>c path meth. sl_phase (sv_slots s i) = Receiving c path meth}"

definition left_early :: "('c, 'j) deployment \<Rightarrow> 'c server_state \<Rightarrow> 'c server_event \<Rightarrow> nat list" where
  "left_early D s e =
     (case e of
        Request_completed i \<Rightarrow> if i \<in> receiving s then [i] else []
      | Request_piece i p \<Rightarrow>
          (case server_callback D e s of Val t \<Rightarrow> if i \<in> receiving t then [] else [i] | _ \<Rightarrow> [])
      | _ \<Rightarrow> [])"

section \<open>The first call\<close>

lemma authorised_iff:
  assumes "find_handler hs path = Val (Some (Hook_handler h))"
  shows "authorised S hs c path meth \<longleftrightarrow>
    peer_of S (fresh_request c (methodFrom meth) path limit) \<noteq> []
    \<and> refusal S h (peer_of S (fresh_request c (methodFrom meth) path limit)) (fresh_request c (methodFrom meth) path limit) = None"
proof -
  have "methodFrom meth = M_post \<longleftrightarrow> meth = ''POST''" by (simp add: methodFrom_def)
  with assms show ?thesis
    by (auto simp add: refusal_def authorised_def Let_def req_header_def peer_of_def req_peer_address_def
        fresh_request_def split: if_splits option.splits)
qed

definition counted :: "nat \<Rightarrow> nat \<Rightarrow> world \<Rightarrow> world \<Rightarrow> bool" where
  "counted m n w w' \<longleftrightarrow> hooksRequests w' = hooksRequests w + of_nat m \<and> hooksGoodRequests w' = hooksGoodRequests w + of_nat n"

lemma counted_same [simp]: "counted 0 0 w w"
  by (simp add: counted_def)

definition waits :: "('c, continuation, world) connection \<Rightarrow> bool" where
  "waits k \<longleftrightarrow> (\<exists>r. connCls k = Some r \<and> rhandler r \<noteq> None)"

lemma newRequest_counts:
  assumes "newRequest (d_ndebug D) (mhd (d_libs D)) (run_handler (d_ndebug D) (d_libs D) tt v) (d_handlers D) limit c path meth
      \<lparr>connCls = None, queued_responses = [], world = w\<rparr> = (res, k)"
  shows "counted (if arrives D (Request_first i c path meth) then 1 else 0) 0 w (world k)
     \<and> (res = Val True \<and> queued_responses k = [] \<longleftrightarrow> admitted D (Request_first i c path meth))
     \<and> (admitted D (Request_first i c path meth) \<longrightarrow> waits k)"
proof (cases "methodFrom meth = M_none \<or> find_handler (d_handlers D) path = Val None")
  case True
  then have "\<not> arrives D (Request_first i c path meth)" "\<not> admitted D (Request_first i c path meth)"
    by (auto simp add: authorised_def methodFrom_def)
  with True assms show ?thesis
    by (auto simp add: newRequest_def Let_def split: if_splits prod.splits dest!: sendStaticResponse_cases)
next
  case False
  then obtain h where h: "methodFrom meth \<noteq> M_none" "find_handler (d_handlers D) path = Val (Some h)"
    using find_handler_total [of "d_handlers D" path] by auto
  show ?thesis
  proof (cases h)
    case (Status_handler start)
    with h have n: "\<not> arrives D (Request_first i c path meth)" "\<not> admitted D (Request_first i c path meth)"
      by (auto simp add: authorised_def)
    with h Status_handler assms show ?thesis
      by (auto simp add: newRequest_def run_handler_def status_page_def respond_static_none respond_string_none Let_def
          after_entry_def split: if_splits prod.splits dest!: queue_response_cases)
  next
    case (Hook_handler hk)
    then have a: "arrives D (Request_first i c path meth)" using h by simp
    have b: "admitted D (Request_first i c path meth) \<longleftrightarrow>
        peer_of (d_libs D) (fresh_request c (methodFrom meth) path limit :: 'a hook_request) \<noteq> []
        \<and> refusal (d_libs D) hk (peer_of (d_libs D) (fresh_request c (methodFrom meth) path limit))
            (fresh_request c (methodFrom meth) path limit) = None"
      using authorised_iff [of "d_handlers D" path hk "d_libs D" c meth limit] h Hook_handler by simp
    show ?thesis
      unfolding b using a h Hook_handler assms
      by (auto simp add: newRequest_def run_handler_def hook_call_eq respond_static_none Let_def counted_def waits_def
          after_entry_def split: if_splits prod.splits option.splits dest!: queue_response_cases)
  qed
qed

lemma first_call_counts:
  assumes "slot_call D c path meth [] free_slot w = (Val ok, k)"
  shows "counted (if arrives D (Request_first i c path meth) then 1 else 0) 0 w (world k)
     \<and> (ok \<and> queued_responses k = [] \<longleftrightarrow> admitted D (Request_first i c path meth))
     \<and> (admitted D (Request_first i c path meth) \<longrightarrow> waits k)"
proof -
  obtain res s where n: "newRequest (d_ndebug D) (mhd (d_libs D))
      (run_handler (d_ndebug D) (d_libs D) (d_time_text D) (d_version D)) (d_handlers D) (d_limit D) c path meth
      \<lparr>connCls = None, queued_responses = [], world = w\<rparr> = (res, s)" by force
  with assms have "mhd_no_on_throw (res, s) = (Val ok, k)" by (simp add: slot_call_def answerCb_def)
  then have "k = s" "ok \<longleftrightarrow> res = Val True" by (cases res; auto)+
  with newRequest_counts [OF n, of i] show ?thesis by simp
qed

section \<open>The later calls\<close>

lemma chain_loop_requests: "counted 0 0 w (snd (chain_loop J token peer event js ls count w))"
proof (induction ls arbitrary: count w)
  case (Cons l ls)
  obtain r w1 where p: "hook_process J l event js w = (r, w1)" by force
  with hook_process_acts [of J event js l w] have "counted 0 0 w w1"
    by (auto simp add: acts_as_def one_more_def counted_def split: if_splits)
  with p Cons.IH [where w = w1] Cons.IH [where w = w] show ?case
    by (cases r) (auto simp add: counted_def split: outcome.split)
qed simp

lemma then_do_snd: "snd (then_do (r, s) f) = (case r of Val x \<Rightarrow> snd (f x s) | _ \<Rightarrow> s)"
  by (cases r) simp_all

lemma process_content_accounts: "counted 0 1 w (snd (process_content nd S h peer r w))"
proof -
  let ?w = "w\<lparr>hooksGoodRequests := hooksGoodRequests w + 1\<rparr>"
  have "counted 0 1 w (snd (chain_loop (json S) token peer event js ls n ?w))" for token event js ls n
    using chain_loop_requests [of ?w "json S" token peer event js ls n] by (simp add: counted_def)
  then show ?thesis
    by (simp add: process_content_def Let_def then_do_snd counted_def split: res.split)
qed

lemma completeRequest_counts:
  assumes "completeRequest nd (mhd S) (hook_continue nd S) c r s = (res, s')" and "rhandler r \<noteq> None"
    and "\<And>f. res \<noteq> Abort f"
  shows "counted 0 1 (world s) (world s')"
proof -
  from assms(2) obtain h peer where k: "rhandler r = Some (Continue h peer)" by (metis continuation.exhaust option.exhaust)
  obtain res1 r1 w1 where c: "hook_continue nd S (Continue h peer) (r\<lparr>rstate := Completed\<rparr>) (world s) = (res1, r1, w1)"
    by (metis prod.exhaust)
  from hook_continue_world [OF this] obtain res2 where
    "process_content nd S h peer (r\<lparr>rstate := Completed\<rparr>) (world s) = (res2, w1)" by blast
  with process_content_accounts [of "world s" nd S h peer "r\<lparr>rstate := Completed\<rparr>"] have "counted 0 1 (world s) w1" by simp
  with assms(1,3) k c show ?thesis
    by (auto simp add: completeRequest_def cassert_def Let_def split: if_splits res.splits prod.splits)
qed

lemma later_call_counts:
  assumes "slot_call D c path meth upload sl w = (Val ok, k)" and "sl_request sl = Some r" and "rhandler r \<noteq> None"
  shows "counted 0 (if upload = [] then 1 else 0) w (world k) \<and> (upload \<noteq> [] \<longrightarrow> waits k)"
proof (cases "upload = []")
  case True
  obtain res s where c: "completeRequest (d_ndebug D) (mhd (d_libs D)) (hook_continue (d_ndebug D) (d_libs D)) c r
     \<lparr>connCls = Some r, queued_responses = sl_responses sl, world = w\<rparr> = (res, s)" by force
  with True assms(1,2) have m: "mhd_no_on_throw (res, s) = (Val ok, k)" by (simp add: slot_call_def answerCb_def)
  then have "k = s" "res \<noteq> Abort f" for f by (cases res; simp)+
  with completeRequest_counts [OF c assms(3)] True show ?thesis by simp
next
  case False
  with assms show ?thesis
    by (auto simp add: slot_call_def answerCb_def waits_def split: res.splits prod.splits dest!: addContent_handler)
qed

section \<open>Steps of the server\<close>

text \<open>A connection whose request is being received has a continuation.\<close>

definition slot_waits :: "'c slot \<Rightarrow> bool" where
  "slot_waits sl \<longleftrightarrow> (\<forall>c path meth. sl_phase sl = Receiving c path meth
     \<longrightarrow> (\<exists>r. sl_request sl = Some r \<and> rhandler r \<noteq> None))"

definition ledger_inv :: "'c server_state \<Rightarrow> bool" where
  "ledger_inv s \<longleftrightarrow> (\<forall>i. slot_inv (sv_slots s i)) \<and> (\<forall>i. slot_waits (sv_slots s i)) \<and> finite (receiving s)"

lemma receiving_slot: "i \<in> receiving s \<longleftrightarrow> (\<exists>c path meth. sl_phase (sv_slots s i) = Receiving c path meth)"
  by (simp add: receiving_def)

lemma receiving_call:
  "receiving (s\<lparr>sv_slots := (sv_slots s)(i := slot_after c path meth final ok k), sv_world := w\<rparr>) =
     (if ok \<and> queued_responses k = [] \<and> \<not> final then insert i (receiving s) else receiving s - {i})"
  by (auto simp add: receiving_def slot_after_def)

lemma slot_after_waits:
  "slot_waits (slot_after c path meth final ok k) \<longleftrightarrow> (ok \<and> queued_responses k = [] \<and> \<not> final \<longrightarrow> waits k)"
  by (auto simp add: slot_waits_def slot_after_def waits_def)

lemma ledger_inv_request:
  assumes "ledger_inv s" and "sl_phase (sv_slots s i) = Receiving c path meth"
  obtains (waiting) r where "sl_request (sv_slots s i) = Some r" and "rhandler r \<noteq> None" and "i \<in> receiving s"
    and "card (receiving s) = Suc (card (receiving s - {i}))"
proof -
  have "i \<in> receiving s" using assms(2) by (simp add: receiving_slot)
  moreover have "card (receiving s) = Suc (card (receiving s - {i}))"
    using assms(1) calculation by (simp add: ledger_inv_def card_Suc_Diff1 del: card_Diff_insert card_Diff_singleton)
  moreover have "slot_waits (sv_slots s i)" using assms(1) by (simp add: ledger_inv_def)
  with assms(2) obtain r where "sl_request (sv_slots s i) = Some r" "rhandler r \<noteq> None"
    by (auto simp add: slot_waits_def)
  ultimately show thesis by (intro waiting)
qed

text \<open>What a step adds to each account, and that the requests being received make up the difference.\<close>

definition booked :: "('c, 'j) deployment \<Rightarrow> 'c server_state \<Rightarrow> 'c server_event \<Rightarrow> 'c server_state \<Rightarrow> bool" where
  "booked D s e t \<longleftrightarrow>
     counted (of_bool (arrives D e)) (of_bool (finishes e)) (sv_world s) (sv_world t) \<and> finite (receiving t)
     \<and> card (receiving t) + of_bool (finishes e) + length (left_early D s e) = card (receiving s) + of_bool (admitted D e)
     \<and> (\<forall>i. slot_waits (sv_slots t i))"

lemma first_booked:
  assumes inv: "ledger_inv s" and idle: "sl_phase (sv_slots s i) = Idle"
    and call: "slot_call D c path meth [] (sv_slots s i) (sv_world s) = (Val ok, k)"
  shows "booked D s (Request_first i c path meth)
     (s\<lparr>sv_slots := (sv_slots s)(i := slot_after c path meth False ok k), sv_world := world k\<rparr>)"
proof -
  have "sv_slots s i = free_slot" using inv idle by (intro slot_inv_idle) (simp_all add: ledger_inv_def)
  with call have "slot_call D c path meth [] free_slot (sv_world s) = (Val ok, k)" by simp
  note f = first_call_counts [OF this, of i]
  have out: "i \<notin> receiving s" using idle by (simp add: receiving_slot)
  from f inv out show ?thesis
    by (auto simp add: booked_def receiving_call left_early_def ledger_inv_def slot_after_waits simp del: arrives.simps admitted.simps)
qed

lemma piece_booked:
  assumes inv: "ledger_inv s" and ph: "sl_phase (sv_slots s i) = Receiving c path meth" and p: "p \<noteq> []"
    and call: "slot_call D c path meth p (sv_slots s i) (sv_world s) = (Val ok, k)"
  shows "booked D s (Request_piece i p)
     (s\<lparr>sv_slots := (sv_slots s)(i := slot_after c path meth False ok k), sv_world := world k\<rparr>)"
proof -
  let ?t = "s\<lparr>sv_slots := (sv_slots s)(i := slot_after c path meth False ok k), sv_world := world k\<rparr>"
  obtain r where r: "sl_request (sv_slots s i) = Some r" "rhandler r \<noteq> None" and i: "i \<in> receiving s"
    and n: "card (receiving s) = Suc (card (receiving s - {i}))" using inv ph by (rule ledger_inv_request)
  note f = later_call_counts [OF call r]
  have cb: "server_callback D (Request_piece i p) s = Val ?t" using ph call by (simp add: server_call_def)
  have "insert i (receiving s) = receiving s" using i by blast
  moreover have "left_early D s (Request_piece i p) = (if ok \<and> queued_responses k = [] then [] else [i])"
    by (simp only: left_early_def server_event.case cb res.case receiving_call) (use i in simp)
  ultimately show ?thesis
    using f p n inv by (auto simp add: booked_def receiving_call ledger_inv_def slot_after_waits)
qed

lemma last_booked:
  assumes inv: "ledger_inv s" and ph: "sl_phase (sv_slots s i) = Receiving c path meth"
    and call: "slot_call D c path meth [] (sv_slots s i) (sv_world s) = (Val ok, k)"
  shows "booked D s (Request_last i)
     (s\<lparr>sv_slots := (sv_slots s)(i := slot_after c path meth True ok k), sv_world := world k\<rparr>)"
proof -
  obtain r where r: "sl_request (sv_slots s i) = Some r" "rhandler r \<noteq> None" and i: "i \<in> receiving s"
    and n: "card (receiving s) = Suc (card (receiving s - {i}))" using inv ph by (rule ledger_inv_request)
  note f = later_call_counts [OF call r]
  with f n inv show ?thesis
    by (auto simp add: booked_def receiving_call left_early_def ledger_inv_def slot_after_waits)
qed

lemma completed_booked:
  assumes "ledger_inv s"
  shows "booked D s (Request_completed i) (s\<lparr>sv_slots := (sv_slots s)(i := free_slot)\<rparr>)"
proof -
  have "receiving (s\<lparr>sv_slots := (sv_slots s)(i := free_slot)\<rparr>) = receiving s - {i}"
    by (auto simp add: receiving_def)
  moreover have "card (receiving s - {i}) + length (left_early D s (Request_completed i)) = card (receiving s)"
    using assms by (simp add: ledger_inv_def left_early_def card_Suc_Diff1 del: card_Diff_insert card_Diff_singleton)
  moreover have "slot_waits free_slot" by (simp add: slot_waits_def)
  ultimately show ?thesis
    using assms by (simp add: booked_def ledger_inv_def)
qed

lemma step_booked:
  assumes "server_step P D s e t" and "ledger_inv s"
  shows "booked D s e t"
  using assms(1)
proof (cases rule: server_step_cases)
  case (call i c path meth upload final ok k)
  with assms(2) first_booked [of s i D c path meth ok k] piece_booked [of s i c path meth upload D ok k]
    last_booked [of s i c path meth D ok k] show ?thesis by auto
next
  case (completed i)
  with assms(2) completed_booked show ?thesis by simp
next
  case other
  have "counted 0 0 (sv_world s) (sv_world t)"
    using assms(1) other(2) by (auto simp add: server_step_iff action_callback_def bnd_Val_iff counted_def)
  moreover have "receiving t = receiving s" using other(1) by (simp add: receiving_def)
  ultimately show ?thesis
    using other assms(2) by (auto simp add: booked_def left_early_def ledger_inv_def)
qed

lemma step_ledger_inv: "server_step P D s e t \<Longrightarrow> ledger_inv s \<Longrightarrow> ledger_inv t"
  using step_booked [of P D s e t] server_step_slots [of P D s e t] by (auto simp add: ledger_inv_def booked_def)

lemma start_ledger_inv: "ledger_inv (server_start ls w K)"
  by (simp add: ledger_inv_def server_start_def slot_waits_def receiving_def)

section \<open>Runs of the server\<close>

definition count_if :: "('e \<Rightarrow> bool) \<Rightarrow> 'e list \<Rightarrow> nat" where
  "count_if P es = length (filter P es)"

lemma count_if_simps [simp]: "count_if P [] = 0" "count_if P (es @ [e]) = count_if P es + of_bool (P e)"
  by (simp_all add: count_if_def)

lemma step_executes:
  assumes "server_step P D s e t"
  shows "actionsExecuted (scheduler (sv_world t)) = actionsExecuted (scheduler (sv_world s)) + of_bool (executes e)"
  using assms
proof (cases rule: server_step_cases)
  case (call i c path meth upload final ok k)
  from slot_call_appends [OF call(1)] obtain es where "\<forall>f\<in>set es. \<not> from_libevent f"
    "run_events True es \<lparr>acts = scheduler (sv_world s), kids = {}\<rparr> = Some \<lparr>acts = scheduler (world k), kids = {}\<rparr>"
    by (auto simp add: only_appends_def)
  moreover have "actionsExecuted (acts v) = actionsExecuted (acts u)"
    if "loop_run True u fs v" and "\<forall>f\<in>set fs. \<not> from_libevent f" for u v and fs :: "callable event list"
    using that
  proof (induction rule: loop_run.induct)
    case (run_snoc fs t f u)
    with step_executed [OF run_snoc.hyps(2)] added_libevent(2) [of f t] show ?case by simp
  qed simp
  ultimately have "actionsExecuted (scheduler (world k)) = actionsExecuted (scheduler (sv_world s))"
    using run_events_loop_run by fastforce
  with call show ?thesis by auto
next
  case (completed i)
  then show ?thesis by simp
next
  case other
  show ?thesis
  proof (cases "\<exists>f. e = Action_event f")
    case True
    then obtain f where f: "e = Action_event f" by blast
    with assms have run: "run_event (d_ndebug D) f (scheduler (sv_world s)) = Val (scheduler (sv_world t))"
      by (auto simp add: server_step_iff action_callback_def bnd_Val_iff)
    show ?thesis
    proof (cases "\<exists>w. f = Ev_exec w")
      case True
      with run f exec_executed show ?thesis by fastforce
    next
      case False
      with event_executed [OF run] f show ?thesis by (cases f) auto
    qed
  next
    case False
    with other(2) show ?thesis by auto
  qed
qed

lemma run_booked:
  assumes "traced (server_step any_event D) (left_early D) (server_start ls w K) es gone s"
  shows "ledger_inv s
     \<and> hooksRequests (sv_world s) = hooksRequests w + of_nat (count_if (refuses D) es + count_if (admitted D) es)
     \<and> hooksGoodRequests (sv_world s) = hooksGoodRequests w + of_nat (count_if finishes es)
     \<and> actionsExecuted (scheduler (sv_world s)) = actionsExecuted (scheduler w) + of_nat (count_if executes es)
     \<and> card (receiving s) + count_if finishes es + length gone = count_if (admitted D) es"
  using assms
proof (induction rule: traced.induct)
  case traced_nil
  show ?case using start_ledger_inv [of ls w K] by (simp add: server_start_def receiving_def)
next
  case (traced_snoc es ns t e u)
  have "arrives D e" if "admitted D e"
    using that by (cases e) (auto simp add: authorised_def methodFrom_def)
  then have "(of_bool (arrives D e) :: size_t) = of_bool (refuses D e) + of_bool (admitted D e)"
    by (auto simp add: refuses_def)
  with traced_snoc step_booked [OF traced_snoc.hyps(2)] step_ledger_inv [OF traced_snoc.hyps(2)]
    step_executes [OF traced_snoc.hyps(2)] show ?case
    by (auto simp add: booked_def counted_def)
qed

lemma traced_machine_run: "traced step report s es ns t \<Longrightarrow> machine_run step s es t"
  by (induction rule: traced.induct) (auto intro: machine_run.intros)

section \<open>The page and the history\<close>

lemma decimal_of_nat: "unat (of_nat n :: size_t) = n mod 2 ^ 64"
  by (simp add: unat_of_nat)

text \<open>
  (C16) The status page tells the history of the program: at any time of a run of the server that starts with
  counters of zero, a GET of the page is answered with code 200, and the numbers read back from its first
  four rows are, modulo the 64 bits of the counters: the authorised requests whose body has come to its
  end; the requests refused, given up before their end, or still being received, which the page all calls
  rejected; the hooks that were due plus those that still wait, as scheduled; and the hooks that were
  due, as executed. This holds for any interleaving of the connections with the queue.
\<close>

theorem status_page_tells_history:
  assumes "traced (server_step any_event D) (left_early D) (server_start ls w K) es gone s"
    and "loop_inv \<lparr>acts = scheduler w, kids = K\<rparr>" and "actions (scheduler w) = []"
    and "hooksRequests w = 0" and "hooksGoodRequests w = 0" and "hooksScheduled w = 0"
    and "actionsExecuted (scheduler w) = 0"
    and "rmethod r = M_get" and "response r = None" and "\<And>body. mhd_create (mhd (d_libs D)) body"
    and "\<And>t. no_tag (d_time_text D t)"
  shows "\<exists>r' page. status_page (d_ndebug D) (d_libs D) (d_time_text D) (d_version D) start r (sv_world s)
        = (Val (), r', sv_world s)
     \<and> responseCode r' = Some C_ok \<and> response r' = Some page
     \<and> map decimal_value (take 4 (tl (cells 7 page))) = map (\<lambda>n. n mod 2 ^ 64)
         [count_if finishes es, count_if (refuses D) es + length gone + card (receiving s),
          count_if executes es + length (unstarted (actions_of s)), count_if executes es]"
proof -
  note run = traced_machine_run [OF assms(1)]
  note b = run_booked [OF assms(1)]
  have good: "hooksGoodRequests (sv_world s) = of_nat (count_if finishes es)"
    and executed: "actionsExecuted (scheduler (sv_world s)) = of_nat (count_if executes es)"
    using b assms(5,7) by simp_all
  have "count_if (refuses D) es + count_if (admitted D) es
      = count_if (refuses D) es + length gone + card (receiving s) + count_if finishes es"
    using b by simp
  with b assms(4) have "hooksRequests (sv_world s)
      = of_nat (count_if (refuses D) es + length gone + card (receiving s) + count_if finishes es)"
    by (metis add_0)
  then have bad: "hooksRequests (sv_world s) - hooksGoodRequests (sv_world s)
      = of_nat (count_if (refuses D) es + length gone + card (receiving s))"
    unfolding good by simp
  have scheduled: "hooksScheduled (sv_world s) = of_nat (count_if executes es + length (unstarted (actions_of s)))"
    using counters_balance [OF run assms(2,3)] assms(6,7) executed by simp
  obtain r' page where p: "status_page (d_ndebug D) (d_libs D) (d_time_text D) (d_version D) start r (sv_world s)
        = (Val (), r', sv_world s)" "responseCode r' = Some C_ok" "response r' = Some page"
    "map decimal_value (take 5 (tl (cells 7 page))) =
         map unat [hooksGoodRequests (sv_world s), hooksRequests (sv_world s) - hooksGoodRequests (sv_world s),
           hooksScheduled (sv_world s), actionsExecuted (scheduler (sv_world s)), actionsFailed (scheduler (sv_world s))]"
    using status_page_reads_back [where nd = "d_ndebug D" and time_text = "d_time_text D" and version = "d_version D" and start = start and w = "sv_world s",
      OF assms(8,9,10,11)] by blast
  have "map decimal_value (take 4 (tl (cells 7 page))) = take 4 (map decimal_value (take 5 (tl (cells 7 page))))"
    by (simp add: take_map)
  also have "\<dots> = map (\<lambda>n. n mod 2 ^ 64)
         [count_if finishes es, count_if (refuses D) es + length gone + card (receiving s),
          count_if executes es + length (unstarted (actions_of s)), count_if executes es]"
    unfolding p(4) bad unfolding good scheduled executed by (simp only: decimal_of_nat list.map) simp
  finally show ?thesis using p(1-3) by blast
qed

text \<open>
  The example: one request has been refused, the other one is being received, and the page calls both
  rejected.
\<close>

lemma site_admitted:
  "admitted site_deployment (Request_first 0 good_headers ''/api/deploy'' ''POST'')"
  "\<not> admitted site_deployment (Request_first 1 bad_headers ''/api/deploy'' ''POST'')"
  using first_call_counts [OF site_first_call [of site_world], of 0]
    first_call_counts [OF site_refused_call [of site_world], of 1] by simp_all

lemma site_prefix_counts:
  "count_if (refuses site_deployment) site_prefix = 1" "count_if (admitted site_deployment) site_prefix = 1"
  "count_if finishes site_prefix = 0" "count_if executes site_prefix = 0"
proof -
  have "d_handlers site_deployment = site_handlers" by (simp add: site_deployment_def)
  then have "arrives site_deployment (Request_first 1 bad_headers ''/api/deploy'' ''POST'')"
    by (simp add: methodFrom_def)
  with site_admitted have "refuses site_deployment (Request_first 1 bad_headers ''/api/deploy'' ''POST'')"
    "\<not> refuses site_deployment (Request_first 0 good_headers ''/api/deploy'' ''POST'')" by (simp_all only: refuses_def simp_thms)
  then show "count_if (refuses site_deployment) site_prefix = 1" "count_if (admitted site_deployment) site_prefix = 1"
    "count_if finishes site_prefix = 0" "count_if executes site_prefix = 0"
    using site_admitted by (simp_all add: count_if_def site_prefix_def del: admitted.simps(1)) (simp_all add: refuses_def)
qed

theorem status_page_tells_history_witness:
  "\<exists>r' page. status_page False site site_time ''1.0'' 0 (fresh_request good_headers M_get ''/status'' 0) (sv_world (site_before []))
     = (Val (), r', sv_world (site_before []))
     \<and> response r' = Some page \<and> map decimal_value (take 4 (tl (cells 7 page))) = [0, 2, 0, 0]"
proof -
  obtain gone where t: "traced (server_step any_event site_deployment) (left_early site_deployment)
      (server_start [] site_world {}) site_prefix gone (site_before [])"
    using traced_ex [OF site_before(1)] by blast
  from run_booked [OF t] have "length gone + card (receiving (site_before [])) = 1"
    by (simp add: site_prefix_counts)
  moreover have "unstarted (actions_of (site_before [])) = []"
    using site_before(2) by (simp add: unstarted_def names_def actions_of_def initial_actions_def)
  moreover have "loop_inv \<lparr>acts = scheduler site_world, kids = {}\<rparr>"
    using initial_loop_inv by (simp add: site_world_def initial_loop_def)
  moreover have "no_tag (d_time_text site_deployment u)" for u
    using site_time_no_tag by (simp add: site_deployment_def)
  moreover have "d_libs site_deployment = site" "d_version site_deployment = ''1.0''" "d_time_text site_deployment = site_time"
    "d_ndebug site_deployment = False" by (simp_all add: site_deployment_def)
  ultimately show ?thesis
    using status_page_tells_history [OF t, of "fresh_request good_headers M_get ''/status'' 0" 0]
    by (simp add: site_world_def initial_actions_def site_prefix_counts add.assoc) (auto simp add: numeral_2_eq_2)
qed

end
