(* ===== verification/Response_Memory.thy ===== *)
theory Response_Memory
  imports Http_Facts
begin

text \<open>
  The responses of \<open>src/http_server.cpp\<close> in memory. An \<open>MHD_Response\<close> is counted: the program holds one
  reference in the \<open>unique_ptr\<close> of the request, the library one for each queued response. The bytes of
  a response belong to the program: they are a literal, or the member \<open>responseBody\<close> of the request.
  Here the operations of \<^theory_text>\<open>Http_Server\<close> work on a heap of such objects, where the use of a freed one is
  undefined behaviour.
\<close>

section \<open>The heap of responses\<close>

datatype buffer = Literal string | Own_body

record response_cell =
  rc_refs :: nat
  rc_buffer :: buffer

record response_heap =
  rh_cells :: "nat \<rightharpoonup> response_cell"
  rh_next :: nat

definition valid_heap :: "response_heap \<Rightarrow> bool" where
  "valid_heap l \<longleftrightarrow> (\<forall>a\<in>dom (rh_cells l). a < rh_next l)"

text \<open>The three functions of the library; a failed creation gives the null pointer.\<close>

definition create_response :: "'c mhd \<Rightarrow> string \<Rightarrow> buffer \<Rightarrow> response_heap \<Rightarrow> nat option \<times> response_heap" where
  "create_response M body b l =
     (if mhd_create M body
      then (Some (rh_next l),
            l\<lparr>rh_next := Suc (rh_next l), rh_cells := (rh_cells l)(rh_next l \<mapsto> \<lparr>rc_refs = 1, rc_buffer = b\<rparr>)\<rparr>)
      else (None, l))"

definition destroy_response :: "nat \<Rightarrow> response_heap \<Rightarrow> response_heap res" where
  "destroy_response a l =
     (case rh_cells l a of
        None \<Rightarrow> Abort Undefined_behaviour
      | Some c \<Rightarrow>
          Val (l\<lparr>rh_cells := (if rc_refs c \<le> 1 then (rh_cells l)(a := None)
                              else (rh_cells l)(a \<mapsto> c\<lparr>rc_refs := rc_refs c - 1\<rparr>))\<rparr>))"

definition retain_response :: "nat \<Rightarrow> response_heap \<Rightarrow> response_heap res" where
  "retain_response a l =
     (case rh_cells l a of
        None \<Rightarrow> Abort Undefined_behaviour
      | Some c \<Rightarrow> Val (l\<lparr>rh_cells := (rh_cells l)(a \<mapsto> c\<lparr>rc_refs := rc_refs c + 1\<rparr>)\<rparr>))"

text \<open>The deleter of the \<open>unique_ptr\<close>, which is not called for a null pointer.\<close>

definition delete_response :: "nat option \<Rightarrow> response_heap \<Rightarrow> response_heap res" where
  "delete_response ptr l = (case ptr of None \<Rightarrow> Val l | Some a \<Rightarrow> destroy_response a l)"

section \<open>Requests\<close>

text \<open>
  A request in memory: its member \<open>response\<close> is the pointer; the other members are those of the record
  \<open>request\<close>, whose own field \<open>response\<close> is not used.
\<close>

record ('c, 'k) live_request =
  lr_request :: "('c, 'k) request"
  lr_response :: "nat option"

definition buffer_text :: "('c, 'k) request option \<Rightarrow> buffer \<Rightarrow> string" where
  "buffer_text r b =
     (case b of Literal s \<Rightarrow> s | Own_body \<Rightarrow> (case r of None \<Rightarrow> [] | Some r \<Rightarrow> responseBody r))"

definition cell_text :: "('c, 'k) request option \<Rightarrow> response_heap \<Rightarrow> nat \<Rightarrow> string" where
  "cell_text r l a = (case rh_cells l a of None \<Rightarrow> [] | Some c \<Rightarrow> buffer_text r (rc_buffer c))"

definition view :: "response_heap \<Rightarrow> ('c, 'k) live_request \<Rightarrow> ('c, 'k) request" where
  "view l p = (lr_request p)\<lparr>response := map_option (cell_text (Some (lr_request p)) l) (lr_response p)\<rparr>"

definition live_static ::
  "bool \<Rightarrow> 'c mhd \<Rightarrow> http_code \<Rightarrow> string \<Rightarrow> buffer \<Rightarrow> ('c, 'k) live_request \<Rightarrow> response_heap
     \<Rightarrow> unit res \<times> ('c, 'k) live_request \<times> response_heap" where
  "live_static ndebug M code body b p l =
     (case cassert ndebug (lr_response p = None) of
        Abort f \<Rightarrow> (Abort f, p, l)
      | Throw e \<Rightarrow> (Throw e, p, l)
      | Val _ \<Rightarrow>
          (case create_response M body b l of (new, l1) \<Rightarrow>
             (case delete_response (lr_response p) l1 of
                Abort f \<Rightarrow> (Abort f, p, l1)
              | Throw e \<Rightarrow> (Throw e, p, l1)
              | Val l2 \<Rightarrow>
                  if new = None
                  then (Throw (Runtime_error ''failed to create HTTP response''), p\<lparr>lr_response := None\<rparr>, l2)
                  else (Val (), p\<lparr>lr_response := new,
                    lr_request := (lr_request p)\<lparr>responseCode := Some code, rstate := Responded\<rparr>\<rparr>, l2))))"

definition live_string ::
  "bool \<Rightarrow> 'c mhd \<Rightarrow> http_code \<Rightarrow> string \<Rightarrow> ('c, 'k) live_request \<Rightarrow> response_heap
     \<Rightarrow> unit res \<times> ('c, 'k) live_request \<times> response_heap" where
  "live_string ndebug M code body p l =
     (case cassert ndebug (lr_response p = None) of
        Abort f \<Rightarrow> (Abort f, p, l)
      | Throw e \<Rightarrow> (Throw e, p, l)
      | Val _ \<Rightarrow> live_static ndebug M code body Own_body
                   (p\<lparr>lr_request := (lr_request p)\<lparr>responseBody := body\<rparr>\<rparr>) l)"

definition live_addContent ::
  "bool \<Rightarrow> 'c mhd \<Rightarrow> string \<Rightarrow> ('c, 'k) live_request \<Rightarrow> response_heap
     \<Rightarrow> (bool \<times> ('c, 'k) live_request \<times> response_heap) res" where
  "live_addContent ndebug M upload p l =
     (let r = lr_request p in
      if add_size (length (content r)) (length upload) \<le> contentLimit r
      then Val (True, p\<lparr>lr_request := r\<lparr>content := content r @ upload\<rparr>\<rparr>, l)
      else bnd (cassert ndebug (lr_response p = None)) (\<lambda>_.
           case create_response M [] (Literal []) l of (new, l1) \<Rightarrow>
           bnd (delete_response (lr_response p) l1) (\<lambda>l2.
           if new = None then Val (False, p\<lparr>lr_response := None\<rparr>, l2)
           else Val (True, p\<lparr>lr_response := new,
             lr_request := r\<lparr>responseCode := Some C_payload_too_large, rstate := Responded\<rparr>\<rparr>, l2))))"

section \<open>What a request owns\<close>

text \<open>The heap is \<open>h\<close> and, if the request has a response, one more object with one reference.\<close>

definition owns :: "(nat \<rightharpoonup> response_cell) \<Rightarrow> ('c, 'k) live_request \<Rightarrow> response_heap \<Rightarrow> bool" where
  "owns h p l \<longleftrightarrow> valid_heap l
     \<and> (case lr_response p of
          None \<Rightarrow> rh_cells l = h
        | Some a \<Rightarrow> h a = None \<and> (\<exists>b. rh_cells l = h(a \<mapsto> \<lparr>rc_refs = 1, rc_buffer = b\<rparr>)))"

lemma valid_heap_create:
  "valid_heap l \<Longrightarrow> create_response M body b l = (new, l1) \<Longrightarrow> valid_heap l1"
  by (fastforce simp add: valid_heap_def create_response_def less_Suc_eq split: if_splits)

lemma valid_heap_fresh: "valid_heap l \<Longrightarrow> rh_cells l (rh_next l) = None"
  by (auto simp add: valid_heap_def)

lemma delete_owned:
  assumes "owns h p l"
  shows "\<exists>l2. delete_response (lr_response p) l = Val l2 \<and> rh_cells l2 = h \<and> valid_heap l2"
  using assms
  by (auto simp add: owns_def delete_response_def destroy_response_def valid_heap_def fun_upd_idem split: option.splits)

text \<open>A new response takes the place of the one that is there.\<close>

lemma replace_response:
  assumes own: "owns h p l" and new: "create_response M body b l = (new, l1)"
  shows "\<exists>l2. delete_response (lr_response p) l1 = Val l2 \<and> valid_heap l2
     \<and> (case new of
          None \<Rightarrow> rh_cells l2 = h \<and> \<not> mhd_create M body
        | Some a \<Rightarrow> h a = None \<and> rh_cells l2 = h(a \<mapsto> \<lparr>rc_refs = 1, rc_buffer = b\<rparr>) \<and> mhd_create M body)"
proof (cases "mhd_create M body")
  case False
  with assms delete_owned [OF own] show ?thesis by (auto simp add: create_response_def)
next
  case True
  have fresh: "rh_cells l (rh_next l) = None" using own by (simp add: owns_def valid_heap_fresh)
  have h: "h (rh_next l) = None"
    using own fresh by (cases "lr_response p") (auto simp add: owns_def split: if_splits)
  from True new have n: "new = Some (rh_next l)"
    "l1 = l\<lparr>rh_next := Suc (rh_next l), rh_cells := (rh_cells l)(rh_next l \<mapsto> \<lparr>rc_refs = 1, rc_buffer = b\<rparr>)\<rparr>"
    by (auto simp add: create_response_def)
  have v: "valid_heap l1" using valid_heap_create [OF _ new] own by (simp add: owns_def)
  show ?thesis
  proof (cases "lr_response p")
    case None
    with own n h v True show ?thesis by (simp add: owns_def delete_response_def)
  next
    case (Some a)
    with own obtain b' where a: "h a = None" "rh_cells l = h(a \<mapsto> \<lparr>rc_refs = 1, rc_buffer = b'\<rparr>)"
      by (auto simp add: owns_def)
    with fresh have ne: "a \<noteq> rh_next l" by auto
    have "(rh_cells l1)(a := None) = h(rh_next l \<mapsto> \<lparr>rc_refs = 1, rc_buffer = b\<rparr>)"
      using n(2) a ne by (intro ext) simp
    moreover have "delete_response (lr_response p) l1 = Val (l1\<lparr>rh_cells := (rh_cells l1)(a := None)\<rparr>)"
      using Some a n ne by (simp add: delete_response_def destroy_response_def)
    moreover have "valid_heap (l1\<lparr>rh_cells := (rh_cells l1)(a := None)\<rparr>)"
      using v by (auto simp add: valid_heap_def split: if_splits)
    ultimately show ?thesis using n h True by simp
  qed
qed

section \<open>The operations refine those on values\<close>

text \<open>An operation in memory does what the operation of \<^theory_text>\<open>Http_Server\<close> does on the view, and keeps the ownership.\<close>

definition refines ::
  "(nat \<rightharpoonup> response_cell) \<Rightarrow> 'a res \<times> ('c, 'k) live_request \<times> response_heap \<Rightarrow> 'a res \<times> ('c, 'k) request \<Rightarrow> bool" where
  "refines h q v \<longleftrightarrow> (case q of (res, p, l) \<Rightarrow> owns h p l \<and> v = (res, view l p))"

lemma view_fields [simp]:
  "rmethod (view l p) = rmethod (lr_request p)" "rstate (view l p) = rstate (lr_request p)"
  "rhandler (view l p) = rhandler (lr_request p)" "responseCode (view l p) = responseCode (lr_request p)"
  "content (view l p) = content (lr_request p)" "contentLimit (view l p) = contentLimit (lr_request p)"
  "response (view l p) = None \<longleftrightarrow> lr_response p = None"
  by (simp_all add: view_def)

text \<open>Members of the request that are not read through a pointer may change.\<close>

lemma cell_text_update [simp]:
  "cell_text (Some (r\<lparr>content := x\<rparr>)) l = cell_text (Some r) l" "cell_text (Some (r\<lparr>rhandler := k\<rparr>)) l = cell_text (Some r) l"
  "cell_text (Some (r\<lparr>rstate := st\<rparr>)) l = cell_text (Some r) l" "cell_text (Some (r\<lparr>responseCode := code\<rparr>)) l = cell_text (Some r) l"
  by (intro ext; simp add: cell_text_def buffer_text_def split: option.split buffer.split)+

lemma buffer_text_update [simp]:
  "buffer_text (Some (r\<lparr>rstate := st\<rparr>)) b = buffer_text (Some r) b" "buffer_text (Some (r\<lparr>responseCode := code\<rparr>)) b = buffer_text (Some r) b"
  by (simp_all add: buffer_text_def split: buffer.split)

lemma cell_text_new: "rh_cells l = h(a \<mapsto> \<lparr>rc_refs = 1, rc_buffer = b\<rparr>) \<Longrightarrow> cell_text r l a = buffer_text r b"
  by (simp add: cell_text_def)

lemma view_update:
  "view l (p\<lparr>lr_request := (lr_request p)\<lparr>content := x\<rparr>\<rparr>) = (view l p)\<lparr>content := x\<rparr>"
  "view l (p\<lparr>lr_request := (lr_request p)\<lparr>rhandler := k, rstate := st\<rparr>\<rparr>) = (view l p)\<lparr>rhandler := k, rstate := st\<rparr>"
  "view l (p\<lparr>lr_request := (lr_request p)\<lparr>rstate := st\<rparr>\<rparr>) = (view l p)\<lparr>rstate := st\<rparr>"
  by (simp_all add: view_def)

lemma owns_request [simp]: "owns h (p\<lparr>lr_request := r\<rparr>) l = owns h p l"
  by (simp add: owns_def)

lemma owns_new: "valid_heap l \<Longrightarrow> h a = None \<Longrightarrow> rh_cells l = h(a \<mapsto> \<lparr>rc_refs = 1, rc_buffer = b\<rparr>)
    \<Longrightarrow> owns h (p\<lparr>lr_response := Some a\<rparr>) l"
  unfolding owns_def by (simp, blast)

lemma live_static_refines:
  assumes "owns h p l" and "buffer_text (Some (lr_request p)) b = body"
  shows "refines h (live_static nd M code body b p l) (respond_static nd M code body (view l p))"
proof (cases "cassert nd (lr_response p = None)")
  case (Val u)
  obtain new l1 where c: "create_response M body b l = (new, l1)" by force
  from replace_response [OF assms(1) c] obtain l2 where
    d: "delete_response (lr_response p) l1 = Val l2" "valid_heap l2"
    "case new of None \<Rightarrow> rh_cells l2 = h \<and> \<not> mhd_create M body
     | Some a \<Rightarrow> h a = None \<and> rh_cells l2 = h(a \<mapsto> \<lparr>rc_refs = 1, rc_buffer = b\<rparr>) \<and> mhd_create M body" by blast
  show ?thesis
  proof (cases new)
    case None
    with Val c d show ?thesis
      by (simp add: refines_def live_static_def respond_static_def owns_def view_def)
  next
    case (Some a)
    with d(3) have a: "h a = None" "rh_cells l2 = h(a \<mapsto> \<lparr>rc_refs = 1, rc_buffer = b\<rparr>)" "mhd_create M body" by simp_all
    with assms(2) Some Val c d(1) show ?thesis
      by (simp add: refines_def live_static_def respond_static_def view_def owns_new [OF d(2) a(1,2)] cell_text_new [OF a(2)]
        del: One_nat_def)
  qed
qed (use assms in \<open>simp_all add: refines_def live_static_def respond_static_def\<close>)

lemma live_string_refines:
  assumes "owns h p l"
  shows "refines h (live_string nd M code body p l) (respond_string nd M code body (view l p))"
proof (cases "cassert nd (lr_response p = None)")
  case (Val u)
  let ?p = "p\<lparr>lr_request := (lr_request p)\<lparr>responseBody := body\<rparr>\<rparr>"
  have "refines h (live_static nd M code body Own_body ?p l) (respond_static nd M code body (view l ?p))"
    using assms by (intro live_static_refines) (simp_all add: buffer_text_def)
  moreover have "respond_static nd M code body (view l ?p) = respond_static nd M code body ((view l p)\<lparr>responseBody := body\<rparr>)"
    using Val by (cases "lr_response p") (simp_all add: respond_static_def view_def res_simps)
  ultimately show ?thesis using Val by (simp add: live_string_def respond_string_def)
qed (use assms in \<open>simp_all add: refines_def live_string_def respond_string_def\<close>)

lemma live_addContent_refines:
  assumes "owns h p l"
  shows "(case live_addContent nd M upload p l of
       Val (ok, p', l') \<Rightarrow> owns h p' l' \<and> addContent nd M upload (view l p) = Val (ok, view l' p')
     | Throw e \<Rightarrow> addContent nd M upload (view l p) = Throw e
     | Abort f \<Rightarrow> addContent nd M upload (view l p) = Abort f)"
proof (cases "add_size (length (content (lr_request p))) (length upload) \<le> contentLimit (lr_request p)
    \<or> (\<forall>u. cassert nd (lr_response p = None) \<noteq> Val u)")
  case True
  with assms show ?thesis
    by (cases "cassert nd (lr_response p = None)") (auto simp add: live_addContent_def addContent_def Let_def view_update)
next
  case False
  obtain new l1 where c: "create_response M [] (Literal []) l = (new, l1)" by force
  from replace_response [OF assms c] obtain l2 where
    d: "delete_response (lr_response p) l1 = Val l2" "valid_heap l2"
    "case new of None \<Rightarrow> rh_cells l2 = h \<and> \<not> mhd_create M []
     | Some a \<Rightarrow> h a = None \<and> rh_cells l2 = h(a \<mapsto> \<lparr>rc_refs = 1, rc_buffer = Literal []\<rparr>) \<and> mhd_create M []" by blast
  show ?thesis
  proof (cases new)
    case None
    with False c d show ?thesis by (auto simp add: live_addContent_def addContent_def Let_def owns_def view_def)
  next
    case (Some a)
    with d(3) have a: "h a = None" "rh_cells l2 = h(a \<mapsto> \<lparr>rc_refs = 1, rc_buffer = Literal []\<rparr>)" "mhd_create M []" by simp_all
    have "view l2 (p\<lparr>lr_response := Some a, lr_request := (lr_request p)\<lparr>responseCode := code, rstate := st\<rparr>\<rparr>)
        = (view l p)\<lparr>response := Some [], responseCode := code, rstate := st\<rparr>" for code st
      by (simp add: view_def cell_text_new [OF a(2)] buffer_text_def)
    with Some False c d(1) a(3) owns_new [OF d(2) a(1,2)] show ?thesis
      by (auto simp add: live_addContent_def addContent_def Let_def)
  qed
qed

section \<open>Handlers\<close>

text \<open>
  What a handler does to its request is a sequence of calls of the members \<open>accept\<close> and \<open>respond\<close>, with
  exceptions. It can be run on a request as a value and on a request in memory.
\<close>

datatype 'k action =
    Skip
  | Raise exn
  | Leave fault
  | Accept 'k
  | Respond_static http_code string
  | Respond_string http_code string
  | Catch "'k action" "exn \<Rightarrow> 'k action"
  | Noexcept "'k action"

primrec run_action :: "bool \<Rightarrow> 'c mhd \<Rightarrow> 'k action \<Rightarrow> ('c, 'k) request \<Rightarrow> ('c, 'k) req_result" where
  "run_action nd M Skip r = (Val (), r)"
| "run_action nd M (Raise e) r = (Throw e, r)"
| "run_action nd M (Leave f) r = (Abort f, r)"
| "run_action nd M (Accept k) r =
     (case req_accept nd k r of Val r \<Rightarrow> (Val (), r) | Throw e \<Rightarrow> (Abort Std_terminate, r) | Abort f \<Rightarrow> (Abort f, r))"
| "run_action nd M (Respond_static code body) r = respond_static nd M code body r"
| "run_action nd M (Respond_string code body) r = respond_string nd M code body r"
| "run_action nd M (Catch a h) r =
     (case run_action nd M a r of (Throw e, r) \<Rightarrow> run_action nd M (h e) r | (Val u, r) \<Rightarrow> (Val u, r) | (Abort f, r) \<Rightarrow> (Abort f, r))"
| "run_action nd M (Noexcept a) r = (case run_action nd M a r of (res, r) \<Rightarrow> (noexcept res, r))"

primrec live_action ::
  "bool \<Rightarrow> 'c mhd \<Rightarrow> 'k action \<Rightarrow> ('c, 'k) live_request \<Rightarrow> response_heap
     \<Rightarrow> unit res \<times> ('c, 'k) live_request \<times> response_heap" where
  "live_action nd M Skip p l = (Val (), p, l)"
| "live_action nd M (Raise e) p l = (Throw e, p, l)"
| "live_action nd M (Leave f) p l = (Abort f, p, l)"
| "live_action nd M (Accept k) p l =
     (case req_accept nd k (lr_request p) of
        Val r \<Rightarrow> (Val (), p\<lparr>lr_request := r\<rparr>, l) | Throw e \<Rightarrow> (Abort Std_terminate, p, l) | Abort f \<Rightarrow> (Abort f, p, l))"
| "live_action nd M (Respond_static code body) p l = live_static nd M code body (Literal body) p l"
| "live_action nd M (Respond_string code body) p l = live_string nd M code body p l"
| "live_action nd M (Catch a h) p l =
     (case live_action nd M a p l of
        (Throw e, p, l) \<Rightarrow> live_action nd M (h e) p l | (Val u, p, l) \<Rightarrow> (Val u, p, l) | (Abort f, p, l) \<Rightarrow> (Abort f, p, l))"
| "live_action nd M (Noexcept a) p l = (case live_action nd M a p l of (res, q) \<Rightarrow> (noexcept res, q))"

lemma live_action_refines:
  "owns h p l \<Longrightarrow> refines h (live_action nd M a p l) (run_action nd M a (view l p))"
proof (induction a arbitrary: p l)
  case (Accept k)
  then show ?case
    by (auto simp add: refines_def req_accept_def res_simps view_update split: res.split)
next
  case (Respond_static code body)
  then show ?case by (simp add: live_static_refines buffer_text_def)
next
  case (Respond_string code body)
  then show ?case by (simp add: live_string_refines)
next
  case (Catch a h')
  from Catch.IH(1) [OF Catch.prems] Catch.IH(2) show ?case
    by (cases "live_action nd M a p l") (auto simp add: refines_def split: res.split)
next
  case (Noexcept a)
  from Noexcept.IH [OF Noexcept.prems] show ?case
    by (cases "live_action nd M a p l") (simp add: refines_def)
qed (simp_all add: refines_def)

text \<open>The handlers of the server as such sequences, with the program state they leave.\<close>

definition handler_action ::
  "('c, 'j) services \<Rightarrow> (int \<Rightarrow> string) \<Rightarrow> string \<Rightarrow> handler \<Rightarrow> 'c hook_request \<Rightarrow> world
     \<Rightarrow> continuation action \<times> world" where
  "handler_action S time_text version h r w =
     (case h of
        Status_handler start \<Rightarrow>
          (if rmethod r \<noteq> M_get then Respond_static C_method_not_allowed ''method not allowed''
           else Respond_string C_ok (status_body time_text version start w), w)
      | Hook_handler hk \<Rightarrow>
          (if peer_of S r = [] then Raise (Runtime_error ''failed to obtain peer address'')
           else case refusal S hk (peer_of S r) r of
                  Some (code, body) \<Rightarrow> Respond_static code body
                | None \<Rightarrow> Accept (Continue hk (peer_of S r)),
           w\<lparr>hooksRequests := hooksRequests w + 1\<rparr>))"

definition failure_action :: "exn \<Rightarrow> continuation action" where
  "failure_action e =
     (case e of
        Json_error what \<Rightarrow> Respond_string C_bad_request what
      | _ \<Rightarrow> Respond_static C_internal_server_error ''internal server error'')"

definition continue_action ::
  "bool \<Rightarrow> ('c, 'j) services \<Rightarrow> continuation \<Rightarrow> 'c hook_request \<Rightarrow> world \<Rightarrow> continuation action \<times> world" where
  "continue_action ndebug S k r w =
     (case k of Continue h peer \<Rightarrow>
        (case process_content ndebug S h peer r w of
           (Abort f, w) \<Rightarrow> (Leave f, w)
         | (Throw e, w) \<Rightarrow> (Noexcept (failure_action e), w)
         | (Val None, w) \<Rightarrow> (Skip, w)
         | (Val (Some count), w) \<Rightarrow>
             (Noexcept (Catch (if count \<noteq> 0 then Respond_static C_accepted ''accepted'' else Respond_static C_no_content ''ignored'')
                failure_action), w)))"

lemma run_handler_action:
  "run_handler nd S tt v h r w = (case handler_action S tt v h r w of (a, w') \<Rightarrow> with_world w' (run_action nd (mhd S) a r))"
proof (cases h)
  case (Status_handler start)
  then show ?thesis by (simp add: run_handler_def status_page_def handler_action_def)
next
  case (Hook_handler hk)
  show ?thesis
    using Hook_handler
    by (cases "req_accept nd (Continue hk (peer_of S r)) r")
      (auto simp add: run_handler_def hook_call_def handler_action_def refusal_def peer_of_def Let_def allowed_loop_iff)
qed

lemma run_failure_action: "run_action nd M (failure_action e) r = catch_and_respond nd M e r"
  by (cases e) (simp_all add: failure_action_def catch_and_respond_def)

lemma continue_with_action:
  "hook_continue nd S k r w = (case continue_action nd S k r w of (a, w') \<Rightarrow> with_world w' (run_action nd (mhd S) a r))"
proof -
  obtain h peer where k: "k = Continue h peer" by (cases k)
  have tt: "terminate_on_throw (with_world w q) = with_world w (case q of (res, r) \<Rightarrow> (noexcept res, r))"
    for w and q :: "('a, continuation) req_result" by (cases q) simp
  obtain res w1 where p: "process_content nd S h peer r w = (res, w1)" by force
  show ?thesis
  proof (cases res)
    case (Val x)
    with k p tt show ?thesis
      by (cases x) (auto simp add: hook_continue_def continue_action_def run_failure_action split: prod.split res.split)
  qed (use k p tt in \<open>simp_all add: hook_continue_def continue_action_def run_failure_action\<close>)
qed

end
