(* ===== verification/Response_Lifetime.thy ===== *)
theory Response_Lifetime
  imports Response_Memory
begin

text \<open>
  The callbacks of a connection with its responses in memory: the request object is created by the first
  call and deleted by \<open>completedCb\<close>; a queued response is referenced by the library until the request is
  over. Serving a request refines \<^theory_text>\<open>Http_Server.serve\<close>, and leaves no response behind.
\<close>

section \<open>The callbacks in memory\<close>

record ('c, 'k, 'w) live_connection =
  lc_request :: "('c, 'k) live_request option"
  lc_queue :: "(http_code \<times> nat) list"
  lc_heap :: response_heap
  lc_world :: 'w

text \<open>\<open>MHD_queue_response\<close> refuses a null pointer, and takes a reference of a response it queues.\<close>

definition live_queue ::
  "'c mhd \<Rightarrow> 'c \<Rightarrow> http_code option \<Rightarrow> nat option \<Rightarrow> ('c, 'k) request option \<Rightarrow> (http_code \<times> nat) list \<Rightarrow> response_heap
     \<Rightarrow> (bool \<times> (http_code \<times> nat) list \<times> response_heap) res" where
  "live_queue M c code ptr r out l =
     (case (code, ptr) of
        (Some code, Some a) \<Rightarrow>
          if mhd_queue M c code (cell_text r l a)
          then bnd (retain_response a l) (\<lambda>l. Val (True, out @ [(code, a)], l))
          else Val (False, out, l)
      | _ \<Rightarrow> Val (False, out, l))"

text \<open>\<open>sendStaticResponse\<close> drops its own reference at the end.\<close>

definition live_send ::
  "'c mhd \<Rightarrow> 'c \<Rightarrow> http_code \<Rightarrow> string \<Rightarrow> (http_code \<times> nat) list \<Rightarrow> response_heap
     \<Rightarrow> (bool \<times> (http_code \<times> nat) list \<times> response_heap) res" where
  "live_send M c code body out l =
     (case create_response M body (Literal body) l of
        (None, l) \<Rightarrow> Val (False, out, l)
      | (Some a, l) \<Rightarrow>
          bnd (live_queue M c (Some code) (Some a) (None :: ('c, unit) request option) out l) (\<lambda>(ok, out, l).
          bnd (destroy_response a l) (\<lambda>l. Val (ok, out, l))))"

definition live_entry ::
  "bool \<Rightarrow> 'c mhd \<Rightarrow> 'c \<Rightarrow> ('c, 'k) live_request \<Rightarrow> (http_code \<times> nat) list \<Rightarrow> response_heap
     \<Rightarrow> (bool \<times> (http_code \<times> nat) list \<times> response_heap) res" where
  "live_entry ndebug M c p out l =
     (case rstate (lr_request p) of
        Created \<Rightarrow> Val (False, out, l)
      | Accepted \<Rightarrow> Val (True, out, l)
      | Completed \<Rightarrow> bnd (cassert ndebug False) (\<lambda>_. Val (False, out, l))
      | Responded \<Rightarrow> live_queue M c (responseCode (lr_request p)) (lr_response p) (Some (lr_request p)) out l)"

definition live_completion ::
  "bool \<Rightarrow> 'c mhd \<Rightarrow> 'c \<Rightarrow> ('c, 'k) live_request \<Rightarrow> (http_code \<times> nat) list \<Rightarrow> response_heap
     \<Rightarrow> (bool \<times> (http_code \<times> nat) list \<times> response_heap) res" where
  "live_completion ndebug M c p out l =
     (case rstate (lr_request p) of
        Created \<Rightarrow> bnd (cassert ndebug False) (\<lambda>_. Val (False, out, l))
      | Accepted \<Rightarrow> bnd (cassert ndebug False) (\<lambda>_. Val (False, out, l))
      | Completed \<Rightarrow> Val (False, out, l)
      | Responded \<Rightarrow> live_queue M c (responseCode (lr_request p)) (lr_response p) (Some (lr_request p)) out l)"

text \<open>
  \<open>newRequest\<close>: \<open>act\<close> is what the handler does. The local \<open>unique_ptr\<close> deletes the request when the handler
  throws.
\<close>

definition live_new ::
  "bool \<Rightarrow> 'c mhd \<Rightarrow> ('h \<Rightarrow> ('c, 'k) request \<Rightarrow> 'w \<Rightarrow> 'k action \<times> 'w) \<Rightarrow> (string \<rightharpoonup> 'h) \<Rightarrow> nat
     \<Rightarrow> 'c \<Rightarrow> string \<Rightarrow> string \<Rightarrow> ('c, 'k, 'w) live_connection \<Rightarrow> bool res \<times> ('c, 'k, 'w) live_connection" where
  "live_new ndebug M act handlers limit c path meth s =
     (let httpMethod = methodFrom meth;
          send = (\<lambda>code body. case live_send M c code body (lc_queue s) (lc_heap s) of
                    Abort f \<Rightarrow> (Abort f, s)
                  | Throw e \<Rightarrow> (Throw e, s)
                  | Val (ok, out, l) \<Rightarrow> (Val ok, s\<lparr>lc_request := None, lc_queue := out, lc_heap := l\<rparr>)) in
      if httpMethod = M_none then send C_method_not_allowed ''method not allowed''
      else case find_handler handlers path of
             Abort f \<Rightarrow> (Abort f, s)
           | Throw e \<Rightarrow> (Throw e, s)
           | Val None \<Rightarrow> send C_not_found ''not found''
           | Val (Some h) \<Rightarrow>
               (let p = \<lparr>lr_request = fresh_request c httpMethod path limit, lr_response = None\<rparr>;
                    (a, w) = act h (view (lc_heap s) p) (lc_world s) in
                case live_action ndebug M a p (lc_heap s) of
                  (Abort f, p, l) \<Rightarrow> (Abort f, s)
                | (Throw e, p, l) \<Rightarrow>
                    (case delete_response (lr_response p) l of
                       Abort f \<Rightarrow> (Abort f, s)
                     | Throw x \<Rightarrow> (Throw x, s)
                     | Val l \<Rightarrow> (Throw e, s\<lparr>lc_heap := l, lc_world := w\<rparr>))
                | (Val _, p, l) \<Rightarrow>
                    (case live_entry ndebug M c p (lc_queue s) l of
                       Abort f \<Rightarrow> (Abort f, s)
                     | Throw e \<Rightarrow> (Throw e, s)
                     | Val (ok, out, l) \<Rightarrow>
                         (Val ok, s\<lparr>lc_request := Some p, lc_queue := out, lc_heap := l, lc_world := w\<rparr>))))"

definition live_complete ::
  "bool \<Rightarrow> 'c mhd \<Rightarrow> ('k \<Rightarrow> ('c, 'k) request \<Rightarrow> 'w \<Rightarrow> 'k action \<times> 'w) \<Rightarrow> 'c
     \<Rightarrow> ('c, 'k) live_request \<Rightarrow> ('c, 'k, 'w) live_connection \<Rightarrow> bool res \<times> ('c, 'k, 'w) live_connection" where
  "live_complete ndebug M act c p s =
     (case cassert ndebug (rstate (lr_request p) = Accepted) of
        Abort f \<Rightarrow> (Abort f, s)
      | Throw e \<Rightarrow> (Throw e, s)
      | Val _ \<Rightarrow>
          (let p = p\<lparr>lr_request := (lr_request p)\<lparr>rstate := Completed\<rparr>\<rparr> in
           case rhandler (lr_request p) of
             None \<Rightarrow> (Throw (Runtime_error ''bad_function_call''), s\<lparr>lc_request := Some p\<rparr>)
           | Some k \<Rightarrow>
               (let (a, w) = act k (view (lc_heap s) p) (lc_world s) in
                case live_action ndebug M a p (lc_heap s) of
                  (Abort f, p, l) \<Rightarrow> (Abort f, s)
                | (Throw e, p, l) \<Rightarrow> (Throw e, s\<lparr>lc_request := Some p, lc_heap := l, lc_world := w\<rparr>)
                | (Val _, p, l) \<Rightarrow>
                    (case live_completion ndebug M c p (lc_queue s) l of
                       Abort f \<Rightarrow> (Abort f, s)
                     | Throw e \<Rightarrow> (Throw e, s)
                     | Val (ok, out, l) \<Rightarrow>
                         (Val ok, s\<lparr>lc_request := Some p, lc_queue := out, lc_heap := l, lc_world := w\<rparr>)))))"

definition live_answer ::
  "bool \<Rightarrow> 'c mhd \<Rightarrow> ('h \<Rightarrow> ('c, 'k) request \<Rightarrow> 'w \<Rightarrow> 'k action \<times> 'w)
     \<Rightarrow> ('k \<Rightarrow> ('c, 'k) request \<Rightarrow> 'w \<Rightarrow> 'k action \<times> 'w) \<Rightarrow> (string \<rightharpoonup> 'h) \<Rightarrow> nat \<Rightarrow> 'c \<Rightarrow> string \<Rightarrow> string \<Rightarrow> string
     \<Rightarrow> ('c, 'k, 'w) live_connection \<Rightarrow> bool res \<times> ('c, 'k, 'w) live_connection" where
  "live_answer ndebug M act_h act_k handlers limit c path meth upload s =
     mhd_no_on_throw
       (case lc_request s of
          None \<Rightarrow> live_new ndebug M act_h handlers limit c path meth s
        | Some p \<Rightarrow>
            if upload \<noteq> []
            then (case live_addContent ndebug M upload p (lc_heap s) of
                    Val (ok, p, l) \<Rightarrow> (Val ok, s\<lparr>lc_request := Some p, lc_heap := l\<rparr>)
                  | Throw e \<Rightarrow> (Throw e, s)
                  | Abort f \<Rightarrow> (Abort f, s))
            else live_complete ndebug M act_k c p s)"

text \<open>
  The end of a request: \<open>completedCb\<close> deletes the request object, and with it the response it points to;
  then the library drops its references.
\<close>

definition live_completed :: "('c, 'k, 'w) live_connection \<Rightarrow> ('c, 'k, 'w) live_connection res" where
  "live_completed s =
     (case lc_request s of
        None \<Rightarrow> Val s
      | Some p \<Rightarrow> bnd (delete_response (lr_response p) (lc_heap s)) (\<lambda>l. Val (s\<lparr>lc_request := None, lc_heap := l\<rparr>)))"

fun release_all :: "(http_code \<times> nat) list \<Rightarrow> response_heap \<Rightarrow> response_heap res" where
  "release_all [] l = Val l"
| "release_all ((code, a) # out) l = bnd (destroy_response a l) (release_all out)"

definition live_end :: "('c, 'k, 'w) live_connection \<Rightarrow> ('c, 'k, 'w) live_connection res" where
  "live_end s =
     bnd (live_completed s) (\<lambda>s. bnd (release_all (lc_queue s) (lc_heap s)) (\<lambda>l. Val (s\<lparr>lc_queue := [], lc_heap := l\<rparr>)))"

definition live_serve ::
  "bool \<Rightarrow> ('c, 'j) services \<Rightarrow> (int \<Rightarrow> string) \<Rightarrow> string \<Rightarrow> (string \<rightharpoonup> handler) \<Rightarrow> nat
     \<Rightarrow> 'c \<Rightarrow> string \<Rightarrow> string \<Rightarrow> string list \<Rightarrow> world \<Rightarrow> response_heap
     \<Rightarrow> bool res \<times> ('c, continuation, world) live_connection" where
  "live_serve ndebug S time_text version handlers limit c path meth pieces w l =
     (let call = live_answer ndebug (mhd S) (handler_action S time_text version) (continue_action ndebug S)
            handlers limit c path meth;
          s = \<lparr>lc_request = None, lc_queue = [], lc_heap = l, lc_world = w\<rparr>
      in case call [] s of
           (Val True, s') \<Rightarrow> if lc_queue s' = [] then feed call pieces s' else (Val True, s')
         | other \<Rightarrow> other)"

section \<open>Ownership\<close>

text \<open>
  Between two calls the connection owns its request's response and nothing else (\<open>open_conn\<close>). When a response
  has been queued, the library has one more reference of it (\<open>closed_conn\<close>).
\<close>

definition conn_view :: "('c, 'k, 'w) live_connection \<Rightarrow> ('c, 'k, 'w) connection" where
  "conn_view s =
     \<lparr>connCls = map_option (view (lc_heap s)) (lc_request s),
      queued_responses = map (\<lambda>(code, a). (code, cell_text (map_option lr_request (lc_request s)) (lc_heap s) a)) (lc_queue s),
      world = lc_world s\<rparr>"

definition open_conn :: "(nat \<rightharpoonup> response_cell) \<Rightarrow> ('c, 'k, 'w) live_connection \<Rightarrow> bool" where
  "open_conn h s \<longleftrightarrow> lc_queue s = []
     \<and> (case lc_request s of
          None \<Rightarrow> rh_cells (lc_heap s) = h \<and> valid_heap (lc_heap s)
        | Some p \<Rightarrow> owns h p (lc_heap s))"

definition closed_conn :: "(nat \<rightharpoonup> response_cell) \<Rightarrow> ('c, 'k, 'w) live_connection \<Rightarrow> bool" where
  "closed_conn h s \<longleftrightarrow> valid_heap (lc_heap s) \<and> (\<exists>code a b. lc_queue s = [(code, a)] \<and> h a = None
     \<and> (case lc_request s of
          None \<Rightarrow> (\<exists>t. b = Literal t) \<and> rh_cells (lc_heap s) = h(a \<mapsto> \<lparr>rc_refs = 1, rc_buffer = b\<rparr>)
        | Some p \<Rightarrow> lr_response p = Some a \<and> rh_cells (lc_heap s) = h(a \<mapsto> \<lparr>rc_refs = 2, rc_buffer = b\<rparr>)))"

section \<open>One call\<close>

text \<open>Same result; and unless the program ends, the same state and a connection that is open or closed.\<close>

definition agrees ::
  "(nat \<rightharpoonup> response_cell) \<Rightarrow> bool res \<times> ('c, 'k, 'w) live_connection \<Rightarrow> bool res \<times> ('c, 'k, 'w) connection \<Rightarrow> bool" where
  "agrees h q v \<longleftrightarrow> fst v = fst q
     \<and> ((\<forall>f. fst q \<noteq> Abort f) \<longrightarrow> snd v = conn_view (snd q) \<and> (open_conn h (snd q) \<or> closed_conn h (snd q))
          \<and> (fst q = Val True \<longrightarrow> lc_queue (snd q) = [] \<longrightarrow> lc_request (snd q) \<noteq> None))"

definition texts :: "('c, 'k) request option \<Rightarrow> response_heap \<Rightarrow> (http_code \<times> nat) list \<Rightarrow> (http_code \<times> string) list" where
  "texts r l out = map (\<lambda>(code, a). (code, cell_text r l a)) out"

lemma live_queue_refines:
  assumes "owns h p l"
  shows "\<exists>ok out l'. live_queue M c code (lr_response p) (Some (lr_request p)) [] l = Val (ok, out, l')
     \<and> queue_response M c code (response (view l p)) [] = (ok, texts (Some (lr_request p)) l' out)
     \<and> view l' p = view l p
     \<and> (if out = [] then l' = l \<and> \<not> ok
        else valid_heap l' \<and> (\<exists>code a b. out = [(code, a)] \<and> h a = None \<and> lr_response p = Some a
               \<and> rh_cells l' = h(a \<mapsto> \<lparr>rc_refs = 2, rc_buffer = b\<rparr>)))"
proof (cases "\<exists>x a. code = Some x \<and> lr_response p = Some a \<and> mhd_queue M c x (cell_text (Some (lr_request p)) l a)")
  case False
  then show ?thesis
    by (cases code; cases "lr_response p") (auto simp add: live_queue_def queue_response_def view_def texts_def)
next
  case True
  then obtain x a where x: "code = Some x" "lr_response p = Some a" "mhd_queue M c x (cell_text (Some (lr_request p)) l a)" by blast
  with assms obtain b where b: "h a = None" "rh_cells l = h(a \<mapsto> \<lparr>rc_refs = 1, rc_buffer = b\<rparr>)" "valid_heap l"
    by (auto simp add: owns_def)
  let ?l = "l\<lparr>rh_cells := h(a \<mapsto> \<lparr>rc_refs = 2, rc_buffer = b\<rparr>)\<rparr>"
  have q: "live_queue M c code (lr_response p) (Some (lr_request p)) [] l = Val (True, [(x, a)], ?l)"
    using x b(2) by (simp add: live_queue_def retain_response_def numeral_2_eq_2)
  have t: "cell_text r ?l = cell_text r l" for r :: "('a, 'b) request option"
    using b(2) by (intro ext) (simp add: cell_text_def)
  have "valid_heap ?l" using b by (simp add: valid_heap_def)
  moreover have "queue_response M c code (response (view l p)) [] = (True, texts (Some (lr_request p)) ?l [(x, a)])"
    using x t by (simp add: queue_response_def view_def texts_def)
  moreover have "view ?l p = view l p" using t by (simp add: view_def)
  ultimately show ?thesis
    using q x b by (intro exI [of _ True] exI [of _ "[(x, a)]"] exI [of _ ?l]) auto
qed

lemma live_send_refines:
  assumes "valid_heap l"
  shows "\<exists>ok out l'. live_send M c code body [] l = Val (ok, out, l') \<and> valid_heap l'
     \<and> sendStaticResponse M c code body [] = (ok, texts (None :: ('c, 'k) request option) l' out)
     \<and> (if out = [] then rh_cells l' = rh_cells l \<and> \<not> ok
        else \<exists>a. out = [(code, a)] \<and> rh_cells l a = None
               \<and> rh_cells l' = (rh_cells l)(a \<mapsto> \<lparr>rc_refs = 1, rc_buffer = Literal body\<rparr>))"
proof (cases "mhd_create M body")
  case False
  with assms show ?thesis by (auto simp add: live_send_def create_response_def sendStaticResponse_def texts_def)
next
  case True
  have fresh: "rh_cells l (rh_next l) = None" using assms by (rule valid_heap_fresh)
  obtain new l1 where c: "create_response M body (Literal body) l = (new, l1)" by force
  with True have n: "new = Some (rh_next l)"
    "l1 = l\<lparr>rh_next := Suc (rh_next l), rh_cells := (rh_cells l)(rh_next l \<mapsto> \<lparr>rc_refs = 1, rc_buffer = Literal body\<rparr>)\<rparr>"
    by (simp_all add: create_response_def)
  have v: "valid_heap l1" using assms c by (rule valid_heap_create)
  then have v': "valid_heap (l1\<lparr>rh_cells := (rh_cells l1)(rh_next l \<mapsto> c')\<rparr>)"
    "valid_heap (l1\<lparr>rh_cells := (rh_cells l1)(rh_next l := None)\<rparr>)" for c'
    using n by (auto simp add: valid_heap_def)
  show ?thesis
    using True c n fresh v v'
    by (cases "mhd_queue M c code body")
      (auto simp add: live_send_def live_queue_def sendStaticResponse_def queue_response_def retain_response_def
        destroy_response_def cell_text_def buffer_text_def texts_def fun_upd_idem)
qed

lemma conn_view_texts:
  "conn_view s = \<lparr>connCls = map_option (view (lc_heap s)) (lc_request s),
     queued_responses = texts (map_option lr_request (lc_request s)) (lc_heap s) (lc_queue s), world = lc_world s\<rparr>"
  by (simp add: conn_view_def texts_def)

text \<open>What is left after the \<open>switch\<close>: the connection is closed if a response was queued, and open otherwise.\<close>

lemma after_queue:
  assumes own: "owns h p l" and q: "live_queue M c code (lr_response p) (Some (lr_request p)) [] l = Val (ok, out, l')"
    and s': "lc_request s' = Some p" "lc_queue s' = out" "lc_heap s' = l'"
  shows "(open_conn h s' \<or> closed_conn h s') \<and> conn_view s' =
      \<lparr>connCls = Some (view l p), queued_responses = snd (queue_response M c code (response (view l p)) []), world = lc_world s'\<rparr>
    \<and> fst (queue_response M c code (response (view l p)) []) = ok"
proof -
  from live_queue_refines [OF own, of M c code] q have
    r: "queue_response M c code (response (view l p)) [] = (ok, texts (Some (lr_request p)) l' out)" "view l' p = view l p"
    "if out = [] then l' = l \<and> \<not> ok
     else valid_heap l' \<and> (\<exists>code a b. out = [(code, a)] \<and> h a = None \<and> lr_response p = Some a
            \<and> rh_cells l' = h(a \<mapsto> \<lparr>rc_refs = 2, rc_buffer = b\<rparr>))" by auto
  from r(3) own s' have "open_conn h s' \<or> closed_conn h s'"
    by (auto simp add: open_conn_def closed_conn_def split: if_splits)
  with r(1,2) s' show ?thesis by (simp add: conn_view_texts)
qed

lemma plain_agrees:
  assumes "owns h p l"
  shows "agrees h (Val ok, s\<lparr>lc_request := Some p, lc_queue := [], lc_heap := l, lc_world := w\<rparr>)
     (Val ok, t\<lparr>connCls := Some (view l p), queued_responses := [], world := w\<rparr>)"
  using assms by (auto simp add: agrees_def conn_view_texts open_conn_def texts_def)

lemma abort_agrees: "agrees h (Abort f, s) (Abort f, t)"
  by (simp add: agrees_def)

lemma responded_agrees:
  assumes own: "owns h p l"
  shows "agrees h
     (case live_queue M c code (lr_response p) (Some (lr_request p)) [] l of
        Abort f \<Rightarrow> (Abort f, s) | Throw e \<Rightarrow> (Throw e, s)
      | Val (ok, out, l) \<Rightarrow> (Val ok, s\<lparr>lc_request := Some p, lc_queue := out, lc_heap := l, lc_world := w\<rparr>))
     (case queue_response M c code (response (view l p)) [] of
        (ok, out) \<Rightarrow> (Val ok, t\<lparr>connCls := Some (view l p), queued_responses := out, world := w\<rparr>))"
proof -
  from live_queue_refines [OF own, of M c code] obtain ok out l' where
    q: "live_queue M c code (lr_response p) (Some (lr_request p)) [] l = Val (ok, out, l')" by blast
  from after_queue [OF own q, of "s\<lparr>lc_request := Some p, lc_queue := out, lc_heap := l', lc_world := w\<rparr>"]
  show ?thesis
    using q by (auto simp add: agrees_def split: prod.split)
qed

lemma live_entry_agrees:
  assumes own: "owns h p l"
  shows "agrees h
     (case live_entry nd M c p [] l of
        Abort f \<Rightarrow> (Abort f, s) | Throw e \<Rightarrow> (Throw e, s)
      | Val (ok, out, l) \<Rightarrow> (Val ok, s\<lparr>lc_request := Some p, lc_queue := out, lc_heap := l, lc_world := w\<rparr>))
     (case after_entry nd M c (view l p) [] of
        Abort f \<Rightarrow> (Abort f, t1) | Throw e \<Rightarrow> (Throw e, t1)
      | Val (ok, out) \<Rightarrow> (Val ok, t\<lparr>connCls := Some (view l p), queued_responses := out, world := w\<rparr>))"
  by (cases "rstate (lr_request p)"; cases nd)
    (simp_all add: live_entry_def after_entry_def plain_agrees [OF own] responded_agrees [OF own] abort_agrees)

lemma live_completion_agrees:
  assumes own: "owns h p l"
  shows "agrees h
     (case live_completion nd M c p [] l of
        Abort f \<Rightarrow> (Abort f, s) | Throw e \<Rightarrow> (Throw e, s)
      | Val (ok, out, l) \<Rightarrow> (Val ok, s\<lparr>lc_request := Some p, lc_queue := out, lc_heap := l, lc_world := w\<rparr>))
     (case after_completion nd M c (view l p) [] of
        Abort f \<Rightarrow> (Abort f, t1) | Throw e \<Rightarrow> (Throw e, t1)
      | Val (ok, out) \<Rightarrow> (Val ok, t\<lparr>connCls := Some (view l p), queued_responses := out, world := w\<rparr>))"
  by (cases "rstate (lr_request p)"; cases nd)
    (simp_all add: live_completion_def after_completion_def plain_agrees [OF own] responded_agrees [OF own] abort_agrees)

text \<open>A handler given by its action, on values.\<close>

definition acted ::
  "bool \<Rightarrow> 'c mhd \<Rightarrow> ('h \<Rightarrow> ('c, 'k) request \<Rightarrow> 'w \<Rightarrow> 'k action \<times> 'w) \<Rightarrow> 'h \<Rightarrow> ('c, 'k, 'w) handler_fun" where
  "acted nd M act h r w = (case act h r w of (a, w') \<Rightarrow> case run_action nd M a r of (res, r') \<Rightarrow> (res, r', w'))"

lemma live_send_agrees:
  assumes "open_conn h s" and "lc_request s = None"
  shows "agrees h
     (case live_send M c code body (lc_queue s) (lc_heap s) of
        Abort f \<Rightarrow> (Abort f, s) | Throw e \<Rightarrow> (Throw e, s)
      | Val (ok, out, l) \<Rightarrow> (Val ok, s\<lparr>lc_request := None, lc_queue := out, lc_heap := l\<rparr>))
     (let (ok, out) = sendStaticResponse M c code body (queued_responses (conn_view s))
      in (Val ok, (conn_view s)\<lparr>connCls := None, queued_responses := out\<rparr>))"
proof -
  have o: "lc_queue s = []" "rh_cells (lc_heap s) = h" "valid_heap (lc_heap s)"
    using assms by (simp_all add: open_conn_def)
  from live_send_refines [OF o(3), where 'k = 'b, of M c code body] obtain ok out l' where
    q: "live_send M c code body [] (lc_heap s) = Val (ok, out, l')" "valid_heap l'"
    "sendStaticResponse M c code body [] = (ok, texts (None :: ('a, 'b) request option) l' out)"
    "if out = [] then rh_cells l' = rh_cells (lc_heap s) \<and> \<not> ok
     else \<exists>a. out = [(code, a)] \<and> rh_cells (lc_heap s) a = None
            \<and> rh_cells l' = (rh_cells (lc_heap s))(a \<mapsto> \<lparr>rc_refs = 1, rc_buffer = Literal body\<rparr>)" by blast
  have "queued_responses (conn_view s) = []" using o(1) by (simp add: conn_view_texts texts_def)
  with q o show ?thesis
    by (auto simp add: agrees_def conn_view_texts open_conn_def closed_conn_def split: if_splits)
qed

lemma live_new_agrees:
  fixes act :: "'h \<Rightarrow> ('c, 'k) request \<Rightarrow> 'w \<Rightarrow> 'k action \<times> 'w"
  assumes own: "open_conn h s" and none: "lc_request s = None"
  shows "agrees h (live_new nd M act hs limit c path meth s) (newRequest nd M (acted nd M act) hs limit c path meth (conn_view s))"
proof (cases "methodFrom meth = M_none \<or> find_handler hs path = Val None")
  case True
  then show ?thesis
    using live_send_agrees [OF assms]
    by (cases "methodFrom meth = M_none") (simp_all add: live_new_def newRequest_def Let_def)
next
  case False
  then obtain hh where hh: "methodFrom meth \<noteq> M_none" "find_handler hs path = Val (Some hh)"
    using find_handler_total [of hs path] by auto
  have o: "lc_queue s = []" "rh_cells (lc_heap s) = h" "valid_heap (lc_heap s)"
    using assms by (simp_all add: open_conn_def)
  let ?p = "\<lparr>lr_request = fresh_request c (methodFrom meth) path limit :: ('c, 'k) request, lr_response = None\<rparr>"
  have v: "view (lc_heap s) ?p = fresh_request c (methodFrom meth) path limit" by (simp add: view_def fresh_request_def)
  have p: "owns h ?p (lc_heap s)" using o by (simp add: owns_def)
  obtain a w where a: "act hh (fresh_request c (methodFrom meth) path limit) (lc_world s) = (a, w)" by force
  obtain res p' l' where r: "live_action nd M a ?p (lc_heap s) = (res, p', l')" by (metis prod.exhaust)
  with live_action_refines [OF p, of nd M a] v have
    f: "run_action nd M a (fresh_request c (methodFrom meth) path limit) = (res, view l' p')" "owns h p' l'"
    by (simp_all add: refines_def)
  have w: "world (conn_view s) = lc_world s" "queued_responses (conn_view s) = []"
    using o by (simp_all add: conn_view_texts texts_def)
  have "acted nd M act hh (fresh_request c (methodFrom meth) path limit) (lc_world s) = (res, view l' p', w)"
    using a f(1) by (simp add: acted_def)
  moreover from delete_owned [OF f(2)] obtain l2 where "delete_response (lr_response p') l' = Val l2" "rh_cells l2 = h" "valid_heap l2"
    by blast
  moreover note live_entry_agrees [OF f(2), where nd = nd and M = M and c = c and s = s and w = w and t = "conn_view s"
      and ?t1.0 = "(conn_view s)\<lparr>world := w\<rparr>"]
  ultimately show ?thesis
    using hh a r v w o none
    by (cases res)
      (simp_all add: live_new_def newRequest_def Let_def, simp_all add: agrees_def conn_view_texts open_conn_def texts_def)
qed

lemma live_complete_agrees:
  fixes act :: "'k \<Rightarrow> ('c, 'k) request \<Rightarrow> 'w \<Rightarrow> 'k action \<times> 'w"
  assumes own: "open_conn h s" and p: "lc_request s = Some p"
  shows "agrees h (live_complete nd M act c p s)
     (completeRequest nd M (acted nd M act) c (view (lc_heap s) p) (conn_view s))"
proof -
  let ?p = "p\<lparr>lr_request := (lr_request p)\<lparr>rstate := Completed\<rparr>\<rparr>"
  have o: "lc_queue s = []" "owns h ?p (lc_heap s)" using assms by (simp_all add: open_conn_def)
  have v: "(view (lc_heap s) p)\<lparr>rstate := Completed\<rparr> = view (lc_heap s) ?p" by (simp add: view_update)
  have w: "world (conn_view s) = lc_world s" "queued_responses (conn_view s) = []"
    using o by (simp_all add: conn_view_texts texts_def)
  show ?thesis
  proof (cases "cassert nd (rstate (lr_request p) = Accepted)")
    case (Val u)
    show ?thesis
    proof (cases "rhandler (lr_request p)")
      case None
      with Val v o w show ?thesis
        by (simp add: live_complete_def completeRequest_def Let_def agrees_def conn_view_texts open_conn_def texts_def)
    next
      case (Some k)
      obtain a w' where a: "act k (view (lc_heap s) ?p) (lc_world s) = (a, w')" by force
      obtain res p' l' where r: "live_action nd M a ?p (lc_heap s) = (res, p', l')" by (metis prod.exhaust)
      with live_action_refines [OF o(2), of nd M a] have
        f: "run_action nd M a (view (lc_heap s) ?p) = (res, view l' p')" "owns h p' l'" by (simp_all add: refines_def)
      have "acted nd M act k (view (lc_heap s) ?p) (lc_world s) = (res, view l' p', w')"
        using a f(1) by (simp add: acted_def)
      moreover note live_completion_agrees [OF f(2), where nd = nd and M = M and c = c and s = s and w = w' and t = "conn_view s"
        and ?t1.0 = "(conn_view s)\<lparr>connCls := Some (view l' p'), world := w'\<rparr>"]
      ultimately show ?thesis
        using Val Some a r v w o f(2)
        by (cases res)
          (simp_all add: live_complete_def completeRequest_def Let_def,
            simp_all add: agrees_def conn_view_texts open_conn_def texts_def)
    qed
  qed (simp_all add: live_complete_def completeRequest_def agrees_def res_simps)
qed

lemma agrees_no_on_throw: "agrees h q v \<Longrightarrow> agrees h (mhd_no_on_throw q) (mhd_no_on_throw v)"
  by (cases q rule: mhd_no_on_throw.cases; cases v rule: mhd_no_on_throw.cases) (auto simp add: agrees_def)

lemma live_answer_agrees:
  assumes own: "open_conn h s"
  shows "agrees h (live_answer nd M act_h act_k hs limit c path meth upload s)
     (answerCb nd M (acted nd M act_h) (acted nd M act_k) hs limit c path meth upload (conn_view s))"
proof (cases "lc_request s")
  case None
  then have "connCls (conn_view s) = None" by (simp add: conn_view_def)
  with None show ?thesis
    by (simp add: live_answer_def answerCb_def agrees_no_on_throw live_new_agrees [OF own None])
next
  case (Some p)
  then have c: "connCls (conn_view s) = Some (view (lc_heap s) p)" by (simp add: conn_view_def)
  have o: "lc_queue s = []" "owns h p (lc_heap s)" using own Some by (simp_all add: open_conn_def)
  show ?thesis
  proof (cases "upload = []")
    case True
    with Some c show ?thesis
      by (simp add: live_answer_def answerCb_def agrees_no_on_throw live_complete_agrees [OF own Some])
  next
    case False
    with live_addContent_refines [OF o(2), of nd M upload] Some c o show ?thesis
      by (cases "live_addContent nd M upload p (lc_heap s)")
        (auto simp add: live_answer_def answerCb_def agrees_def conn_view_texts open_conn_def texts_def)
  qed
qed

section \<open>A whole request\<close>

text \<open>A piece of the body queues nothing and leaves the request where it is.\<close>

lemma live_answer_piece:
  assumes "live_answer nd M act_h act_k hs limit c path meth upload s = (res, s')" and "upload \<noteq> []"
    and "lc_request s \<noteq> None"
  shows "lc_queue s' = lc_queue s \<and> lc_request s' \<noteq> None"
  using assms by (auto simp add: live_answer_def split: res.splits prod.splits)

lemma feed_agrees:
  assumes "open_conn h s" and "lc_request s \<noteq> None" and "[] \<notin> set pieces"
  shows "agrees h (feed (live_answer nd M act_h act_k hs limit c path meth) pieces s)
     (feed (answerCb nd M (acted nd M act_h) (acted nd M act_k) hs limit c path meth) pieces (conn_view s))"
  using assms
proof (induction pieces arbitrary: s)
  case Nil
  then show ?case by (simp add: live_answer_agrees)
next
  case (Cons x xs)
  obtain res s' where r: "live_answer nd M act_h act_k hs limit c path meth x s = (res, s')" by force
  obtain res' t where v: "answerCb nd M (acted nd M act_h) (acted nd M act_k) hs limit c path meth x (conn_view s) = (res', t)"
    by force
  note a = live_answer_agrees [OF Cons.prems(1), of nd M act_h act_k hs limit c path meth x, unfolded r v]
  have "lc_queue s' = []" "lc_request s' \<noteq> None"
    using live_answer_piece [OF r] Cons.prems by (auto simp add: open_conn_def)
  then have "open_conn h s'" if "res = Val True" using a that by (auto simp add: agrees_def closed_conn_def)
  with a Cons.IH [of s'] Cons.prems(3) r v \<open>lc_request s' \<noteq> None\<close> show ?case
    by (cases res) (auto simp add: agrees_def split: bool.split)
qed

lemma handler_acted:
  "acted nd (mhd S) (handler_action S tt v) = run_handler nd S tt v"
  "acted nd (mhd S) (continue_action nd S) = hook_continue nd S"
proof -
  have "with_world w q = (case q of (res, r) \<Rightarrow> (res, r, w))" for w and q :: "('a, continuation) req_result"
    by (cases q) simp
  then show "acted nd (mhd S) (handler_action S tt v) = run_handler nd S tt v"
    "acted nd (mhd S) (continue_action nd S) = hook_continue nd S"
    by (intro ext; simp add: acted_def run_handler_action continue_with_action split: prod.split)+
qed

lemma live_serve_agrees:
  assumes "valid_heap l" and "[] \<notin> set pieces"
  shows "agrees (rh_cells l) (live_serve nd S tt v hs limit c path meth pieces w l)
     (serve_hooks nd S tt v hs limit c path meth pieces w)"
proof -
  let ?s = "\<lparr>lc_request = None, lc_queue = [], lc_heap = l, lc_world = w\<rparr> :: ('a, continuation, world) live_connection"
  let ?live = "live_answer nd (mhd S) (handler_action S tt v) (continue_action nd S) hs limit c path meth"
  let ?call = "answerCb nd (mhd S) (run_handler nd S tt v) (hook_continue nd S) hs limit c path meth"
  have s: "open_conn (rh_cells l) ?s" "conn_view ?s = \<lparr>connCls = None, queued_responses = [], world = w\<rparr>"
    using assms(1) by (simp_all add: open_conn_def conn_view_def)
  obtain res s' where r: "?live [] ?s = (res, s')" by force
  obtain res' t where v: "?call [] \<lparr>connCls = None, queued_responses = [], world = w\<rparr> = (res', t)" by force
  from live_answer_agrees [OF s(1), of nd "mhd S" "handler_action S tt v" "continue_action nd S" hs limit c path meth "[]"]
  have a: "agrees (rh_cells l) (res, s') (res', t)" by (simp only: r v s(2) handler_acted)
  show ?thesis
  proof (cases "res = Val True \<and> lc_queue s' = []")
    case True
    with a have o: "open_conn (rh_cells l) s'" "lc_request s' \<noteq> None" "t = conn_view s'" "res' = Val True"
      by (auto simp add: agrees_def closed_conn_def)
    have "queued_responses t = []" using o(3) True by (simp add: conn_view_def)
    with feed_agrees [OF o(1,2) assms(2), of nd "mhd S" "handler_action S tt v" "continue_action nd S" hs limit c path meth]
      True r v o show ?thesis
      by (simp add: live_serve_def serve_hooks_def serve_def Let_def handler_acted)
  next
    case False
    moreover from a have "res' = res" "res = Val True \<Longrightarrow> queued_responses t = [] \<longleftrightarrow> lc_queue s' = []"
      by (auto simp add: agrees_def conn_view_def)
    ultimately show ?thesis
      using a r v by (cases res) (auto simp add: live_serve_def serve_hooks_def serve_def Let_def split: bool.split)
  qed
qed

text \<open>The end of the request frees what the request owns, whether a response was queued or not.\<close>

lemma live_end_frees:
  assumes "open_conn h s \<or> closed_conn h s"
  shows "\<exists>s'. live_end s = Val s' \<and> open_conn h s' \<and> lc_request s' = None"
  using assms
proof
  assume o: "open_conn h s"
  show ?thesis
  proof (cases "lc_request s")
    case None
    with o show ?thesis by (simp add: live_end_def live_completed_def open_conn_def)
  next
    case (Some p)
    with o delete_owned [of h p "lc_heap s"] show ?thesis
      by (auto simp add: live_end_def live_completed_def open_conn_def)
  qed
next
  assume c: "closed_conn h s"
  then obtain code a b where q: "lc_queue s = [(code, a)]" "h a = None" "valid_heap (lc_heap s)"
    "case lc_request s of
       None \<Rightarrow> (\<exists>t. b = Literal t) \<and> rh_cells (lc_heap s) = h(a \<mapsto> \<lparr>rc_refs = 1, rc_buffer = b\<rparr>)
     | Some p \<Rightarrow> lr_response p = Some a \<and> rh_cells (lc_heap s) = h(a \<mapsto> \<lparr>rc_refs = 2, rc_buffer = b\<rparr>)"
    unfolding closed_conn_def by blast
  then have "valid_heap ((lc_heap s)\<lparr>rh_cells := h\<rparr>)" by (auto simp add: valid_heap_def split: option.splits)
  with q show ?thesis
    by (cases "lc_request s")
      (auto simp add: live_end_def live_completed_def open_conn_def delete_response_def destroy_response_def fun_upd_idem)
qed

text \<open>
  The memory of the responses is safe and nothing leaks: serving any request with the responses as
  reference-counted objects, whose bytes are literals or belong to the request object, gives the same
  result as the model on values, for every request, installation and build. No freed response is ever
  used, so none is freed twice; the bytes read through the queued pointers are those of the response
  that was meant; and when the request is completed, the request object and every response made for it
  are freed, and nothing else.
\<close>

theorem responses_freed_exactly_once:
  assumes "valid_heap l" and "[] \<notin> set pieces"
    and "live_serve nd S tt v handlers limit c path meth pieces w l = (res, s)"
  shows "fst (serve_hooks nd S tt v handlers limit c path meth pieces w) = res
     \<and> ((\<forall>f. res \<noteq> Abort f) \<longrightarrow>
          snd (serve_hooks nd S tt v handlers limit c path meth pieces w) = conn_view s
          \<and> (\<exists>s'. live_end s = Val s' \<and> rh_cells (lc_heap s') = rh_cells l \<and> lc_request s' = None))"
  using live_serve_agrees [OF assms(1,2), of nd S tt v handlers limit c path meth w] live_end_frees [of "rh_cells l" s]
  by (auto simp add: assms(3) agrees_def open_conn_def)

theorem responses_freed_exactly_once_witness:
  "\<exists>s s'. live_serve False site site_time ''1.0'' site_handlers 65535 good_headers ''/status'' ''GET'' [] site_world
       \<lparr>rh_cells = Map.empty, rh_next = 0\<rparr> = (Val True, s)
     \<and> length (lc_queue s) = 1 \<and> live_end s = Val s' \<and> rh_cells (lc_heap s') = Map.empty"
proof -
  let ?l = "\<lparr>rh_cells = Map.empty, rh_next = 0\<rparr>"
  obtain res s where r: "live_serve False site site_time ''1.0'' site_handlers 65535 good_headers ''/status'' ''GET'' []
      site_world ?l = (res, s)" by force
  have "find_handler site_handlers ''/status'' = Val (Some (Status_handler 0))"
    by (rule rt.search_exact) (simp_all add: site_handlers_def slash_def)
  then have v: "\<exists>t. serve_hooks False site site_time ''1.0'' site_handlers 65535 good_headers ''/status'' ''GET'' []
      site_world = (Val True, t) \<and> length (queued_responses t) = 1"
    by (simp add: serve_hooks_def serve_def answerCb_def newRequest_def methodFrom_def run_handler_def status_page_def
        respond_string_none respond_static_none after_entry_def queue_response_def Let_def)
  have "valid_heap ?l" by (simp add: valid_heap_def)
  from responses_freed_exactly_once [OF this _ r] v show ?thesis
    using r by (auto simp add: conn_view_def)
qed

end
