(* ===== verification/Response_Server.thy ===== *)
theory Response_Server
  imports Response_Lifetime Server_Refinement Server_Facts
begin

text \<open>
  All connections with their responses in one heap: the running server of \<^theory_text>\<open>Server_Machine\<close> at the level of
  memory. Every run of it is a run of the server on values, so that what is proved of those holds here;
  and the objects in the heap are at any time those that the requests in progress own.
\<close>

section \<open>The server in memory\<close>

record 'c live_slot =
  ls_phase :: "'c phase"
  ls_request :: "('c, continuation) live_request option"
  ls_queue :: "(http_code \<times> nat) list"

text \<open>\<open>lv_rest\<close> is the rest of the program; its connections are not used.\<close>

record 'c live_server =
  lv_slots :: "nat \<Rightarrow> 'c live_slot"
  lv_heap :: response_heap
  lv_rest :: "'c server_state"

definition live_conn :: "'c live_server \<Rightarrow> nat \<Rightarrow> ('c, continuation, world) live_connection" where
  "live_conn v i = \<lparr>lc_request = ls_request (lv_slots v i), lc_queue = ls_queue (lv_slots v i), lc_heap = lv_heap v,
     lc_world = sv_world (lv_rest v)\<rparr>"

definition slot_view :: "response_heap \<Rightarrow> 'c live_slot \<Rightarrow> 'c slot" where
  "slot_view l sl = \<lparr>sl_phase = ls_phase sl, sl_request = map_option (view l) (ls_request sl),
     sl_responses = texts (map_option lr_request (ls_request sl)) l (ls_queue sl)\<rparr>"

definition server_view :: "'c live_server \<Rightarrow> 'c server_state" where
  "server_view v = (lv_rest v)\<lparr>sv_slots := \<lambda>i. slot_view (lv_heap v) (lv_slots v i)\<rparr>"

definition live_server_call ::
  "('c, 'j) deployment \<Rightarrow> nat \<Rightarrow> 'c \<Rightarrow> string \<Rightarrow> string \<Rightarrow> string \<Rightarrow> bool \<Rightarrow> 'c live_server \<Rightarrow> 'c live_server res" where
  "live_server_call D i c path meth upload final v =
     (case live_answer (d_ndebug D) (mhd (d_libs D)) (handler_action (d_libs D) (d_time_text D) (d_version D))
             (continue_action (d_ndebug D) (d_libs D)) (d_handlers D) (d_limit D) c path meth upload (live_conn v i) of
        (Val ok, k) \<Rightarrow>
          Val (v\<lparr>lv_slots := (lv_slots v)(i :=
                   \<lparr>ls_phase = (if ok \<and> lc_queue k = [] \<and> \<not> final then Receiving c path meth else Concluded c path meth),
                    ls_request = lc_request k, ls_queue = lc_queue k\<rparr>),
                 lv_heap := lc_heap k, lv_rest := (lv_rest v)\<lparr>sv_world := lc_world k\<rparr>\<rparr>)
      | (Throw e, k) \<Rightarrow> Throw e
      | (Abort f, k) \<Rightarrow> Abort f)"

definition live_receiving ::
  "'c live_server \<Rightarrow> nat \<Rightarrow> ('c \<Rightarrow> string \<Rightarrow> string \<Rightarrow> 'c live_server res) \<Rightarrow> 'c live_server res" where
  "live_receiving v i f = (case ls_phase (lv_slots v i) of Receiving c path meth \<Rightarrow> f c path meth | _ \<Rightarrow> Val v)"

fun live_callback :: "('c, 'j) deployment \<Rightarrow> 'c server_event \<Rightarrow> 'c live_server \<Rightarrow> 'c live_server res" where
  "live_callback D (Request_first i c path meth) v = live_server_call D i c path meth [] False v"
| "live_callback D (Request_piece i p) v = live_receiving v i (\<lambda>c path meth. live_server_call D i c path meth p False v)"
| "live_callback D (Request_last i) v = live_receiving v i (\<lambda>c path meth. live_server_call D i c path meth [] True v)"
| "live_callback D (Request_completed i) v =
     bnd (live_end (live_conn v i)) (\<lambda>k.
     Val (v\<lparr>lv_slots := (lv_slots v)(i := \<lparr>ls_phase = Idle, ls_request = lc_request k, ls_queue = lc_queue k\<rparr>),
            lv_heap := lc_heap k\<rparr>))"
| "live_callback D e v = bnd (server_callback D e (lv_rest v)) (\<lambda>t. Val (v\<lparr>lv_rest := t\<rparr>))"

inductive live_step :: "('c, 'j) deployment \<Rightarrow> 'c live_server \<Rightarrow> 'c server_event \<Rightarrow> 'c live_server \<Rightarrow> bool" where
  lv_step: "server_enabled e (server_view v) \<Longrightarrow> live_callback D e v = Val v' \<Longrightarrow> live_step D v e v'"

inductive_simps live_step_iff: "live_step D v e v'"

definition live_start :: "main_handler signal_listener list \<Rightarrow> world \<Rightarrow> int set \<Rightarrow> 'c live_server" where
  "live_start ls w K =
     \<lparr>lv_slots = (\<lambda>_. \<lparr>ls_phase = Idle, ls_request = None, ls_queue = []\<rparr>),
      lv_heap = \<lparr>rh_cells = Map.empty, rh_next = 0\<rparr>, lv_rest = server_start ls w K\<rparr>"

section \<open>Who owns which response\<close>

text \<open>The pointers of a connection: the one of its request and those the library has for it.\<close>

definition pointers :: "'c live_slot \<Rightarrow> nat set" where
  "pointers sl = (case ls_request sl of None \<Rightarrow> {} | Some p \<Rightarrow> set_option (lr_response p)) \<union> snd ` set (ls_queue sl)"

text \<open>What a connection owns is there, with as many references as there are pointers to it.\<close>

definition open_slot :: "response_heap \<Rightarrow> 'c live_slot \<Rightarrow> bool" where
  "open_slot l sl \<longleftrightarrow> ls_queue sl = [] \<and> (\<forall>a\<in>pointers sl. \<exists>b. rh_cells l a = Some \<lparr>rc_refs = 1, rc_buffer = b\<rparr>)"

definition closed_slot :: "response_heap \<Rightarrow> 'c live_slot \<Rightarrow> bool" where
  "closed_slot l sl \<longleftrightarrow> (\<exists>code a b. ls_queue sl = [(code, a)]
     \<and> (case ls_request sl of
          None \<Rightarrow> (\<exists>t. b = Literal t) \<and> rh_cells l a = Some \<lparr>rc_refs = 1, rc_buffer = b\<rparr>
        | Some p \<Rightarrow> lr_response p = Some a \<and> rh_cells l a = Some \<lparr>rc_refs = 2, rc_buffer = b\<rparr>))"

definition slot_ok :: "response_heap \<Rightarrow> 'c live_slot \<Rightarrow> bool" where
  "slot_ok l sl \<longleftrightarrow>
     (case ls_phase sl of
        Idle \<Rightarrow> ls_request sl = None \<and> ls_queue sl = []
      | Receiving c path meth \<Rightarrow> open_slot l sl \<and> ls_request sl \<noteq> None
      | Concluded c path meth \<Rightarrow> open_slot l sl \<or> closed_slot l sl)"

definition live_inv :: "'c live_server \<Rightarrow> bool" where
  "live_inv v \<longleftrightarrow> valid_heap (lv_heap v) \<and> (\<forall>i. slot_ok (lv_heap v) (lv_slots v i))
     \<and> (\<forall>i j. i \<noteq> j \<longrightarrow> pointers (lv_slots v i) \<inter> pointers (lv_slots v j) = {})
     \<and> dom (rh_cells (lv_heap v)) = (\<Union>i. pointers (lv_slots v i))"

lemma restrict_one: "m a = Some x \<Longrightarrow> m = (m |` (- {a}))(a \<mapsto> x)"
  by (intro ext) (auto simp add: restrict_map_def)

text \<open>The two views of ownership: of a connection with the rest of the heap, and of a slot.\<close>

lemma open_slot_conn:
  assumes "valid_heap (lv_heap v)" and "open_slot (lv_heap v) (lv_slots v i)"
  shows "open_conn (rh_cells (lv_heap v) |` (- pointers (lv_slots v i))) (live_conn v i)"
proof (cases "\<exists>p a. ls_request (lv_slots v i) = Some p \<and> lr_response p = Some a")
  case False
  with assms have "pointers (lv_slots v i) = {}"
    by (auto simp add: pointers_def open_slot_def split: option.splits)
  with False assms show ?thesis
    by (auto simp add: open_slot_def open_conn_def live_conn_def owns_def restrict_map_def split: option.splits)
next
  case True
  then obtain p a where p: "ls_request (lv_slots v i) = Some p" "lr_response p = Some a" by blast
  with assms(2) have a: "pointers (lv_slots v i) = {a}" by (simp add: pointers_def open_slot_def)
  with assms(2) obtain b where "rh_cells (lv_heap v) a = Some \<lparr>rc_refs = 1, rc_buffer = b\<rparr>" "ls_queue (lv_slots v i) = []"
    by (auto simp add: open_slot_def)
  with p a assms(1) restrict_one [of "rh_cells (lv_heap v)" a] show ?thesis
    by (auto simp add: open_conn_def live_conn_def owns_def)
qed

lemma closed_slot_conn:
  assumes "valid_heap (lv_heap v)" and "closed_slot (lv_heap v) (lv_slots v i)"
  shows "closed_conn (rh_cells (lv_heap v) |` (- pointers (lv_slots v i))) (live_conn v i)"
proof -
  from assms(2) obtain code a b where c: "ls_queue (lv_slots v i) = [(code, a)]"
    "case ls_request (lv_slots v i) of
       None \<Rightarrow> (\<exists>t. b = Literal t) \<and> rh_cells (lv_heap v) a = Some \<lparr>rc_refs = 1, rc_buffer = b\<rparr>
     | Some p \<Rightarrow> lr_response p = Some a \<and> rh_cells (lv_heap v) a = Some \<lparr>rc_refs = 2, rc_buffer = b\<rparr>"
    by (auto simp add: closed_slot_def)
  then have p: "pointers (lv_slots v i) = {a}" by (auto simp add: pointers_def split: option.splits)
  from c restrict_one [of "rh_cells (lv_heap v)" a] assms(1) show ?thesis
    unfolding p closed_conn_def
    by (intro conjI exI [of _ code] exI [of _ a] exI [of _ b])
      (auto simp add: live_conn_def restrict_map_def split: option.splits)
qed

definition conn_slot :: "'c phase \<Rightarrow> ('c, continuation, world) live_connection \<Rightarrow> 'c live_slot" where
  "conn_slot ph k = \<lparr>ls_phase = ph, ls_request = lc_request k, ls_queue = lc_queue k\<rparr>"

text \<open>After a call: what the connection owns, and that the rest of the heap is what it was.\<close>

lemma conn_cells:
  assumes "open_conn h k \<or> closed_conn h k"
  shows "valid_heap (lc_heap k)" and "a \<in> pointers (conn_slot ph k) \<Longrightarrow> h a = None \<and> rh_cells (lc_heap k) a \<noteq> None"
    and "a \<notin> pointers (conn_slot ph k) \<Longrightarrow> rh_cells (lc_heap k) a = h a"
    and "open_conn h k \<Longrightarrow> open_slot (lc_heap k) (conn_slot ph k)"
    and "closed_conn h k \<Longrightarrow> closed_slot (lc_heap k) (conn_slot ph k)"
  using assms
  by (auto simp add: open_conn_def closed_conn_def owns_def pointers_def conn_slot_def open_slot_def closed_slot_def
      split: option.splits)

text \<open>The cells of the other connections stay, so they keep what they own and what they look like.\<close>

lemma same_cells_slot:
  assumes "\<And>a. a \<in> pointers sl \<Longrightarrow> rh_cells l' a = rh_cells l a"
  shows "slot_ok l' sl = slot_ok l sl" and "slot_view l' sl = slot_view l sl"
proof -
  have o: "open_slot l' sl = open_slot l sl" using assms by (simp add: open_slot_def)
  have c: "closed_slot l' sl = closed_slot l sl"
  proof (cases "\<exists>code a. ls_queue sl = [(code, a)]")
    case True
    then obtain code a where q: "ls_queue sl = [(code, a)]" by blast
    with assms have "rh_cells l' a = rh_cells l a" by (simp add: pointers_def)
    with q show ?thesis by (cases "ls_request sl") (simp_all add: closed_slot_def)
  qed (simp add: closed_slot_def)
  from o c show "slot_ok l' sl = slot_ok l sl" by (simp add: slot_ok_def split: phase.split)
  have t: "cell_text r l' a = cell_text r l a" if "a \<in> pointers sl" for a and r :: "('a, continuation) request option"
    using assms [OF that] by (simp add: cell_text_def)
  have "map_option (view l') (ls_request sl) = map_option (view l) (ls_request sl)"
  proof (cases "ls_request sl")
    case (Some p)
    then show ?thesis using t by (cases "lr_response p") (simp_all add: view_def pointers_def)
  qed simp
  moreover have "a \<in> pointers sl" if "(code, a) \<in> set (ls_queue sl)" for code a
    using that by (force simp add: pointers_def)
  then have "texts r l' (ls_queue sl) = texts r l (ls_queue sl)" for r :: "('a, continuation) request option"
    unfolding texts_def using t by (auto intro!: map_cong)
  ultimately show "slot_view l' sl = slot_view l sl" by (simp add: slot_view_def)
qed

lemma replace_slot:
  assumes inv: "live_inv v" and k: "open_conn h k \<or> closed_conn h k"
    and h: "h = rh_cells (lv_heap v) |` (- pointers (lv_slots v i))"
    and ok: "slot_ok (lc_heap k) (conn_slot ph k)"
  shows "live_inv (v\<lparr>lv_slots := (lv_slots v)(i := conn_slot ph k), lv_heap := lc_heap k, lv_rest := r\<rparr>)"
    and "j \<noteq> i \<Longrightarrow> slot_view (lc_heap k) (lv_slots v j) = slot_view (lv_heap v) (lv_slots v j)"
proof -
  note valid = conn_cells(1) [OF k] and cells = conn_cells(2,3) [OF k, where ph = ph]
  have other: "rh_cells (lc_heap k) a = rh_cells (lv_heap v) a \<and> a \<notin> pointers (conn_slot ph k)"
    if "a \<in> pointers (lv_slots v j)" and "j \<noteq> i" for a j
  proof -
    have "a \<notin> pointers (lv_slots v i)" and "rh_cells (lv_heap v) a \<noteq> None"
      using inv that unfolding live_inv_def by blast+
    then have e: "h a = rh_cells (lv_heap v) a" "h a \<noteq> None" unfolding h by simp_all
    moreover have "a \<notin> pointers (conn_slot ph k)"
    proof
      assume "a \<in> pointers (conn_slot ph k)"
      from cells(1) [OF this] e(2) show False by simp
    qed
    ultimately show ?thesis using cells(2) [of a] by simp
  qed
  then show "j \<noteq> i \<Longrightarrow> slot_view (lc_heap k) (lv_slots v j) = slot_view (lv_heap v) (lv_slots v j)"
    by (intro same_cells_slot(2)) simp
  have "slot_ok (lc_heap k) (lv_slots v j)" if "j \<noteq> i" for j
    using same_cells_slot(1) [of "lv_slots v j" "lc_heap k" "lv_heap v"] other that inv by (auto simp add: live_inv_def)
  moreover have "dom (rh_cells (lc_heap k)) = (\<Union>j. pointers (((lv_slots v)(i := conn_slot ph k)) j))"
  proof (intro set_eqI iffI)
    fix a
    assume "a \<in> dom (rh_cells (lc_heap k))"
    show "a \<in> (\<Union>j. pointers (((lv_slots v)(i := conn_slot ph k)) j))"
    proof (cases "a \<in> pointers (conn_slot ph k)")
      case True
      then have "a \<in> pointers (((lv_slots v)(i := conn_slot ph k)) i)" by simp
      then show ?thesis by blast
    next
      case False
      with cells(2) \<open>a \<in> dom _\<close> have "a \<notin> pointers (lv_slots v i)" "a \<in> dom (rh_cells (lv_heap v))"
        by (auto simp add: h restrict_map_def split: if_splits)
      with inv obtain j where "a \<in> pointers (lv_slots v j)" "j \<noteq> i" unfolding live_inv_def by auto
      then have "a \<in> pointers (((lv_slots v)(i := conn_slot ph k)) j)" by simp
      then show ?thesis by blast
    qed
  next
    fix a
    assume "a \<in> (\<Union>j. pointers (((lv_slots v)(i := conn_slot ph k)) j))"
    then obtain j where j: "a \<in> pointers (((lv_slots v)(i := conn_slot ph k)) j)" by blast
    show "a \<in> dom (rh_cells (lc_heap k))"
    proof (cases "j = i")
      case True
      with j cells(1) [of a] show ?thesis by auto
    next
      case False
      with j have "a \<in> pointers (lv_slots v j)" by simp
      moreover from this have "a \<in> dom (rh_cells (lv_heap v))" using inv by (auto simp add: live_inv_def)
      ultimately show ?thesis using other [OF _ False] by (simp add: dom_def)
    qed
  qed
  moreover have "pointers (((lv_slots v)(i := conn_slot ph k)) m) \<inter> pointers (((lv_slots v)(i := conn_slot ph k)) n) = {}"
    if "m \<noteq> n" for m n
  proof -
    have "pointers (conn_slot ph k) \<inter> pointers (lv_slots v j) = {}" if "j \<noteq> i" for j using other [OF _ that] by blast
    moreover have "pointers (lv_slots v m) \<inter> pointers (lv_slots v n) = {}" using that inv by (simp add: live_inv_def)
    ultimately show ?thesis using that by (cases "m = i"; cases "n = i") (simp_all add: Int_commute)
  qed
  ultimately show "live_inv (v\<lparr>lv_slots := (lv_slots v)(i := conn_slot ph k), lv_heap := lc_heap k, lv_rest := r\<rparr>)"
    using valid ok by (auto simp add: live_inv_def)
qed

section \<open>Simulation\<close>

lemma conn_view_slot:
  "conn_view (live_conn v i) = \<lparr>connCls = sl_request (sv_slots (server_view v) i),
     queued_responses = sl_responses (sv_slots (server_view v) i), world = sv_world (server_view v)\<rparr>"
  by (simp add: conn_view_texts live_conn_def server_view_def slot_view_def)

lemma server_view_simps [simp]:
  "sv_world (server_view v) = sv_world (lv_rest v)" "sl_phase (sv_slots (server_view v) i) = ls_phase (lv_slots v i)"
  by (simp_all add: server_view_def slot_view_def)

lemma server_view_replace:
  assumes "\<And>j. j \<noteq> i \<Longrightarrow> slot_view l (lv_slots v j) = slot_view (lv_heap v) (lv_slots v j)"
  shows "server_view (v\<lparr>lv_slots := (lv_slots v)(i := sl), lv_heap := l, lv_rest := (lv_rest v)\<lparr>sv_world := w\<rparr>\<rparr>) =
     (server_view v)\<lparr>sv_slots := (sv_slots (server_view v))(i := slot_view l sl), sv_world := w\<rparr>"
  using assms by (auto simp add: server_view_def fun_eq_iff)

text \<open>An event has the same outcome for the server in memory and for its view.\<close>

definition simulates :: "'c live_server res \<Rightarrow> 'c server_state res \<Rightarrow> bool" where
  "simulates r u \<longleftrightarrow>
     (case r of
        Val v \<Rightarrow> live_inv v \<and> u = Val (server_view v)
      | Throw e \<Rightarrow> u = Throw e
      | Abort f \<Rightarrow> u = Abort f)"

lemma live_call_simulates:
  assumes inv: "live_inv v" and own: "open_slot (lv_heap v) (lv_slots v i)"
  shows "simulates (live_server_call D i c path meth upload final v) (server_call D i c path meth upload final (server_view v))"
proof -
  let ?h = "rh_cells (lv_heap v) |` (- pointers (lv_slots v i))"
  have "valid_heap (lv_heap v)" using inv by (simp add: live_inv_def)
  from open_slot_conn [OF this own] have o: "open_conn ?h (live_conn v i)" .
  obtain res k where r: "live_answer (d_ndebug D) (mhd (d_libs D)) (handler_action (d_libs D) (d_time_text D) (d_version D))
             (continue_action (d_ndebug D) (d_libs D)) (d_handlers D) (d_limit D) c path meth upload (live_conn v i) = (res, k)"
    by force
  obtain res' t where u: "slot_call D c path meth upload (sv_slots (server_view v) i) (sv_world (server_view v)) = (res', t)"
    by force
  have a: "agrees ?h (res, k) (res', t)"
    using live_answer_agrees [OF o, of "d_ndebug D" "mhd (d_libs D)" "handler_action (d_libs D) (d_time_text D) (d_version D)"
        "continue_action (d_ndebug D) (d_libs D)" "d_handlers D" "d_limit D" c path meth upload]
    by (simp only: r u [unfolded slot_call_def] handler_acted conn_view_slot)
  show ?thesis
  proof (cases res)
    case (Val ok)
    let ?ph = "if ok \<and> lc_queue k = [] \<and> \<not> final then Receiving c path meth else Concluded c path meth"
    from a Val have k: "open_conn ?h k \<or> closed_conn ?h k" "t = conn_view k" "res' = Val ok"
      "ok \<Longrightarrow> lc_queue k = [] \<Longrightarrow> lc_request k \<noteq> None" by (auto simp add: agrees_def)
    have "open_conn ?h k" if "lc_queue k = []" using k(1) that by (auto simp add: closed_conn_def)
    then have "slot_ok (lc_heap k) (conn_slot ?ph k)"
      using k(1,4) conn_cells(4,5) [OF k(1), where ph = ?ph] by (auto simp add: slot_ok_def conn_slot_def)
    note s = replace_slot [OF inv k(1) refl this]
    have q: "queued_responses t = [] \<longleftrightarrow> lc_queue k = []" using k(2) by (simp add: conn_view_def)
    have sl: "slot_after c path meth final ok t = slot_view (lc_heap k) (conn_slot ?ph k)"
      unfolding slot_after_def q by (simp add: k(2) conn_view_texts slot_view_def conn_slot_def)
    from s(1) [of "(lv_rest v)\<lparr>sv_world := lc_world k\<rparr>"] server_view_replace [OF s(2), where w = "lc_world k"] show ?thesis
      using Val r u k(2,3) sl by (simp add: simulates_def live_server_call_def server_call_def conn_slot_def conn_view_def)
  qed (use a r u in \<open>auto simp add: agrees_def simulates_def live_server_call_def server_call_def\<close>)
qed

lemma live_completed_simulates:
  assumes inv: "live_inv v" and busy: "ls_phase (lv_slots v i) \<noteq> Idle"
  shows "simulates (live_callback D (Request_completed i) v) (server_callback D (Request_completed i) (server_view v))"
proof -
  let ?h = "rh_cells (lv_heap v) |` (- pointers (lv_slots v i))"
  have valid: "valid_heap (lv_heap v)" and ok: "slot_ok (lv_heap v) (lv_slots v i)" using inv by (simp_all add: live_inv_def)
  with busy open_slot_conn [OF valid, of i] closed_slot_conn [OF valid, of i]
  have "open_conn ?h (live_conn v i) \<or> closed_conn ?h (live_conn v i)"
    by (auto simp add: slot_ok_def split: phase.splits)
  from live_end_frees [OF this] obtain k where k: "live_end (live_conn v i) = Val k" "open_conn ?h k"
    "lc_request k = None" by blast
  then have queue: "lc_queue k = []" by (simp add: open_conn_def)
  have "slot_ok (lc_heap k) (conn_slot Idle k)" using k(3) queue by (simp add: slot_ok_def conn_slot_def)
  note s = replace_slot [OF inv disjI1 [OF k(2)] refl this]
  have "slot_view (lc_heap k) (conn_slot Idle k) = free_slot"
    using k(3) queue by (simp add: slot_view_def conn_slot_def texts_def free_slot_def)
  with s(1) [of "lv_rest v"] server_view_replace [OF s(2), where w = "sv_world (lv_rest v)"] k queue show ?thesis
    by (simp add: simulates_def completedCb_def conn_slot_def server_view_def fun_eq_iff slot_view_def texts_def)
qed

text \<open>The action list and the signals do not look at the connections.\<close>

lemma deliver_signal_slots: "deliver_signal n (s\<lparr>sv_slots := sl\<rparr>) = (deliver_signal n s)\<lparr>sv_slots := sl\<rparr>"
proof -
  have "fold f ls (s\<lparr>sv_slots := sl\<rparr>) = (fold f ls s)\<lparr>sv_slots := sl\<rparr>"
    if "f = (\<lambda>l. if n \<in> sigs l then listener_callback main_signal l n True else id)" for f ls
  proof (induction ls arbitrary: s)
    case (Cons l ls)
    have "main_signal h n (s\<lparr>sv_slots := sl\<rparr>) = (main_signal h n s)\<lparr>sv_slots := sl\<rparr>" for h by (cases h) simp_all
    then have "f l (s\<lparr>sv_slots := sl\<rparr>) = (f l s)\<lparr>sv_slots := sl\<rparr>"
      by (simp add: that listener_callback_def split: option.split)
    with Cons show ?case by simp
  qed simp
  then show ?thesis by (simp add: deliver_signal_def)
qed

lemma action_callback_frame:
  "action_callback D f (s\<lparr>sv_slots := sl\<rparr>) = bnd (action_callback D f s) (\<lambda>t. Val (t\<lparr>sv_slots := sl\<rparr>))"
  by (cases "run_event (d_ndebug D) f (scheduler (sv_world s))") (simp_all add: action_callback_def actions_of_def)

lemma live_event_simulates:
  assumes inv: "live_inv v" and en: "server_enabled e (server_view v)"
  shows "simulates (live_callback D e v) (server_callback D e (server_view v))"
proof -
  have ok: "slot_ok (lv_heap v) (lv_slots v i)" for i using inv by (simp add: live_inv_def)
  have rest: "simulates (bnd (server_callback D e (lv_rest v)) (\<lambda>t. Val (v\<lparr>lv_rest := t\<rparr>))) (server_callback D e (server_view v))"
    if "(\<exists>f. e = Action_event f) \<or> (\<exists>n. e = Signal_event n)"
  proof -
    have "server_callback D e ((lv_rest v)\<lparr>sv_slots := sl\<rparr>) = bnd (server_callback D e (lv_rest v)) (\<lambda>t. Val (t\<lparr>sv_slots := sl\<rparr>))"
      for sl :: "nat \<Rightarrow> 'a slot"
      using that by (auto simp add: action_callback_frame deliver_signal_slots)
    then show ?thesis
      using inv by (cases "server_callback D e (lv_rest v)") (auto simp add: simulates_def server_view_def live_inv_def)
  qed
  show ?thesis
  proof (cases e)
    case (Request_first i c path meth)
    with en ok [of i] have "open_slot (lv_heap v) (lv_slots v i)"
      by (auto simp add: slot_ok_def open_slot_def pointers_def)
    from live_call_simulates [OF inv this] Request_first show ?thesis by simp
  next
    case (Request_piece i p)
    with en obtain c path meth where ph: "ls_phase (lv_slots v i) = Receiving c path meth" by (auto split: phase.splits)
    with ok [of i] have "open_slot (lv_heap v) (lv_slots v i)" by (simp add: slot_ok_def)
    from live_call_simulates [OF inv this] Request_piece ph show ?thesis by (simp add: live_receiving_def)
  next
    case (Request_last i)
    with en obtain c path meth where ph: "ls_phase (lv_slots v i) = Receiving c path meth" by (auto split: phase.splits)
    with ok [of i] have "open_slot (lv_heap v) (lv_slots v i)" by (simp add: slot_ok_def)
    from live_call_simulates [OF inv this] Request_last ph show ?thesis by (simp add: live_receiving_def)
  next
    case (Request_completed i)
    with en live_completed_simulates [OF inv, of i D] show ?thesis by simp
  qed (use rest in simp_all)
qed

lemma live_start_inv: "live_inv (live_start ls w K)" "server_view (live_start ls w K) = server_start ls w K"
  by (auto simp add: live_inv_def live_start_def valid_heap_def slot_ok_def pointers_def server_view_def slot_view_def
      texts_def server_start_def free_slot_def)

lemma live_run_simulates:
  assumes "machine_run (live_step D) (live_start ls w K) es v"
  shows "live_inv v \<and> server_run any_event D (server_start ls w K) es (server_view v)"
  using assms
proof (induction rule: machine_run.induct)
  case mr_nil
  show ?case by (simp add: live_start_inv machine_run.mr_nil)
next
  case (mr_snoc es t e u)
  from mr_snoc.hyps(2) have en: "server_enabled e (server_view t)" and cb: "live_callback D e t = Val u"
    by (simp_all add: live_step_iff)
  from live_event_simulates [OF conjunct1 [OF mr_snoc.IH] en, of D] cb
  have "live_inv u" "server_callback D e (server_view t) = Val (server_view u)" by (simp_all add: simulates_def)
  with mr_snoc.IH en show ?case by (auto intro: machine_run.mr_snoc sv_step)
qed

lemma server_run_live:
  assumes "server_run any_event D (server_start ls w K) es s"
  shows "\<exists>v. machine_run (live_step D) (live_start ls w K) es v \<and> server_view v = s"
  using assms
proof (induction rule: machine_run.induct)
  case mr_nil
  show ?case by (intro exI [of _ "live_start ls w K"]) (simp add: live_start_inv machine_run.mr_nil)
next
  case (mr_snoc es t e u)
  then obtain v where v: "machine_run (live_step D) (live_start ls w K) es v" "server_view v = t" by blast
  from mr_snoc.hyps(2) have en: "server_enabled e t" and cb: "server_callback D e t = Val u" by (simp_all add: server_step_iff)
  have "simulates (live_callback D e v) (Val u)"
    using live_event_simulates [of v e D] live_run_simulates [OF v(1)] v(2) en cb by simp
  then obtain v' where "live_callback D e v = Val v'" "server_view v' = u"
    by (auto simp add: simulates_def split: res.splits)
  with v en show ?case by (auto intro: machine_run.mr_snoc lv_step)
qed

section \<open>The end of the server\<close>

text \<open>
  \<open>http::server::stop\<close>, which the destructor calls at the end of a pass of \<open>main\<close>: \<open>MHD_stop_daemon\<close> makes
  the completion callback for every request that is open, in an order of its own.
\<close>

definition open_slots :: "'c live_server \<Rightarrow> nat set" where
  "open_slots v = {i. ls_phase (lv_slots v i) \<noteq> Idle}"

fun live_stop :: "('c, 'j) deployment \<Rightarrow> nat list \<Rightarrow> 'c live_server \<Rightarrow> 'c live_server res" where
  "live_stop D [] v = Val v"
| "live_stop D (i # is) v = bnd (live_callback D (Request_completed i) v) (live_stop D is)"

lemma open_slots_simps [simp]:
  "open_slots (v\<lparr>lv_rest := r\<rparr>) = open_slots v"
  "open_slots (v\<lparr>lv_slots := (lv_slots v)(i := \<lparr>ls_phase = Idle, ls_request = p, ls_queue = q\<rparr>), lv_heap := h\<rparr>) = open_slots v - {i}"
  by (auto simp add: open_slots_def split: if_splits)

lemma live_call_open: "live_server_call D i c path meth p final v = Val v' \<Longrightarrow> open_slots v' \<subseteq> insert i (open_slots v)"
  by (auto simp add: live_server_call_def open_slots_def split: prod.splits res.splits)

lemma finite_open_slots:
  assumes "machine_run (live_step D) (live_start ls w K) es v"
  shows "finite (open_slots v)"
  using assms
proof (induction rule: machine_run.induct)
  case mr_nil
  then show ?case by (simp add: open_slots_def live_start_def)
next
  case (mr_snoc es t e u)
  have "\<exists>i. open_slots u \<subseteq> insert i (open_slots t)"
    using mr_snoc.hyps(2) unfolding live_step_iff
    by (cases e) (auto simp add: live_receiving_def bnd_Val_iff split: phase.splits dest: live_call_open)
  with mr_snoc.IH show ?case by (auto intro: finite_subset)
qed

lemma live_stop_frees:
  assumes "live_inv v" and "distinct is" and "set is = open_slots v"
  shows "\<exists>v'. live_stop D is v = Val v' \<and> live_inv v' \<and> open_slots v' = {} \<and> lv_rest v' = lv_rest v"
  using assms
proof (induction "is" arbitrary: v)
  case Nil
  then show ?case by simp
next
  case (Cons i "is")
  then have busy: "ls_phase (lv_slots v i) \<noteq> Idle" by (auto simp add: open_slots_def)
  from live_completed_simulates [OF Cons.prems(1) this, of D] obtain u where
    u: "live_callback D (Request_completed i) v = Val u" "live_inv u" by (auto simp add: simulates_def split: res.splits)
  then have "open_slots u = open_slots v - {i}" and rest: "lv_rest u = lv_rest v"
    by (auto simp add: bnd_Val_iff)
  with Cons.prems(2,3) have "set is = open_slots u" "distinct is" by auto
  from Cons.IH [OF u(2) this(2,1)] u(1) rest show ?case by auto
qed

lemma no_open_slot_no_response:
  assumes "live_inv v" and "open_slots v = {}"
  shows "rh_cells (lv_heap v) = Map.empty"
proof -
  have "pointers (lv_slots v i) = {}" for i using assms by (auto simp add: open_slots_def live_inv_def slot_ok_def pointers_def)
  with assms(1) show ?thesis by (simp add: live_inv_def)
qed

section \<open>The property\<close>

text \<open>
  (C8) The responses of the running server are safe in memory and do not leak: with all connections sharing
  one heap of reference-counted responses, the runs of the server in memory are exactly the runs of the
  server on values, seen through the pointers. At any time of any run the heap holds exactly the
  responses the open requests point to, none is shared by two connections, and it is empty when no
  request is open, which is so after \<open>stop\<close> in whatever order the library completes the open requests,
  finitely many; and a callback ends the program only where the callback on values does, so it never
  uses or frees a response that has been freed.
\<close>

theorem responses_safe_in_memory:
  "(server_run any_event D (server_start ls w K) es s
      \<longleftrightarrow> (\<exists>v. machine_run (live_step D) (live_start ls w K) es v \<and> server_view v = s))
   \<and> (\<forall>v. machine_run (live_step D) (live_start ls w K) es v \<longrightarrow>
        dom (rh_cells (lv_heap v)) = (\<Union>i. pointers (lv_slots v i))
        \<and> (\<forall>i j. i \<noteq> j \<longrightarrow> pointers (lv_slots v i) \<inter> pointers (lv_slots v j) = {})
        \<and> (open_slots v = {} \<longrightarrow> rh_cells (lv_heap v) = Map.empty)
        \<and> (\<exists>is. distinct is \<and> set is = open_slots v)
        \<and> (\<forall>is. distinct is \<longrightarrow> set is = open_slots v \<longrightarrow>
              (\<exists>v'. live_stop D is v = Val v' \<and> open_slots v' = {} \<and> rh_cells (lv_heap v') = Map.empty))
        \<and> (\<forall>e f. server_enabled e (server_view v) \<longrightarrow> live_callback D e v = Abort f
              \<longrightarrow> server_callback D e (server_view v) = Abort f))"
proof (intro conjI allI impI)
  show "server_run any_event D (server_start ls w K) es s
      \<longleftrightarrow> (\<exists>v. machine_run (live_step D) (live_start ls w K) es v \<and> server_view v = s)"
    using server_run_live live_run_simulates by blast
next
  fix v :: "'a live_server"
  assume run: "machine_run (live_step D) (live_start ls w K) es v"
  then have inv: "live_inv v" using live_run_simulates by blast
  then show dom: "dom (rh_cells (lv_heap v)) = (\<Union>i. pointers (lv_slots v i))" by (simp add: live_inv_def)
  show "pointers (lv_slots v i) \<inter> pointers (lv_slots v j) = {}" if "i \<noteq> j" for i j
    using inv that by (simp add: live_inv_def)
  show "rh_cells (lv_heap v) = Map.empty" if "open_slots v = {}" using inv that by (rule no_open_slot_no_response)
  show "\<exists>is. distinct is \<and> set is = open_slots v" using finite_distinct_list [OF finite_open_slots [OF run]] by blast
  show "\<exists>v'. live_stop D is v = Val v' \<and> open_slots v' = {} \<and> rh_cells (lv_heap v') = Map.empty"
    if "distinct is" and "set is = open_slots v" for "is"
    using live_stop_frees [OF inv that, of D] no_open_slot_no_response by blast
  show "server_callback D e (server_view v) = Abort f"
    if "server_enabled e (server_view v)" and "live_callback D e v = Abort f" for e f
    using live_event_simulates [OF inv that(1), of D] that(2) by (simp add: simulates_def)
qed

text \<open>The example: the request of the second connection is over and its response freed; the first holds one.\<close>

theorem responses_safe_in_memory_witness:
  "\<exists>v. machine_run (live_step site_deployment) (live_start [] site_world {}) site_events v
     \<and> server_view v = site_final [] \<and> dom (rh_cells (lv_heap v)) = (\<Union>i. pointers (lv_slots v i))
     \<and> pointers (lv_slots v 1) = {} \<and> length (ls_queue (lv_slots v 0)) = 1"
proof -
  note safe = responses_safe_in_memory [of site_deployment "[]" site_world "{}" site_events "site_final []"]
  from safe site_final_any [of "[]"] obtain v where
    v: "machine_run (live_step site_deployment) (live_start [] site_world {}) site_events v" "server_view v = site_final []"
    by blast
  have e: "slot_view (lv_heap v) (lv_slots v i) = sv_slots (site_final []) i" for i
    unfolding v(2) [symmetric] by (simp add: server_view_def)
  have "length (ls_queue (lv_slots v 0)) = 1"
    using arg_cong [OF e [of 0], of "\<lambda>sl. length (sl_responses sl)"] site_final(2) [of "[]"]
    by (simp add: slot_view_def texts_def)
  moreover have "ls_request (lv_slots v 1) = None" "ls_queue (lv_slots v 1) = []"
    using e [of 1] site_final(3) [of "[]"] by (simp_all add: slot_view_def free_slot_def texts_def)
  ultimately have "pointers (lv_slots v 1) = {}" "length (ls_queue (lv_slots v 0)) = 1" by (simp_all add: pointers_def)
  moreover have "dom (rh_cells (lv_heap v)) = (\<Union>i. pointers (lv_slots v i))"
    using mp [OF spec [OF conjunct2 [OF safe], of v] v(1)] by (elim conjE)
  ultimately show ?thesis using v by (intro exI [of _ v] conjI) simp_all
qed

end
