(* ===== verification/Response_Failures.thy ===== *)
theory Response_Failures
  imports Server_Facts
begin

text \<open>
  What happens when the HTTP library cannot create a response. In the first call for a request the
  exception reaches \<open>answerCb\<close>, which closes the connection; in the last call it leaves the continuation
  of the hook, which is \<open>noexcept\<close>. The theory needs no assumption on the library, so it first shows that
  waiting requests are well formed whatever the library answers.
\<close>

section \<open>Waiting requests\<close>

lemma server_step_collecting:
  assumes "server_step (fits D) D s e t" and "\<And>j. slot_collecting (d_limit D) (sv_slots s j)" and "d_limit D < 2 ^ 64"
  shows "slot_collecting (d_limit D) (sv_slots t i)"
  using assms(1)
proof (cases rule: server_step_cases)
  case (call j c path meth upload final ok k)
  have inv: "slot_inv (sv_slots t j)"
    using assms(1) by (rule server_step_slots) (use assms(2) in \<open>simp add: slot_collecting_def\<close>)
  have "slot_collecting (d_limit D) (slot_after c path meth final ok k)"
  proof (cases e)
    case (Request_first j' c' path' meth')
    with call(3) have e: "upload = []" "\<not> final" "sl_phase (sv_slots s j) = Idle" by auto
    have "sv_slots s j = free_slot" using assms(2) [of j] e(3) by (intro slot_inv_idle) (simp_all add: slot_collecting_def)
    with first_call_works [of D c path meth "sv_world s"] call(1) e show ?thesis by auto
  next
    case (Request_piece j' p)
    with call(3) have e: "upload = p" "j' = j" "p \<noteq> []" "\<not> final" "sl_phase (sv_slots s j) = Receiving c path meth" by auto
    have fit: "length (content r) + length p \<le> d_limit D" if "sl_request (sv_slots s j) = Some r" for r
      using assms(1) that Request_piece e(2) by (simp add: server_step_iff)
    from piece_call_works [OF e(5) assms(2) e(3) fit assms(3), of "sv_world s"] call(1) e show ?thesis by auto
  next
    case (Request_last j')
    with call(3) have "final" by auto
    with inv call(2) show ?thesis by (simp add: slot_collecting_def slot_after_def)
  qed (use call(3) in auto)
  with call(2) assms(2) show ?thesis by simp
next
  case (completed j)
  with assms(2) show ?thesis by simp
next
  case other
  with assms(2) show ?thesis by simp
qed

lemma server_run_collecting:
  assumes "server_run (fits D) D (server_start ls w K) es s" and "d_limit D < 2 ^ 64"
  shows "slot_collecting (d_limit D) (sv_slots s i)"
proof -
  have "\<forall>i. slot_collecting (d_limit D) (sv_slots s i)"
    using assms(1) by (rule machine_run_inv) (auto simp add: server_start_def intro: server_step_collecting [OF _ _ assms(2)])
  then show ?thesis by simp
qed

section \<open>The exception in the continuation\<close>

lemma hook_continue_uncreated:
  assumes "response r = None" and "process_content nd S h peer r w = (res, w')" and "\<And>f. res \<noteq> Abort f"
    and "\<not> mhd_create (mhd S) (snd (reply res))" and "\<not> mhd_create (mhd S) ''internal server error''"
  shows "fst (hook_continue nd S (Continue h peer) r w) = Abort Std_terminate"
proof (cases res)
  case (Val x)
  with process_content_counts [of nd S h peer r w w'] assms(2) obtain n where "x = Some n" by (cases x) auto
  with Val assms show ?thesis
    by (simp add: hook_continue_def catch_and_respond_def respond_static_none split: if_splits)
next
  case (Throw e)
  with assms show ?thesis
    by (cases e) (simp_all add: hook_continue_def catch_and_respond_def respond_static_none respond_string_none)
next
  case (Abort f)
  with assms(3) [of f] show ?thesis by simp
qed

text \<open>
  (C26) A response that cannot be created ends the whole server, or only one connection, depending on the
  call: in every state the server can reach within the limit on bodies, the first call for a request is
  handled to its end, whatever the library answers; but if the body of an accepted request is complete,
  and the library can create neither the response for the outcome of the hooks nor the one for an
  internal error, then the exception leaves the continuation, which is \<open>noexcept\<close>, and the program is
  terminated, although \<open>answerCb\<close> has a handler for it.
\<close>

theorem uncreatable_answer_terminates:
  assumes "server_run (fits D) D (server_start ls w K) es s" and "d_limit D < 2 ^ 64"
    and "sl_phase (sv_slots s i) = Receiving c path meth" and "sl_request (sv_slots s i) = Some r"
    and "rhandler r = Some (Continue h peer)"
    and "process_content (d_ndebug D) (d_libs D) h peer (r\<lparr>rstate := Completed\<rparr>) (sv_world s) = (res, w')"
    and "\<not> mhd_create (mhd (d_libs D)) (snd (reply res))" and "\<not> mhd_create (mhd (d_libs D)) ''internal server error''"
  shows "server_callback D (Request_last i) s = Abort Std_terminate
     \<and> (\<forall>j c path meth. sl_phase (sv_slots s j) = Idle \<longrightarrow> (\<exists>t. server_callback D (Request_first j c path meth) s = Val t))"
proof
  note sc = server_run_collecting [OF assms(1,2)]
  have r: "rstate r = Accepted" "has_body (rmethod r)" "response r = None"
    using sc [of i] assms(3,4) by (auto simp add: slot_collecting_def collecting_def awaiting_def)
  have safe: "res \<noteq> Abort f" for f
    using process_content_safe [of "r\<lparr>rstate := Completed\<rparr>" "d_ndebug D" "d_libs D" h peer "sv_world s"] assms(6) r by simp
  have "fst (hook_continue (d_ndebug D) (d_libs D) (Continue h peer) (r\<lparr>rstate := Completed\<rparr>) (sv_world s)) = Abort Std_terminate"
    by (rule hook_continue_uncreated [OF _ assms(6) safe assms(7,8)]) (use r in simp)
  then obtain r' w2 where "hook_continue (d_ndebug D) (d_libs D) (Continue h peer) (r\<lparr>rstate := Completed\<rparr>) (sv_world s)
      = (Abort Std_terminate, r', w2)" by (metis prod.collapse)
  with assms(3-5) r show "server_callback D (Request_last i) s = Abort Std_terminate"
    by (simp add: server_call_def slot_call_def answerCb_def completeRequest_def Let_def)
  show "\<forall>j c path meth. sl_phase (sv_slots s j) = Idle \<longrightarrow> (\<exists>t. server_callback D (Request_first j c path meth) s = Val t)"
  proof (intro allI impI)
    fix j c path meth
    assume "sl_phase (sv_slots s j) = Idle"
    then have "sv_slots s j = free_slot" using sc [of j] by (intro slot_inv_idle) (simp_all add: slot_collecting_def)
    with first_call_works [of D c path meth "sv_world s"] show "\<exists>t. server_callback D (Request_first j c path meth) s = Val t"
      by (auto simp add: server_call_def)
  qed
qed

text \<open>The installation of \<^theory_text>\<open>Example_Site\<close> with a library that creates no response.\<close>

definition mute_site :: "(headers, jtree) deployment" where
  "mute_site = site_deployment\<lparr>d_libs := site\<lparr>mhd := site_mhd\<lparr>mhd_create := \<lambda>_. False\<rparr>\<rparr>\<rparr>"

lemma mute_first_call:
  "slot_call mute_site good_headers ''/api/deploy'' ''POST'' [] free_slot w =
     (Val True, \<lparr>connCls = Some (site_receiving []), queued_responses = [],
        world = w\<lparr>hooksRequests := hooksRequests w + 1\<rparr>\<rparr>)"
proof -
  let ?S = "site\<lparr>mhd := site_mhd\<lparr>mhd_create := \<lambda>_. False\<rparr>\<rparr>"
  let ?r = "post_request good_headers ''/api/deploy'' 65535"
  have "peer_of ?S ?r = peer_of site ?r" "refusal ?S site_chain p ?r = refusal site site_chain p ?r" for p
    by (simp_all add: peer_of_def req_peer_address_def addr_to_string_def refusal_def req_header_def site_def Let_def)
  with site_accepts [of 65535] show ?thesis
    by (simp add: mute_site_def slot_call_def site_deployment_def answerCb_def free_slot_def newRequest_def methodFrom_def
        run_handler_def hook_call_eq Let_def after_entry_def site_receiving_def)
qed

theorem uncreatable_answer_terminates_witness:
  "\<exists>s. server_callback mute_site (Request_first 0 good_headers ''/api/deploy'' ''POST'') (server_start [] site_world {}) = Val s
     \<and> server_callback mute_site (Request_last 0) s = Abort Std_terminate"
proof -
  let ?e = "Request_first 0 good_headers ''/api/deploy'' ''POST''"
  obtain s where s: "server_callback mute_site ?e (server_start [] site_world {}) = Val s"
    "sv_slots s 0 = \<lparr>sl_phase = Receiving good_headers ''/api/deploy'' ''POST'',
       sl_request = Some (site_receiving []), sl_responses = []\<rparr>"
    by (simp add: server_start_def server_call_def mute_first_call slot_after_def)
  have "server_step (fits mute_site) mute_site (server_start [] site_world {}) ?e s"
    using s(1) by (simp add: server_step_iff server_start_def)
  then have run: "server_run (fits mute_site) mute_site (server_start [] site_world {}) [?e] s"
    by (rule machine_run_Cons) (rule mr_nil)
  obtain res w' where p: "process_content (d_ndebug mute_site) (d_libs mute_site) site_chain ''10.0.0.1''
      ((site_receiving [])\<lparr>rstate := Completed\<rparr>) (sv_world s) = (res, w')" by force
  have "d_limit mute_site < 2 ^ 64" "rhandler (site_receiving []) = Some (Continue site_chain ''10.0.0.1'')"
    "\<not> mhd_create (mhd (d_libs mute_site)) body" for body
    by (simp_all add: mute_site_def site_deployment_def site_receiving_def)
  from uncreatable_answer_terminates [OF run this(1) _ _ this(2) p this(3,3)] s show ?thesis by simp
qed

end
