(* ===== verification/Spec2Isabelle.thy ===== *)
theory Spec2Isabelle
  imports Action_Facts Http_Facts Hook_Facts Command_Facts Hook_Setup Process_Facts Log_Watchdog
    Connection_Alone Server_Progress Main_Errors Command_Config Command_Triggered Child_Signals Request_Counts
    Response_Server Response_Failures
begin

text \<open>
  gitlab-hook is a server that listens for webhook requests of GitLab and runs configured commands
  when a request matches. This library models its C++ code under \<open>src/\<close> and proves what makes it
  correct. The program works in one thread around an event loop of libevent:

  \<^item> \<open>main.cpp\<close> reads the configuration, makes one \<open>hook\<close> per entry of \<open>hooks\<close>, and registers each
    path with the HTTP server; hooks of one path are chained.
  \<^item> \<open>http_server.cpp\<close> is the callback of libmicrohttpd: it finds the handler of the most specific
    registered path, lets it accept or refuse the request, collects the body, and calls the
    continuation the handler has left.
  \<^item> \<open>hook.cpp\<close>, \<open>pipeline_hook.cpp\<close> and \<open>debug_hook.cpp\<close> are the handlers: token and peer decide which
    hooks of the chain are asked, each asked hook reads the JSON event and may schedule its command.
  \<^item> \<open>action_list.cpp\<close> is the queue of scheduled commands; it runs one at a time, with a timeout that
    is followed by SIGTERM and then by SIGKILL.
  \<^item> \<open>io_context.cpp\<close> and \<open>signal_listener.cpp\<close> are the event loop and its signals: SIGHUP, SIGINT and
    SIGTERM quit, SIGUSR1 makes \<open>main\<close> destroy everything and start again with the configuration file.
  \<^item> \<open>process.cpp\<close> and \<open>user_group.cpp\<close> fork and run the child as the configured user, and report its
    end when SIGCHLD arrives.

  \<^bold>\<open>Conventions.\<close> A fallible operation yields \<open>Val\<close>, \<open>Throw\<close> with the exception, or \<open>Abort\<close> with the
  way the program ends (a failed \<open>assert\<close>, \<open>std::terminate\<close>, \<open>std::exit\<close>, undefined behaviour, a loop
  that never ends). The argument \<open>ndebug\<close> (or \<open>nd\<close>) is the build mode: without \<open>NDEBUG\<close> assertions
  abort, with it they are not there; theorems without a hypothesis on it hold in both. Operations on
  shared state yield a pair of result and new state, so that what was done before an exception is
  kept. Byte strings are lists of characters. \<open>size_t\<close>, \<open>uint64_t\<close>, \<open>uid_t\<close> and \<open>gid_t\<close> are words of 64
  and 32 bits, the counters wrap around; pids and time values are integers; the length of an object
  in memory is a natural number.

  \<^bold>\<open>Theories.\<close> In the order of their imports:

  \<^item> \<open>GH_Prelude\<close>: results and exceptions, assertions, \<open>noexcept\<close>, and the lemmas on them.
  \<^item> \<open>Text_Scan\<close>: the searches of \<open>std::string_view\<close>, and \<open>trimmed\<close>, \<open>split_command\<close> and
    \<open>gitlabServerFrom\<close> of \<open>hook.cpp\<close>; the words of a command line are the maximal runs of characters
    that are not blank.
  \<^item> \<open>Environment_Block\<close>: \<open>process::environment\<close>; \<open>getenv\<close> is the reader's side.
  \<^item> \<open>User_Group\<close>: the class \<open>user_group\<close> and \<open>impersonate\<close>.
  \<^item> \<open>Child_Process\<close>, \<open>Process_List\<close>, \<open>Process_Facts\<close>: the class \<open>process\<close> on an explicit heap, with
    the intrusive list of running processes, \<open>start\<close> on both sides of \<open>fork\<close>, \<open>terminate\<close>, \<open>kill\<close>,
    the destructor and \<open>onSigchld\<close>. The locale \<open>child_registry\<close> is what a user of the list relies on;
    its interpretation proves that the pointer code implements a duplicate-free sequence of
    addresses.
  \<^item> \<open>Action_List\<close>, \<open>Action_Loop\<close>, \<open>Action_Queue\<close>, \<open>Action_Facts\<close>: the queue with its three events, the
    event loop as the relation \<open>loop_step\<close> over its callbacks, the invariant of the reachable states,
    and the contract \<open>fifo_log\<close> (things leave a queue in the order in which they entered), which is
    interpreted twice: for the start and for the end of hooks.
  \<^item> \<open>Job_Queue\<close>: what the items of the queue stand for. A job is a command with its program, arguments,
    environment, user and timeout, or a function; the contract \<open>fifo_log\<close> is interpreted again for jobs,
    so that what is started is what was scheduled.
  \<^item> \<open>Child_Signals\<close>: the loop extended by the children that have exited and the pending SIGCHLD, with the
    static process list that registers for it in the first \<open>process::start\<close>, behind the \<open>fork\<close>. Which
    children the callback reaps is computed by the loop of \<open>onSigchld\<close> (\<open>sigchld_loop\<close>) from the answers of
    \<open>waitid\<close>.
  \<^item> \<open>Http_Routing\<close>, \<open>Http_Server\<close>, \<open>Http_Contract\<close>: the handler table with the locale \<open>path_router\<close>; the
    request object and the access handler; and the locale \<open>request_handler\<close>, which says what the
    server relies on when it calls a handler, with the lemmas on a whole request proved from it.
  \<^item> \<open>Config_Item\<close>, \<open>Json_Api\<close>: typed access to the configuration, and what the hooks use of JSON.
  \<^item> \<open>Hook_Core\<close>: the three hook classes, from their construction to the scheduling of a command.
  \<^item> \<open>Status_Page\<close>, \<open>Request_Handlers\<close>: the page \<open>/status\<close>, and the proof that both kinds of handlers keep
    the contract \<open>request_handler\<close>.
  \<^item> \<open>Http_Facts\<close>, \<open>Hook_Facts\<close>, \<open>Pipeline_Facts\<close>, \<open>Command_Facts\<close>: the properties of requests, of chains,
    of pipeline events, and of the commands they schedule. \<open>Example_Site\<close> is the installation on
    which their witnesses are evaluated. \<open>Status_Facts\<close> reads the status page back: a reader of its
    table finds the counters it was made from.
  \<^item> \<open>Hook_Config\<close>, \<open>Hook_Setup\<close>: hooks made from a configuration, and the registration loop of \<open>main\<close>.
  \<^item> \<open>Server_Config\<close>, \<open>Log_Watchdog\<close>: the setters, options and timer of the server with the class
    \<open>http_server\<close> of \<open>main.cpp\<close>; logging with the command line; the watchdog with its timer.
  \<^item> \<open>Io_Events\<close>: \<open>io_context\<close> as a loop over the callbacks libevent makes, left after the one that
    calls \<open>stop\<close>, and \<open>signal_listener\<close>.
  \<^item> \<open>Server_Machine\<close>: the running server as a whole. A connection is a slot with its request object
    and responses; \<open>server_step\<close> lets the library call the access handler for any connection at
    any time, within the protocol of one request, and mixes these calls with the callbacks of the
    action list and the signals. \<open>server_run\<close> is a run of it.
  \<^item> \<open>Server_Refinement\<close>: the locales \<open>simulation\<close> (each step of one machine is a run of another) and
    \<open>state_effect\<close> (what all handlers respect, all calls respect), interpreted for the server and the
    action list: requests do nothing to the scheduler but append.
  \<^item> \<open>Server_Facts\<close>, \<open>Connection_Alone\<close>, \<open>Server_Progress\<close>: the properties of the running server, with the
    run of \<open>Example_Server\<close> for their witnesses; the last one has progress and counters.
  \<^item> \<open>Response_Failures\<close>: what happens in which call when the HTTP library cannot create a response.
  \<^item> \<open>Command_History\<close>: what the server schedules, exactly. The locale \<open>job_log\<close> is a log of the action list
    (what is left in it and what leaves it), interpreted for the start and for the end of jobs; over any
    run of the server the log is the sequence of jobs that the history of the requests asks for.
  \<^item> \<open>Command_Origin\<close>, \<open>Command_Config\<close>: where the command of a forked child comes from. Every waiting job is
    traced back to a received request, and through the set-up to an entry of the configuration file.
  \<^item> \<open>Command_Triggered\<close>: the other direction. What a complete request triggers comes to the front of the
    queue, and the child that is forked then executes it.
  \<^item> \<open>Request_Counts\<close>: which events of a run the counters of the status page count.
  \<^item> \<open>Response_Memory\<close>, \<open>Response_Lifetime\<close>, \<open>Response_Server\<close>: the responses as counted references in a heap.
    The operations of \<open>Http_Server\<close> are modelled once more with pointers; what a handler does to its request
    is a sequence of their calls (\<open>action\<close>), which is proved equal to the handlers on values. Each
    operation, each callback, and the server with all its connections refine the model on values. At the end
    \<open>stop\<close> makes the library complete the open requests, which leaves no response (\<open>live_stop\<close>).
  \<^item> \<open>Main_Loop\<close>, \<open>Main_Passes\<close>, \<open>Main_Facts\<close>, \<open>Main_Errors\<close>: \<open>main\<close> with the passes of its loop. \<open>pass_setup\<close> composes
    the loading of the file, the action list, the listeners, the server and the hooks; \<open>main_pass\<close> runs
    the event loop on the state this gives; \<open>pass_teardown\<close> destroys the objects; \<open>program\<close> is what
    survives. \<open>Example_Main\<close> has a configuration whose set-up is proved to give the example
    installation, and the passes on which the witnesses run.

  \<^bold>\<open>What the properties show.\<close> Hooks run one at a time, in the order in which they were scheduled; the
  callbacks of the queue never fail an assertion or follow a dangling pointer, except when \<open>fork\<close>
  fails; the queue never gets stuck; and signals go to children only. A request schedules something
  only if it is a POST for the path of a hook whose token and peer it has; it is answered at most
  once, and exactly once with the documented code if its body is within the limit and the library can create
  the response. A hook is created with just the members the configuration gives. A pipeline hook schedules
  its command exactly on the configured events, its command gets the words of the command line and the
  values of the event, and runs with the configured user and group, which under user id 0 must be given. From the
  configuration file to \<open>execve\<close>: whatever a child executes in a running server are the words of a
  configured hook, with the environment of an event that was received with the token of this hook; and in
  the other direction every command a request triggers can be executed, while the jobs started and
  waiting are at any time exactly those of the history, in its order. Routing
  finds the most specific path, and every configured hook is reachable in builds with assertions. All of this holds for the
  server as a whole: whatever the interleaving of connections, timers, children and signals is, the
  scheduler makes a run of its own machine, each connection gets what it would get alone, and an
  unauthorised call never changes the queue. A signal ends a pass as intended, and over any number of
  reloads of an idle program no callback fails; the queue can always be emptied, the numbers read back
  from the status page are those of the history of the run. The
  responses of all connections are freed when their requests are over, and none is used after that. Every set-up gives a
  server or an error message, unless an assertion fails. The loops over the process list end, with the
  right entry or the right list, and \<open>onSigchld\<close> reaps every child that has exited. Further theorems state where
  the code does not do what it means to: the exit of the first child, which is lost if it comes before
  the program has registered for SIGCHLD, the requests that the status page calls rejected while they are
  being received, the abort on an oversize body, the answer 413 that is never
  sent, the end of the whole server when the response to an accepted request cannot be created, the third hook of one path, the dangling process after the destruction of the queue, the
  failing \<open>fork\<close>, the hung command that is not counted as failed, the connection limit of zero, the
  interval of the watchdog and that it fires only once, the crash after a reload while a command
  runs, and the end of the server when a reload meets a broken configuration file.

  \<^bold>\<open>Parameters.\<close> Code that is not in the repository is an argument: libmicrohttpd is the record \<open>mhd\<close>
  (headers, query arguments, peer of a connection) together with its documented calling protocol, the
  function \<open>serve\<close>: one call without data, one for each piece of the body as long as the answer is
  yes, and one at the end. The TOML and JSON libraries are the records \<open>toml\<close> and \<open>json_api\<close> of the
  accessors the code calls; the user database, the credential calls, the file system, the conversion
  of addresses and times, and the answers of \<open>fork\<close> and \<open>waitid\<close> are arguments too. What is assumed of
  them (\<open>waitid\<close> answers once for each child, a pid in use is not given out again, the functions that
  set ids set them or fail) stands in the statement that needs it, and each such statement has a
  witness on a concrete instance. Which callback comes next is not fixed: \<open>loop_step\<close> and \<open>server_step\<close>
  allow every order in which the events can fire. A pass of \<open>main\<close> takes its list of events from the
  record \<open>pass\<close>; the theorems on it ask that the events before the signal are a run of \<open>server_step\<close>.

  \<^bold>\<open>Bounds.\<close> No operation runs on fuel. The event loop and the loop of \<open>main\<close> run over the list
  of what happens (events, passes), which may have any length; at its end the program waits for the next
  event, or is about to make the next pass. The two loops along the process list are partial functions into
  options, whose lemmas show a result for every well-formed list; a cyclic list would give \<open>Diverges\<close>.
  The destructor of a process polls six times, as written in the code. The option array of the
  server has eight elements, which suffice for all configurations. All other loops are total.

  \<^bold>\<open>What is not modelled.\<close> Parsing of the configuration file and of the command line's text belongs to
  libraries, as does everything on sockets; libevent is present only through the callbacks it makes.
  The texts of log messages and the notifications of \<open>main\<close> to systemd are not modelled, except for the
  severity filter, the line that is written, and the expressions a log call evaluates. \<open>init_global\<close> is empty and
  \<open>groupIdForName\<close> is not called by the program. The constructors and deleters that only pass a
  pointer on have no definition of their own, except the deleter of responses; the ownership of other objects
  (process objects apart, which have a heap of their own) is that of C++ values and \<open>unique_ptr\<close>s. The other
  functions left out return a constant or a member, or pass a value on to a library: the name and the singleton of an
  error category, \<open>native_handle\<close>, \<open>get_io_context\<close>, \<open>root\<close>, \<open>file_name\<close>, and the hash functors of the
  TOML table. The two files of the tests hold one empty test.
\<close>

end
